(* ===== verification/Prelude.thy ===== *)
theory Prelude
  imports Main "HOL-Library.Product_Lexorder" "HOL-Library.List_Lexorder"
begin

text \<open>
  Shared vocabulary of the development: the collections of rewrite rules the component theories
  fill, Python's insertion-ordered dictionaries as association lists, grouping a list under keys
  (the \<open>setdefault(k, []).append(v)\<close> idiom), and the first-maximum selection of \<open>max(xs, key=...)\<close>.
\<close>

named_theorems io_simps \<open>unfolding rules for the effect combinators\<close>
named_theorems str_simps \<open>evaluation rules for Python string operations\<close>
named_theorems db_simps \<open>effects of the SQL statements on the tables\<close>

subsection \<open>Insertion-ordered dictionaries\<close>

text \<open>\<open>d.setdefault(k, []).append(v)\<close>: a new key goes to the end, an existing one keeps its place.\<close>

fun dict_append :: "'k \<Rightarrow> 'v \<Rightarrow> ('k \<times> 'v list) list \<Rightarrow> ('k \<times> 'v list) list" where
  "dict_append k v [] = [(k, [v])]"
| "dict_append k v ((k', vs) # d) =
     (if k' = k then (k', vs @ [v]) # d else (k', vs) # dict_append k v d)"

definition group_by :: "('a \<Rightarrow> 'k) \<Rightarrow> 'a list \<Rightarrow> ('k \<times> 'a list) list" where
  "group_by key xs = foldl (\<lambda>d x. dict_append (key x) x d) [] xs"

lemma keys_dict_append:
  "map fst (dict_append k v d) =
     (if k \<in> set (map fst d) then map fst d else map fst d @ [k])"
  by (induction d) (auto simp del: set_map)

lemma distinct_dict_append:
  "distinct (map fst d) \<Longrightarrow> distinct (map fst (dict_append k v d))"
  by (simp add: keys_dict_append)

lemma map_of_dict_append:
  "map_of (dict_append k v d) k' =
     (if k' = k then Some (case map_of d k of None \<Rightarrow> [v] | Some vs \<Rightarrow> vs @ [v])
      else map_of d k')"
  by (induction d) (auto split: option.splits)

lemma group_by_snoc:
  "group_by key (xs @ [x]) = dict_append (key x) x (group_by key xs)"
  by (simp add: group_by_def)

lemma group_by_Nil [simp]: "group_by key [] = []"
  by (simp add: group_by_def)

lemma distinct_group_by: "distinct (map fst (group_by key xs))"
  by (induction xs rule: rev_induct) (simp_all add: group_by_snoc distinct_dict_append)

lemma set_keys_group_by: "fst ` set (group_by key xs) = key ` set xs"
proof (induction xs rule: rev_induct)
  case (snoc x xs)
  have "set (map fst (group_by key (xs @ [x]))) = insert (key x) (set (map fst (group_by key xs)))"
    by (auto simp: group_by_snoc keys_dict_append simp del: set_map)
  then show ?case using snoc by simp
qed simp

text \<open>Each group is exactly the sublist of the elements that have its key, in list order.\<close>

lemma map_of_group_by:
  "map_of (group_by key xs) k =
     (if k \<in> key ` set xs then Some (filter (\<lambda>x. key x = k) xs) else None)"
proof (induction xs rule: rev_induct)
  case (snoc x xs)
  have "filter (\<lambda>y. key y = key x) xs = []" if "key x \<notin> key ` set xs"
    using that by (metis (mono_tags, lifting) filter_False image_eqI)
  with snoc show ?case
    by (auto simp: group_by_snoc map_of_dict_append split: option.splits if_splits)
qed simp

lemma group_by_group:
  assumes "(k, g) \<in> set (group_by key xs)"
  shows "g = filter (\<lambda>x. key x = k) xs" and "g \<noteq> []"
proof -
  have m: "map_of (group_by key xs) k = Some g"
    using assms by (simp add: distinct_group_by)
  then show "g = filter (\<lambda>x. key x = k) xs"
    by (auto simp: map_of_group_by split: if_splits)
  with m show "g \<noteq> []"
    by (auto simp: map_of_group_by filter_empty_conv split: if_splits)
qed

lemma dict_append_fresh: "k \<notin> set (map fst d) \<Longrightarrow> dict_append k v d = d @ [(k, [v])]"
  by (induction d) auto

lemma group_by_distinct:
  "distinct (map key xs) \<Longrightarrow> group_by key xs = map (\<lambda>x. (key x, [x])) xs"
  by (induction xs rule: rev_induct) (simp_all add: group_by_snoc dict_append_fresh comp_def)

lemma length_group_by_le: "length (group_by key xs) \<le> length xs"
proof -
  have "length (group_by key xs) = card (fst ` set (group_by key xs))"
    using distinct_card [OF distinct_group_by [of key xs]] by simp
  also have "\<dots> \<le> length xs"
    unfolding set_keys_group_by by (metis card_image_le card_length finite_set order_trans)
  finally show ?thesis .
qed

subsection \<open>The first maximal element\<close>

text \<open>\<open>max(xs, key=f)\<close> keeps the first element whose key is greatest; \<open>max([])\<close> raises, so
  the function is only applied to a head and a tail.\<close>

fun py_max :: "('a \<Rightarrow> 'b::linorder) \<Rightarrow> 'a \<Rightarrow> 'a list \<Rightarrow> 'a" where
  "py_max f m [] = m"
| "py_max f m (x # xs) = py_max f (if f m < f x then x else m) xs"

lemma py_max_in: "py_max f m xs \<in> set (m # xs)"
  by (induction xs arbitrary: m) (auto split: if_splits)

lemma py_max_ge_start: "f m \<le> f (py_max f m xs)"
proof (induction xs arbitrary: m)
  case (Cons x xs)
  from Cons.IH [of m] Cons.IH [of x] show ?case by (auto intro: order_trans less_imp_le)
qed simp

lemma py_max_ge: "x \<in> set (m # xs) \<Longrightarrow> f x \<le> f (py_max f m xs)"
proof (induction xs arbitrary: m)
  case (Cons y ys)
  let ?m = "if f m < f y then y else m"
  have "f m \<le> f ?m" "f y \<le> f ?m" by auto
  moreover have "f ?m \<le> f (py_max f ?m ys)" by (rule py_max_ge_start)
  moreover have "x \<in> set ys \<Longrightarrow> f x \<le> f (py_max f ?m ys)" using Cons.IH [of ?m] by simp
  ultimately show ?case using Cons.prems by (auto simp del: if_split)
qed simp

subsection \<open>Sorted sets\<close>

text \<open>\<open>sorted({...})\<close>.\<close>

definition sorted_set :: "'a::linorder list \<Rightarrow> 'a list" where
  "sorted_set xs = sort (remdups xs)"

lemma sorted_set_facts [simp]:
  "set (sorted_set xs) = set xs" "sorted (sorted_set xs)" "distinct (sorted_set xs)"
  by (simp_all add: sorted_set_def)

lemma sorted_set_Nil_iff [simp]: "sorted_set xs = [] \<longleftrightarrow> xs = []"
  by (metis set_empty sorted_set_facts(1))

lemma sorted_set_cong: "set xs = set ys \<Longrightarrow> sorted_set xs = sorted_set ys"
  by (intro sorted_distinct_set_unique) simp_all

subsection \<open>List lemmas\<close>

lemma sort_key_sorted: "sorted (map f xs) \<Longrightarrow> sort_key f xs = xs"
  by (induction xs) (auto simp: insort_is_Cons)

lemma filter_eq_singleton_distinct:
  "distinct (map f xs) \<Longrightarrow> x \<in> set xs \<Longrightarrow> filter (\<lambda>y. f y = f x) xs = [x]"
proof (induction xs)
  case (Cons y ys)
  show ?case
  proof (cases "x = y")
    case True
    with Cons.prems have "\<forall>z \<in> set ys. f z \<noteq> f x" by (auto simp: image_iff)
    with True show ?thesis by (simp add: filter_empty_conv)
  next
    case False
    with Cons.prems have "x \<in> set ys" and "f y \<noteq> f x" by (auto simp: image_iff)
    with Cons show ?thesis by simp
  qed
qed simp

lemma distinct_map_filter_nth:
  "(\<forall>j < length xs. \<forall>k < length xs. p (xs ! j) \<longrightarrow> p (xs ! k) \<longrightarrow> f (xs ! j) = f (xs ! k) \<longrightarrow> j = k) \<Longrightarrow>
    distinct (map f (filter p xs))"
proof (induction xs)
  case (Cons x xs)
  have "\<forall>j < length xs. \<forall>k < length xs. p (xs ! j) \<longrightarrow> p (xs ! k) \<longrightarrow> f (xs ! j) = f (xs ! k) \<longrightarrow> j = k"
    using Cons.prems by (metis Suc_inject Suc_less_eq length_Cons nth_Cons_Suc)
  moreover have "f x \<notin> f ` set (filter p xs)" if "p x"
  proof
    assume "f x \<in> f ` set (filter p xs)"
    then obtain k where "k < length xs" "p (xs ! k)" "f x = f (xs ! k)" by (auto simp: in_set_conv_nth)
    with Cons.prems [rule_format, of 0 "Suc k"] that show False by simp
  qed
  ultimately show ?case using Cons.IH by simp
qed simp

lemma find_snoc:
  "find p (xs @ [x]) = (case find p xs of Some y \<Rightarrow> Some y | None \<Rightarrow> if p x then Some x else None)"
  by (induction xs) auto

lemma find_update:
  "(\<And>x. q (g x) = q x) \<Longrightarrow> find q (map (\<lambda>x. if p x then g x else x) xs) =
     map_option (\<lambda>x. if p x then g x else x) (find q xs)"
  by (induction xs) auto

lemma find_Some_set: "find p xs = Some x \<Longrightarrow> x \<in> set xs \<and> p x"
  by (induction xs) (auto split: if_splits)

lemma find_distinct:
  "distinct (map f xs) \<Longrightarrow> x \<in> set xs \<Longrightarrow> find (\<lambda>y. f y = f x) xs = Some x"
  by (induction xs) (auto simp: image_iff)

lemma takeWhile_dropWhile_append: "takeWhile P xs @ dropWhile P xs = xs"
  by simp

end
