(* ===== verification/PyString.thy ===== *)
theory PyString
  imports Prelude
begin

text \<open>
  Python's \<open>str\<close> as a list of Unicode code points, with the operations of the standard library
  that the program uses: prefix tests, \<open>strip\<close>, \<open>splitlines\<close>, \<open>join\<close>, decimal rendering of
  integers, and substring search. \<open>lit\<close> turns an ASCII literal into such a string.
\<close>

type_synonym pystr = "nat list"

definition lit :: "string \<Rightarrow> pystr" where
  "lit s = map of_char s"

lemma lit_Nil [simp]: "lit [] = []"
  by (simp add: lit_def)

lemma lit_eq_iff [simp]: "lit s = lit t \<longleftrightarrow> s = t"
  by (auto simp: lit_def inj_map_eq_map [OF inj_of_char])

lemma lit_eq_Nil_iff [simp]: "lit s = [] \<longleftrightarrow> s = []" "[] = lit s \<longleftrightarrow> s = []"
  by (auto simp: lit_def)

lemma length_lit [simp]: "length (lit s) = length s"
  by (simp add: lit_def)

lemma set_lit_bound: "c \<in> set (lit s) \<Longrightarrow> c < 256"
  by (auto simp: lit_def)

lemmas lit_eval = lit_def list.map of_char_Char

subsection \<open>Character classes\<close>

text \<open>\<open>str.isspace\<close> on one character, which is also the class \<open>\s\<close> of a \<open>str\<close> pattern.\<close>

definition is_space :: "nat \<Rightarrow> bool" where
  "is_space c \<longleftrightarrow> (9 \<le> c \<and> c \<le> 13) \<or> (28 \<le> c \<and> c \<le> 32) \<or> c = 133 \<or> c = 160 \<or> c = 5760
     \<or> (8192 \<le> c \<and> c \<le> 8202) \<or> c = 8232 \<or> c = 8233 \<or> c = 8239 \<or> c = 8287 \<or> c = 12288"

text \<open>The line boundaries of \<open>str.splitlines\<close> (a carriage return and line feed pair counts once).\<close>

definition is_linebreak :: "nat \<Rightarrow> bool" where
  "is_linebreak c \<longleftrightarrow> (10 \<le> c \<and> c \<le> 13) \<or> (28 \<le> c \<and> c \<le> 30) \<or> c = 133 \<or> c = 8232 \<or> c = 8233"

subsection \<open>Prefixes, stripping, joining\<close>

definition py_startswith :: "pystr \<Rightarrow> pystr \<Rightarrow> bool" where
  "py_startswith s p \<longleftrightarrow> take (length p) s = p"

definition py_removeprefix :: "pystr \<Rightarrow> pystr \<Rightarrow> pystr" where
  "py_removeprefix s p = (if py_startswith s p then drop (length p) s else s)"

definition py_lstrip :: "pystr \<Rightarrow> pystr" where
  "py_lstrip s = dropWhile is_space s"

definition py_rstrip :: "pystr \<Rightarrow> pystr" where
  "py_rstrip s = rev (dropWhile is_space (rev s))"

definition py_strip :: "pystr \<Rightarrow> pystr" where
  "py_strip s = py_rstrip (py_lstrip s)"

fun py_join :: "pystr \<Rightarrow> pystr list \<Rightarrow> pystr" where
  "py_join sep [] = []"
| "py_join sep [s] = s"
| "py_join sep (s # t # ss) = s @ sep @ py_join sep (t # ss)"

fun py_contains :: "pystr \<Rightarrow> pystr \<Rightarrow> bool" where
  "py_contains [] sub \<longleftrightarrow> sub = []"
| "py_contains (c # s) sub \<longleftrightarrow> py_startswith (c # s) sub \<or> py_contains s sub"

lemma py_startswith_append [simp]: "py_startswith (p @ s) p"
  by (simp add: py_startswith_def)

lemma py_startswith_iff: "py_startswith s p \<longleftrightarrow> (\<exists>t. s = p @ t)"
  by (auto simp: py_startswith_def) (metis append_take_drop_id)

lemma py_removeprefix_append [simp]: "py_removeprefix (p @ s) p = s"
  by (simp add: py_removeprefix_def)

lemma py_contains_iff: "py_contains s sub \<longleftrightarrow> (\<exists>a b. s = a @ sub @ b)"
proof (induction s)
  case (Cons c s)
  have "(\<exists>a b. c # s = a @ sub @ b) \<longleftrightarrow>
      (\<exists>b. c # s = sub @ b) \<or> (\<exists>a b. s = a @ sub @ b)"
    by (metis append_Cons append_Nil list.inject neq_Nil_conv)
  then show ?case using Cons by (simp add: py_startswith_iff)
qed simp

lemma py_strip_Nil_iff: "py_strip s = [] \<longleftrightarrow> (\<forall>c \<in> set s. is_space c)"
proof -
  have "py_strip s = [] \<longleftrightarrow> (\<forall>c \<in> set (dropWhile is_space s). is_space c)"
    by (simp add: py_strip_def py_rstrip_def py_lstrip_def dropWhile_eq_Nil_conv)
  also have "\<dots> \<longleftrightarrow> (\<forall>c \<in> set s. is_space c)"
    by (metis Un_iff set_append set_takeWhileD takeWhile_dropWhile_id)
  finally show ?thesis .
qed

lemma length_py_join:
  "length (py_join sep ss) = sum_list (map length ss) + (length ss - 1) * length sep"
  by (induction sep ss rule: py_join.induct) auto

lemma py_rstrip_keeps:
  assumes "x \<noteq> []" and "\<not> is_space (last x)"
  shows "py_rstrip (a @ x @ b) = a @ x @ py_rstrip b"
proof (cases "\<forall>c \<in> set b. is_space c")
  case True
  then have "dropWhile is_space (rev b @ rev x @ rev a) = dropWhile is_space (rev x @ rev a)"
    by (intro dropWhile_append2) simp
  moreover have "dropWhile is_space (rev b) = []" using True by simp
  moreover have "dropWhile is_space (rev x @ rev a) = rev x @ rev a"
    using assms by (cases "rev x") (auto simp: last_rev [of "rev x", simplified] dest: arg_cong [of _ _ rev])
  ultimately show ?thesis by (simp add: py_rstrip_def)
next
  case False
  then show ?thesis by (auto simp: py_rstrip_def dropWhile_append1 simp del: rev_append) (simp add: rev_append dropWhile_append1)
qed

lemma py_join_part: "s \<in> set ss \<Longrightarrow> \<exists>a b. py_join sep ss = a @ s @ b"
proof (induction sep ss rule: py_join.induct)
  case (3 sep s' t ss)
  show ?case
  proof (cases "s = s'")
    case True
    then show ?thesis by (intro exI [of _ "[]"] exI [of _ "sep @ py_join sep (t # ss)"]) simp
  next
    case False
    with 3 obtain a b where "py_join sep (t # ss) = a @ s @ b" by auto
    then show ?thesis by (intro exI [of _ "s' @ sep @ a"] exI [of _ b]) simp
  qed
qed (auto intro: exI [of _ "[]"])

subsection \<open>Lines\<close>

text \<open>\<open>s.splitlines(keepends=True)\<close>; the first argument is the current line, reversed.\<close>

fun split_keep :: "pystr \<Rightarrow> pystr \<Rightarrow> pystr list" where
  "split_keep cur [] = (if cur = [] then [] else [rev cur])"
| "split_keep cur [c] = [rev (c # cur)]"
| "split_keep cur (c # d # s) =
     (if c = 13 \<and> d = 10 then rev (d # c # cur) # split_keep [] s
      else if is_linebreak c then rev (c # cur) # split_keep [] (d # s)
      else split_keep (c # cur) (d # s))"

definition splitlines_keep :: "pystr \<Rightarrow> pystr list" where
  "splitlines_keep s = split_keep [] s"

text \<open>A line without its terminator.\<close>

definition chomp :: "pystr \<Rightarrow> pystr" where
  "chomp l = (case rev l of [] \<Rightarrow> []
     | c # r \<Rightarrow> if c = 10 \<and> r \<noteq> [] \<and> hd r = 13 then rev (tl r)
                else if is_linebreak c then rev r else l)"

definition splitlines :: "pystr \<Rightarrow> pystr list" where
  "splitlines s = map chomp (splitlines_keep s)"

lemma concat_split_keep: "concat (split_keep cur s) = rev cur @ s"
  by (induction cur s rule: split_keep.induct) auto

text \<open>Splitting with the line ends kept loses nothing.\<close>

lemma concat_splitlines_keep [simp]: "concat (splitlines_keep s) = s"
  by (simp add: splitlines_keep_def concat_split_keep)

lemma split_keep_nonempty: "l \<in> set (split_keep cur s) \<Longrightarrow> l \<noteq> []"
  by (induction cur s rule: split_keep.induct) (auto split: if_splits)

lemma splitlines_keep_nonempty: "l \<in> set (splitlines_keep s) \<Longrightarrow> l \<noteq> []"
  unfolding splitlines_keep_def by (rule split_keep_nonempty)

lemma splitlines_keep_Nil_iff [simp]: "splitlines_keep s = [] \<longleftrightarrow> s = []"
  by (metis concat.simps(1) concat_splitlines_keep split_keep.simps(1) splitlines_keep_def)

subsection \<open>Decimal rendering\<close>

fun dec_nat :: "nat \<Rightarrow> pystr" where
  "dec_nat n = (if n < 10 then [48 + n] else dec_nat (n div 10) @ [48 + n mod 10])"

declare dec_nat.simps [simp del]

definition dec_int :: "int \<Rightarrow> pystr" where
  "dec_int i = (if i < 0 then 45 # dec_nat (nat (- i)) else dec_nat (nat i))"

fun undec :: "pystr \<Rightarrow> nat" where
  "undec s = foldl (\<lambda>n c. 10 * n + (c - 48)) 0 s"

lemma undec_dec_nat: "undec (dec_nat n) = n"
proof (induction n rule: dec_nat.induct)
  case (1 n)
  show ?case
  proof (cases "n < 10")
    case True
    then show ?thesis by (simp add: dec_nat.simps [of n])
  next
    case False
    with 1 have "undec (dec_nat (n div 10)) = n div 10" by simp
    with False show ?thesis by (simp add: dec_nat.simps [of n])
  qed
qed

lemma dec_nat_inj [simp]: "dec_nat m = dec_nat n \<longleftrightarrow> m = n"
  by (metis undec_dec_nat)

lemma dec_nat_digits: "c \<in> set (dec_nat n) \<Longrightarrow> 48 \<le> c \<and> c \<le> 57"
proof (induction n rule: dec_nat.induct)
  case (1 n)
  then show ?case by (cases "n < 10") (auto simp: dec_nat.simps [of n])
qed

lemma dec_nat_nonempty [simp]: "dec_nat n \<noteq> []"
  by (simp add: dec_nat.simps [of n])

subsection \<open>Splitting and dedenting\<close>

text \<open>\<open>s.split(sep)\<close> for a separator of one character.\<close>

fun split_on :: "nat \<Rightarrow> pystr \<Rightarrow> pystr list" where
  "split_on sep [] = [[]]"
| "split_on sep (c # s) = (case split_on sep s of
     [] \<Rightarrow> [[c]] | p # ps \<Rightarrow> if c = sep then [] # p # ps else (c # p) # ps)"

lemma split_on_nonempty [simp]: "split_on sep s \<noteq> []"
  by (induction s) (auto split: list.split)

lemma join_split: "py_join [sep] (split_on sep s) = s"
proof (induction s)
  case (Cons c s)
  then show ?case
    by (cases "split_on sep s" rule: remdups_adj.cases) (auto split: list.split)
qed simp

lemma split_on_parts: "p \<in> set (split_on sep s) \<Longrightarrow> sep \<notin> set p"
  by (induction s arbitrary: p) (auto split: list.splits if_splits)

lemma split_on_append: "split_on sep (a @ sep # b) = split_on sep a @ split_on sep b"
proof (induction a)
  case Nil
  then show ?case by (cases "split_on sep b") (auto dest: arg_cong [of _ _ length])
next
  case (Cons c a)
  then show ?case by (cases "split_on sep a") (auto split: list.split)
qed

lemma split_on_none: "sep \<notin> set a \<Longrightarrow> split_on sep a = [a]"
  by (induction a) auto

text \<open>\<open>textwrap.dedent\<close>: lines of spaces and tabs are emptied, then the longest margin the other non-empty
  lines share is removed.\<close>

definition is_blank :: "nat \<Rightarrow> bool" where
  "is_blank c \<longleftrightarrow> c = 32 \<or> c = 9"

definition clear_blank :: "pystr \<Rightarrow> pystr" where
  "clear_blank l = (if list_all is_blank l then [] else l)"

definition indent_of :: "pystr \<Rightarrow> pystr" where
  "indent_of l = takeWhile is_blank l"

fun common_prefix :: "pystr \<Rightarrow> pystr \<Rightarrow> pystr" where
  "common_prefix (a # as) (b # bs) = (if a = b then a # common_prefix as bs else [])"
| "common_prefix _ _ = []"

definition margin_of :: "pystr list \<Rightarrow> pystr" where
  "margin_of ls = (case map indent_of (filter (\<lambda>l. l \<noteq> []) ls) of [] \<Rightarrow> [] | i # is \<Rightarrow> foldl common_prefix i is)"

definition py_dedent :: "pystr \<Rightarrow> pystr" where
  "py_dedent s = (let ls = map clear_blank (split_on 10 s); m = margin_of ls
     in py_join [10] (map (\<lambda>l. py_removeprefix l m) ls))"

lemma common_prefix_Nil [simp]: "common_prefix a [] = []"
  by (cases a) simp_all

lemma foldl_common_prefix_Nil [simp]: "foldl common_prefix [] is = []"
  by (induction "is") simp_all

text \<open>One unindented line keeps every margin.\<close>

lemma margin_Nil:
  assumes "l \<in> set ls" "l \<noteq> []" "indent_of l = []"
  shows "margin_of ls = []"
proof -
  have fold: "[] \<in> set is \<Longrightarrow> foldl common_prefix i is = []" for i "is"
    by (induction "is" arbitrary: i) auto
  have "[] \<in> set (map indent_of (filter (\<lambda>l. l \<noteq> []) ls))" using assms by force
  then show ?thesis unfolding margin_of_def
    by (cases "map indent_of (filter (\<lambda>l. l \<noteq> []) ls)") (auto simp: fold)
qed

end
