(* ===== verification/PyFloat.thy ===== *)
theory PyFloat
  imports PyString Complex_Main "HOL-Library.Log_Nat"
begin

text \<open>
  Python's \<open>float\<close>, restricted to finite values: a binary64 number is the rational it denotes, and
  an arithmetic operation is the exact operation followed by \<open>fl\<close>, rounding to the nearest
  binary64 number with ties to even (53 significant bits, least exponent -1074). Overflow,
  infinities and NaN are outside the model: every float the program computes with is a
  confidence, a ratio of small counts, a price or a clock reading. \<open>fmt_fixed\<close> is the
  \<open>.2f\<close> family of format specifiers, which CPython rounds correctly from the exact value.
\<close>

subsection \<open>Rounding to an integer, ties to even\<close>

definition rnd_half_even :: "rat \<Rightarrow> int" where
  "rnd_half_even x =
     (let f = \<lfloor>x\<rfloor>; d = x - of_int f
      in if d < 1 / 2 then f else if 1 / 2 < d then f + 1 else if even f then f else f + 1)"

lemma rnd_half_even_of_int [simp]: "rnd_half_even (of_int n) = n"
  by (simp add: rnd_half_even_def)

lemma rnd_half_even_cases: "rnd_half_even x = \<lfloor>x\<rfloor> \<or> rnd_half_even x = \<lfloor>x\<rfloor> + 1"
  by (simp add: rnd_half_even_def Let_def)

lemma rnd_half_even_error: "\<bar>of_int (rnd_half_even x) - x\<bar> \<le> 1 / 2"
proof -
  have "of_int \<lfloor>x\<rfloor> \<le> x" "x < of_int \<lfloor>x\<rfloor> + 1" by linarith+
  then show ?thesis unfolding rnd_half_even_def Let_def abs_if by (simp split: if_split) linarith
qed

lemma rnd_half_even_mono: "x \<le> y \<Longrightarrow> rnd_half_even x \<le> rnd_half_even y"
proof (cases "\<lfloor>x\<rfloor> = \<lfloor>y\<rfloor>")
  case True
  assume "x \<le> y"
  with True show ?thesis by (auto simp: rnd_half_even_def Let_def)
next
  case False
  assume "x \<le> y"
  then have "\<lfloor>x\<rfloor> \<le> \<lfloor>y\<rfloor>" by (rule floor_mono)
  with False have "\<lfloor>x\<rfloor> + 1 \<le> \<lfloor>y\<rfloor>" by simp
  with rnd_half_even_cases [of x] rnd_half_even_cases [of y] show ?thesis by auto
qed

lemma rnd_half_even_nonneg: "0 \<le> x \<Longrightarrow> 0 \<le> rnd_half_even x"
  using rnd_half_even_mono [of 0 x] rnd_half_even_of_int [of 0] by simp

lemma rnd_half_even_le_of_int: "x \<le> of_int n \<Longrightarrow> rnd_half_even x \<le> n"
  using rnd_half_even_mono [of x "of_int n"] by simp

lemma rnd_half_even_ge_of_int: "of_int n \<le> x \<Longrightarrow> n \<le> rnd_half_even x"
  using rnd_half_even_mono [of "of_int n" x] by simp

text \<open>The same rounding on a numerator and a positive denominator: the form that evaluates.\<close>

definition rnd_div :: "int \<Rightarrow> int \<Rightarrow> int" where
  "rnd_div p q =
     (let d = p div q; r = p mod q
      in if 2 * r < q then d else if q < 2 * r then d + 1 else if even d then d else d + 1)"

lemma rnd_half_even_frac:
  assumes q: "0 < q"
  shows "rnd_half_even (of_int p / of_int q) = rnd_div p q"
proof -
  have fl: "\<lfloor>of_int p / of_int q :: rat\<rfloor> = p div q" by (rule floor_divide_of_int_eq)
  have "(of_int p :: rat) = of_int (p div q) * of_int q + of_int (p mod q)"
    by (metis div_mult_mod_eq of_int_add of_int_mult)
  then have d: "of_int p / of_int q - of_int (p div q) = (of_int (p mod q) / of_int q :: rat)"
    using q by (simp add: field_simps)
  have lt: "of_int (p mod q) / of_int q < (1 / 2 :: rat) \<longleftrightarrow> 2 * (p mod q) < q"
    using q by (simp add: pos_divide_less_eq) linarith
  have gt: "(1 / 2 :: rat) < of_int (p mod q) / of_int q \<longleftrightarrow> q < 2 * (p mod q)"
    using q by (simp add: pos_less_divide_eq) linarith
  show ?thesis by (simp only: rnd_half_even_def rnd_div_def Let_def fl d lt gt)
qed

lemma rnd_half_even_code [code]:
  "rnd_half_even x = (case quotient_of x of (p, q) \<Rightarrow> rnd_div p q)"
  using rnd_half_even_frac quotient_of_div quotient_of_denom_pos
  by (cases "quotient_of x") fastforce

subsection \<open>Binary exponents\<close>

text \<open>\<open>2 powi k\<close> for an integer \<open>k\<close>, as a rational, in a form that evaluates.\<close>

definition pow2 :: "int \<Rightarrow> rat" where
  "pow2 k = (if 0 \<le> k then 2 ^ nat k else 1 / 2 ^ nat (- k))"

lemma pow2_powi: "pow2 k = 2 powi k"
proof (cases "0 \<le> k")
  case False
  then show ?thesis by (simp add: pow2_def power_int_def power_one_over)
qed (simp add: pow2_def power_int_def)

lemma pow2_code [code]: "pow2 k = (if 0 \<le> k then of_int (2 ^ nat k) else Fract 1 (2 ^ nat (- k)))"
  by (simp add: pow2_def Fract_of_int_quotient)

lemma pow2_pos [simp]: "0 < pow2 k"
  by (simp add: pow2_def)

lemma pow2_nonneg [simp]: "0 \<le> pow2 k" and pow2_neq_0 [simp]: "pow2 k \<noteq> 0"
  using pow2_pos [of k] by linarith+

lemma pow2_add: "pow2 (a + b) = pow2 a * pow2 b"
  by (simp add: pow2_powi power_int_add)

lemma pow2_mono: "a \<le> b \<Longrightarrow> pow2 a \<le> pow2 b"
  by (simp add: pow2_powi power_int_increasing)

lemma pow2_strict_mono: "a < b \<Longrightarrow> pow2 a < pow2 b"
  by (simp add: pow2_powi power_int_strict_increasing)

lemma pow2_le_imp: "pow2 a \<le> pow2 b \<Longrightarrow> a \<le> b"
  using pow2_strict_mono [of b a] by linarith

lemma pow2_nat: "pow2 (int n) = 2 ^ n"
  by (simp add: pow2_def)

lemma pow2_less_imp: "pow2 a < pow2 b \<Longrightarrow> a < b"
  using pow2_mono [of b a] by (meson leD leI)

text \<open>The exponent of the leading bit of a positive rational.\<close>

definition ilog2 :: "rat \<Rightarrow> int" where
  "ilog2 x = (case quotient_of x of (p, q) \<Rightarrow>
     let k = int (floorlog 2 (nat p)) - int (floorlog 2 (nat q))
     in if pow2 k \<le> x then k else k - 1)"

lemma ilog2_bounds:
  assumes "0 < x"
  shows "pow2 (ilog2 x) \<le> x" and "x < pow2 (ilog2 x + 1)"
proof -
  obtain p q where pq: "quotient_of x = (p, q)" by (cases "quotient_of x")
  have q: "0 < q" and x: "x = of_int p / of_int q"
    using quotient_of_denom_pos [OF pq] quotient_of_div [OF pq] by auto
  with assms have p: "0 < p" by (simp add: zero_less_divide_iff)
  define a where "a = floorlog 2 (nat p)"
  define b where "b = floorlog 2 (nat q)"
  let ?k = "int a - int b"
  have fa: "2 ^ (a - 1) \<le> nat p" "nat p < 2 ^ a" and fb: "2 ^ (b - 1) \<le> nat q" "nat q < 2 ^ b"
    using floorlog_bounds [of "nat p" 2] floorlog_bounds [of "nat q" 2] p q
    by (simp_all add: a_def b_def)
  have a0: "0 < a" and b0: "0 < b" using fa fb p q by (auto intro: gr0I)
  have A: "pow2 (int a - 1) \<le> of_int p" "of_int p < pow2 (int a)"
  proof -
    have "of_nat (2 ^ (a - 1)) \<le> (of_nat (nat p) :: rat)" "of_nat (nat p) < (of_nat (2 ^ a) :: rat)"
      using fa by (simp_all only: of_nat_le_iff of_nat_less_iff)
    then show "pow2 (int a - 1) \<le> of_int p" "of_int p < pow2 (int a)"
      using p a0 pow2_nat [of "a - 1"] pow2_nat [of a] by (simp_all add: of_nat_diff)
  qed
  have B: "pow2 (int b - 1) \<le> of_int q" "of_int q < pow2 (int b)"
  proof -
    have "of_nat (2 ^ (b - 1)) \<le> (of_nat (nat q) :: rat)" "of_nat (nat q) < (of_nat (2 ^ b) :: rat)"
      using fb by (simp_all only: of_nat_le_iff of_nat_less_iff)
    then show "pow2 (int b - 1) \<le> of_int q" "of_int q < pow2 (int b)"
      using q b0 pow2_nat [of "b - 1"] pow2_nat [of b] by (simp_all add: of_nat_diff)
  qed
  have upper: "x < pow2 (?k + 1)"
  proof -
    have "of_int p < pow2 (?k + 1) * pow2 (int b - 1)"
      using A(2) by (simp flip: pow2_add)
    also have "\<dots> \<le> pow2 (?k + 1) * of_int q"
      using B(1) by (intro mult_left_mono) auto
    finally show ?thesis using q by (simp add: x pos_divide_less_eq)
  qed
  have lower: "pow2 (?k - 1) \<le> x"
  proof -
    have "pow2 (?k - 1) * of_int q \<le> pow2 (?k - 1) * pow2 (int b)"
      using B(2) by (intro mult_left_mono) auto
    also have "\<dots> \<le> of_int p" using A(1) by (simp flip: pow2_add)
    finally show ?thesis using q by (simp add: x pos_le_divide_eq)
  qed
  have e: "ilog2 x = (if pow2 ?k \<le> x then ?k else ?k - 1)"
    by (simp add: ilog2_def pq a_def b_def)
  show "pow2 (ilog2 x) \<le> x" using lower by (simp add: e)
  show "x < pow2 (ilog2 x + 1)" using upper by (simp add: e)
qed

lemma ilog2_mono:
  assumes "0 < x" "x \<le> y"
  shows "ilog2 x \<le> ilog2 y"
proof -
  have "pow2 (ilog2 x) < pow2 (ilog2 y + 1)"
    using ilog2_bounds(1) [of x] ilog2_bounds(2) [of y] assms by linarith
  then show ?thesis using pow2_less_imp [of "ilog2 x" "ilog2 y + 1"] by simp
qed

lemma ilog2_less: "0 < x \<Longrightarrow> x < pow2 k \<Longrightarrow> ilog2 x < k"
  using ilog2_bounds(1) [of x] pow2_less_imp [of "ilog2 x" k] by linarith

lemma ilog2_ge: "pow2 k \<le> x \<Longrightarrow> k \<le> ilog2 x"
proof -
  assume k: "pow2 k \<le> x"
  then have "0 < x" using pow2_pos [of k] by linarith
  then have "pow2 k < pow2 (ilog2 x + 1)" using ilog2_bounds(2) [of x] k by linarith
  then show ?thesis using pow2_less_imp [of k "ilog2 x + 1"] by simp
qed

subsection \<open>Rounding to binary64\<close>

text \<open>\<open>fexp x\<close> is the exponent of the last place of the binade of \<open>x\<close>.\<close>

definition fexp :: "rat \<Rightarrow> int" where
  "fexp x = max (ilog2 \<bar>x\<bar> - 52) (- 1074)"

definition fl :: "rat \<Rightarrow> rat" where
  "fl x = (if x = 0 then 0 else of_int (rnd_half_even (x / pow2 (fexp x))) * pow2 (fexp x))"

lemma fl_code [code]:
  "fl x = (case quotient_of x of (p, q) \<Rightarrow>
     if p = 0 then 0
     else let e = fexp x in
       if 0 \<le> e then of_int (rnd_div p (q * 2 ^ nat e) * 2 ^ nat e)
       else Fract (rnd_div (p * 2 ^ nat (- e)) q) (2 ^ nat (- e)))"
proof -
  obtain p q where pq: "quotient_of x = (p, q)" by (cases "quotient_of x")
  then have q: "0 < q" and x: "x = of_int p / of_int q"
    using quotient_of_denom_pos quotient_of_div by auto
  have up: "x / pow2 e = of_int p / of_int (q * 2 ^ nat e)" if "0 \<le> e" for e
    using that by (simp add: x pow2_def)
  have down: "x / pow2 e = of_int (p * 2 ^ nat (- e)) / of_int q" if "e < 0" for e
    using that by (simp add: x pow2_def)
  have zero: "x = 0 \<longleftrightarrow> p = 0" using q by (simp add: x)
  show ?thesis
  proof (cases "0 \<le> fexp x")
    case True
    then have "fl x = (if x = 0 then 0 else of_int (rnd_div p (q * 2 ^ nat (fexp x))) * pow2 (fexp x))"
      using rnd_half_even_frac [of "q * 2 ^ nat (fexp x)" p] q by (simp only: fl_def up) simp
    with True show ?thesis by (simp add: pq zero pow2_def Let_def)
  next
    case False
    then have "fl x = (if x = 0 then 0 else of_int (rnd_div (p * 2 ^ nat (- fexp x)) q) * pow2 (fexp x))"
      using rnd_half_even_frac [of q "p * 2 ^ nat (- fexp x)"] q by (simp only: fl_def down not_le)
    with False show ?thesis by (simp add: pq zero pow2_def Fract_of_int_quotient Let_def)
  qed
qed

lemma fl_0 [simp]: "fl 0 = 0"
  by (simp add: fl_def)

lemma fl_nonneg: "0 \<le> x \<Longrightarrow> 0 \<le> fl x"
  by (auto simp: fl_def intro!: mult_nonneg_nonneg rnd_half_even_nonneg divide_nonneg_nonneg)

lemma pow2_diff_int: "e \<le> k \<Longrightarrow> pow2 k / pow2 e = of_int (2 ^ nat (k - e))"
  using pow2_add [of "k - e" e] pow2_nat [of "nat (k - e)"] by simp

lemma fl_le_pow2:
  assumes x: "0 < x" "x \<le> pow2 k" and e: "fexp x \<le> k"
  shows "fl x \<le> pow2 k"
proof -
  have "x / pow2 (fexp x) \<le> of_int (2 ^ nat (k - fexp x))"
    using divide_right_mono [OF x(2) pow2_nonneg [of "fexp x"]] by (simp only: pow2_diff_int [OF e])
  then have "rnd_half_even (x / pow2 (fexp x)) \<le> 2 ^ nat (k - fexp x)"
    by (rule rnd_half_even_le_of_int)
  then have "of_int (rnd_half_even (x / pow2 (fexp x))) \<le> (of_int (2 ^ nat (k - fexp x)) :: rat)"
    by (simp only: of_int_le_iff)
  also have "\<dots> = pow2 k / pow2 (fexp x)" using e by (simp only: pow2_diff_int)
  finally show ?thesis using x by (simp add: fl_def pos_le_divide_eq)
qed

lemma fl_ge_pow2:
  assumes x: "0 < x" "pow2 k \<le> x" and e: "fexp x \<le> k"
  shows "pow2 k \<le> fl x"
proof -
  have "of_int (2 ^ nat (k - fexp x)) \<le> x / pow2 (fexp x)"
    using divide_right_mono [OF x(2) pow2_nonneg [of "fexp x"]] by (simp only: pow2_diff_int [OF e])
  then have "2 ^ nat (k - fexp x) \<le> rnd_half_even (x / pow2 (fexp x))"
    by (rule rnd_half_even_ge_of_int)
  then have "(of_int (2 ^ nat (k - fexp x)) :: rat) \<le> of_int (rnd_half_even (x / pow2 (fexp x)))"
    by (simp only: of_int_le_iff)
  then have "pow2 k / pow2 (fexp x) \<le> of_int (rnd_half_even (x / pow2 (fexp x)))"
    using e by (simp only: pow2_diff_int)
  then show ?thesis using x by (simp add: fl_def pos_divide_le_eq)
qed

text \<open>Rounding is monotone: inside a binade because \<open>rnd_half_even\<close> is, across binades because
  a power of two separates the two results.\<close>

lemma fl_mono_pos:
  assumes "0 < x" "x \<le> y"
  shows "fl x \<le> fl y"
proof (cases "fexp x = fexp y")
  case True
  have "rnd_half_even (x / pow2 (fexp y)) \<le> rnd_half_even (y / pow2 (fexp y))"
    using assms by (intro rnd_half_even_mono divide_right_mono) auto
  then show ?thesis using assms True by (simp add: fl_def)
next
  case False
  have "ilog2 x \<le> ilog2 y" using assms by (rule ilog2_mono)
  with False have less: "fexp x < fexp y" and ey: "fexp y = ilog2 y - 52"
    using assms by (auto simp: fexp_def)
  then have "ilog2 x < ilog2 y" using assms by (simp add: fexp_def)
  then have "pow2 (ilog2 x + 1) \<le> pow2 (ilog2 y)" by (intro pow2_mono) simp
  then have "x \<le> pow2 (ilog2 y)" using ilog2_bounds(2) [of x] assms by linarith
  then have "fl x \<le> pow2 (ilog2 y)" using assms less ey by (intro fl_le_pow2) auto
  also have "\<dots> \<le> fl y"
    using assms ilog2_bounds(1) [of y] ey by (intro fl_ge_pow2) auto
  finally show ?thesis .
qed

lemma fl_mono_nonneg: "0 \<le> x \<Longrightarrow> x \<le> y \<Longrightarrow> fl x \<le> fl y"
  using fl_mono_pos [of x y] fl_nonneg [of y] by (cases "x = 0") auto

text \<open>A dyadic rational with at most 53 significant bits is its own rounding.\<close>

lemma fl_exact:
  assumes m: "0 \<le> m" "m \<le> 2 ^ 53" and e0: "- 1074 \<le> e0" and x: "x = of_int m * pow2 e0"
  shows "fl x = x"
proof (cases "m = 0")
  case False
  with m have x0: "0 < x" by (simp add: x)
  have grid: "fl x = x" if "x / pow2 (fexp x) = of_int n" for n
    using that x0 by (simp add: fl_def) (simp add: field_simps)
  show ?thesis
  proof (cases "fexp x \<le> e0")
    case True
    then have "x / pow2 (fexp x) = of_int (m * 2 ^ nat (e0 - fexp x))"
      using pow2_diff_int [OF True] by (simp add: x flip: times_divide_eq_right)
    then show ?thesis by (rule grid)
  next
    case False
    with e0 x0 have e: "fexp x = ilog2 x - 52" by (auto simp: fexp_def)
    have "of_int m \<le> (of_int (2 ^ 53) :: rat)" using m by (simp only: of_int_le_iff)
    also have "\<dots> = pow2 53" by (simp add: pow2_def)
    finally have "x \<le> pow2 53 * pow2 e0" by (simp add: x mult_right_mono)
    then have up: "x \<le> pow2 (53 + e0)" by (simp add: pow2_add)
    have "pow2 (ilog2 x) \<le> pow2 (53 + e0)" using ilog2_bounds(1) [OF x0] up by linarith
    then have "ilog2 x \<le> 53 + e0" by (rule pow2_le_imp)
    with False e have k: "ilog2 x = 53 + e0" by simp
    with ilog2_bounds(1) [OF x0] up have "x = pow2 (53 + e0)" by simp
    then have "x / pow2 (fexp x) = of_int (2 ^ 52)"
      using pow2_diff_int [of "fexp x" "53 + e0"] e k by simp
    then show ?thesis by (rule grid)
  qed
qed (simp add: x)

lemma fl_of_int: "0 \<le> n \<Longrightarrow> n \<le> 2 ^ 53 \<Longrightarrow> fl (of_int n) = of_int n"
  by (rule fl_exact [of n 0]) (simp_all add: pow2_def)

lemma fl_of_nat: "n \<le> 2 ^ 53 \<Longrightarrow> fl (of_nat n) = of_nat n"
  using fl_of_int [of "int n"] by simp

lemma fl_1 [simp]: "fl 1 = 1"
  using fl_of_int [of 1] by simp

lemma fl_unit: "0 \<le> x \<Longrightarrow> x \<le> 1 \<Longrightarrow> 0 \<le> fl x \<and> fl x \<le> 1"
  using fl_mono_nonneg [of x 1] fl_nonneg [of x] by simp

subsection \<open>Rounding is idempotent, so results are representable\<close>

definition is_double :: "rat \<Rightarrow> bool" where
  "is_double x \<longleftrightarrow> fl x = x"

lemma fl_idem:
  assumes "0 \<le> x"
  shows "fl (fl x) = fl x"
proof (cases "x = 0")
  case False
  with assms have x0: "0 < x" by simp
  let ?m = "rnd_half_even (x / pow2 (fexp x))"
  have "x < pow2 (ilog2 x + 1)" by (rule ilog2_bounds(2) [OF x0])
  also have "\<dots> \<le> pow2 (53 + fexp x)" using x0 by (intro pow2_mono) (simp add: fexp_def)
  finally have "x \<le> pow2 53 * pow2 (fexp x)" by (simp add: pow2_add)
  then have "x / pow2 (fexp x) \<le> of_int (2 ^ 53)" by (simp add: pos_divide_le_eq pow2_def [of 53])
  then have "?m \<le> 2 ^ 53" by (rule rnd_half_even_le_of_int)
  moreover have "0 \<le> ?m" using x0 by (intro rnd_half_even_nonneg) simp
  ultimately show ?thesis
    using x0 by (intro fl_exact [of ?m "fexp x"]) (auto simp: fl_def fexp_def)
qed simp

lemma is_double_fl [simp]: "0 \<le> x \<Longrightarrow> is_double (fl x)"
  by (simp add: is_double_def fl_idem)

subsection \<open>The arithmetic the program uses\<close>

definition float_add :: "rat \<Rightarrow> rat \<Rightarrow> rat" where
  "float_add x y = fl (x + y)"

definition float_sub :: "rat \<Rightarrow> rat \<Rightarrow> rat" where
  "float_sub x y = fl (x - y)"

definition float_mul :: "rat \<Rightarrow> rat \<Rightarrow> rat" where
  "float_mul x y = fl (x * y)"

definition float_div :: "rat \<Rightarrow> rat \<Rightarrow> rat" where
  "float_div x y = fl (x / y)"

text \<open>\<open>statistics.fmean\<close>: the correctly rounded sum \<open>math.fsum\<close>, divided by the count. It raises
  on empty data, so it is applied to non-empty lists only.\<close>

definition fmean :: "rat list \<Rightarrow> rat" where
  "fmean xs = float_div (fl (sum_list xs)) (of_nat (length xs))"

lemma sum_list_unit_bounds:
  "\<forall>x \<in> set xs. 0 \<le> x \<and> x \<le> (1 :: rat) \<Longrightarrow> 0 \<le> sum_list xs \<and> sum_list xs \<le> of_nat (length xs)"
  by (induction xs) auto

text \<open>A mean of confidences is a confidence, rounding included.\<close>

lemma fmean_unit:
  assumes u: "\<forall>x \<in> set xs. 0 \<le> x \<and> x \<le> 1" and n: "length xs \<le> 2 ^ 53"
  shows "0 \<le> fmean xs" and "fmean xs \<le> 1"
proof -
  have b: "0 \<le> sum_list xs" "sum_list xs \<le> of_nat (length xs)"
    using sum_list_unit_bounds [OF u] by auto
  then have "fl (sum_list xs) \<le> of_nat (length xs)" and "0 \<le> fl (sum_list xs)"
    using fl_mono_nonneg [OF b] fl_of_nat [OF n] by (auto intro: fl_nonneg)
  then have "0 \<le> fl (sum_list xs) / of_nat (length xs) \<and> fl (sum_list xs) / of_nat (length xs) \<le> 1"
    by (auto intro: divide_nonneg_nonneg divide_le_eq_1 [THEN iffD2] simp: divide_le_eq_1)
  then show "0 \<le> fmean xs" and "fmean xs \<le> 1"
    by (auto simp: fmean_def float_div_def dest: fl_unit)
qed

subsection \<open>Fixed-point formatting\<close>

text \<open>\<open>format(x, '.df')\<close>: the exact value scaled by \<open>10 ^ d\<close>, rounded half to even, with \<open>d\<close>
  digits after the point.\<close>

definition pad_left :: "nat \<Rightarrow> pystr \<Rightarrow> pystr" where
  "pad_left n s = replicate (n - length s) 48 @ s"

definition fmt_fixed :: "nat \<Rightarrow> rat \<Rightarrow> pystr" where
  "fmt_fixed d x =
     (let n = nat (rnd_half_even (\<bar>x\<bar> * 10 ^ d));
          body = dec_nat (n div 10 ^ d) @ (if d = 0 then [] else 46 # pad_left d (dec_nat (n mod 10 ^ d)))
      in if x < 0 then 45 # body else body)"

end
