(* ===== verification/PyEffects.thy ===== *)
theory PyEffects
  imports PyString PyFloat
begin

text \<open>
  Python's effects as explicit state passing. A coroutine that runs in a world of type \<open>'w\<close> is a
  function to an outcome (an exception or a value) and the next world; \<open>bind_io\<close> is sequencing,
  \<open>try_except\<close> and \<open>try_finally\<close> are the statements of those names. \<open>exn\<close> lists the exception
  classes the program raises or tests for, each with the data its message is built from, and
  \<open>OtherError\<close> stands for any further subclass of \<open>Exception\<close>.
\<close>

datatype exn =
    CircuitOpenError pystr
  | TimeoutError pystr
  | OperationTimeout pystr rat
  | JobEnqueueError pystr
  | GitHubError pystr
  | GitHubCircuitOpenError
  | BudgetExceeded rat rat pystr
  | ValueError pystr
  | TypeError pystr
  | KeyError pystr
  | RuntimeError pystr
  | AssertionError
  | HTTPException nat pystr
  | ValidationError pystr
  | FileNotFoundError pystr
  | ConnectionError pystr
  | OSError pystr
  | PostgresConnectionError pystr
  | InterfaceError pystr
  | PostgresError pystr
  | HTTPTransportError pystr
  | OtherError pystr
  | CancelledError
  | SystemExit

text \<open>\<open>asyncio.CancelledError\<close> and \<open>SystemExit\<close> derive from \<open>BaseException\<close> only.\<close>

fun is_Exception :: "exn \<Rightarrow> bool" where
  "is_Exception CancelledError = False"
| "is_Exception SystemExit = False"
| "is_Exception _ = True"

type_synonym ('w, 'a) io = "'w \<Rightarrow> (exn + 'a) \<times> 'w"

definition ret :: "'a \<Rightarrow> ('w, 'a) io" where
  "ret a w = (Inr a, w)"

definition raise :: "exn \<Rightarrow> ('w, 'a) io" where
  "raise e w = (Inl e, w)"

definition bind_io :: "('w, 'a) io \<Rightarrow> ('a \<Rightarrow> ('w, 'b) io) \<Rightarrow> ('w, 'b) io" where
  "bind_io m f w = (case m w of (Inl e, w') \<Rightarrow> (Inl e, w') | (Inr a, w') \<Rightarrow> f a w')"

definition then_io :: "('w, 'a) io \<Rightarrow> ('w, 'b) io \<Rightarrow> ('w, 'b) io" where
  "then_io m k = bind_io m (\<lambda>_. k)"

definition try_except :: "('w, 'a) io \<Rightarrow> (exn \<Rightarrow> bool) \<Rightarrow> (exn \<Rightarrow> ('w, 'a) io) \<Rightarrow> ('w, 'a) io" where
  "try_except m catches h w =
     (case m w of (Inl e, w') \<Rightarrow> if catches e then h e w' else (Inl e, w') | (Inr a, w') \<Rightarrow> (Inr a, w'))"

text \<open>\<open>try: m finally: f\<close>: an exception of the cleanup replaces the outcome.\<close>

definition try_finally :: "('w, 'a) io \<Rightarrow> ('w, unit) io \<Rightarrow> ('w, 'a) io" where
  "try_finally m f w =
     (case m w of (r, w') \<Rightarrow> (case f w' of (Inl e, w'') \<Rightarrow> (Inl e, w'') | (Inr _, w'') \<Rightarrow> (r, w'')))"

definition of_result :: "exn + 'a \<Rightarrow> ('w, 'a) io" where
  "of_result r w = (r, w)"

primrec for_io :: "'a list \<Rightarrow> ('a \<Rightarrow> ('w, unit) io) \<Rightarrow> ('w, unit) io" where
  "for_io [] f = ret ()"
| "for_io (x # xs) f = then_io (f x) (for_io xs f)"

primrec map_io :: "('a \<Rightarrow> ('w, 'b) io) \<Rightarrow> 'a list \<Rightarrow> ('w, 'b list) io" where
  "map_io f [] = ret []"
| "map_io f (x # xs) = bind_io (f x) (\<lambda>y. bind_io (map_io f xs) (\<lambda>ys. ret (y # ys)))"

text \<open>Running an effect on a part of the world.\<close>

definition zoom :: "('w \<Rightarrow> 's) \<Rightarrow> ('s \<Rightarrow> 'w \<Rightarrow> 'w) \<Rightarrow> ('s, 'a) io \<Rightarrow> ('w, 'a) io" where
  "zoom get put m w = (case m (get w) of (r, s) \<Rightarrow> (r, put s w))"

lemmas [io_simps] = ret_def raise_def bind_io_def then_io_def try_except_def try_finally_def
  of_result_def zoom_def

lemma ret_bind [simp]: "bind_io (ret a) f = f a"
  by (simp add: fun_eq_iff io_simps)

lemma bind_ret [simp]: "bind_io m ret = m"
  by (simp add: fun_eq_iff io_simps split: prod.splits sum.splits)

lemma bind_assoc: "bind_io (bind_io m f) g = bind_io m (\<lambda>a. bind_io (f a) g)"
  by (simp add: fun_eq_iff io_simps split: prod.splits sum.splits)

lemma raise_bind [simp]: "bind_io (raise e) f = raise e"
  by (simp add: fun_eq_iff io_simps)

lemma bind_io_Inr_iff:
  "bind_io m f w = (Inr b, w'') \<longleftrightarrow> (\<exists>a w'. m w = (Inr a, w') \<and> f a w' = (Inr b, w''))"
  by (simp add: bind_io_def split: prod.splits sum.splits)

lemma bind_io_Inl_iff:
  "bind_io m f w = (Inl e, w'') \<longleftrightarrow>
     m w = (Inl e, w'') \<or> (\<exists>a w'. m w = (Inr a, w') \<and> f a w' = (Inl e, w''))"
  by (simp add: bind_io_def split: prod.splits sum.splits)

lemma bind_io_step: "m w = (Inr a, w') \<Longrightarrow> bind_io m f w = f a w'"
  by (simp add: bind_io_def)

lemma bind_io_fail: "m w = (Inl e, w') \<Longrightarrow> bind_io m f w = (Inl e, w')"
  by (simp add: bind_io_def)

text \<open>Invariants of a world survive sequencing and loops.\<close>

definition keeps :: "('w \<Rightarrow> bool) \<Rightarrow> ('w, 'a) io \<Rightarrow> bool" where
  "keeps I m \<longleftrightarrow> (\<forall>w. I w \<longrightarrow> I (snd (m w)))"

lemma keepsD: "keeps I m \<Longrightarrow> I w \<Longrightarrow> I (snd (m w))"
  by (simp add: keeps_def)

lemma keeps_ret [intro]: "keeps I (ret a)" and keeps_raise [intro]: "keeps I (raise e)"
  by (simp_all add: keeps_def io_simps)

lemma keeps_bind [intro]:
  assumes m: "keeps I m" and f: "\<And>a. keeps I (f a)"
  shows "keeps I (bind_io m f)"
proof -
  have "I (snd (bind_io m f w))" if w: "I w" for w
  proof (cases "m w")
    case (Pair r w')
    with keepsD [OF m w] have "I w'" by simp
    with Pair show ?thesis using f by (auto simp: bind_io_def keeps_def split: sum.split)
  qed
  then show ?thesis by (simp add: keeps_def)
qed

lemma keeps_then [intro]: "keeps I m \<Longrightarrow> keeps I k \<Longrightarrow> keeps I (then_io m k)"
  unfolding then_io_def by (rule keeps_bind)

lemma keeps_for [intro]: "(\<And>x. x \<in> set xs \<Longrightarrow> keeps I (f x)) \<Longrightarrow> keeps I (for_io xs f)"
  by (induction xs) auto

text \<open>Effects that leave a view of the world alone.\<close>

definition frame :: "('w \<Rightarrow> 'v) \<Rightarrow> ('w, 'a) io \<Rightarrow> bool" where
  "frame p m \<longleftrightarrow> (\<forall>w. p (snd (m w)) = p w)"

lemma frameD: "frame p m \<Longrightarrow> m w = (r, w') \<Longrightarrow> p w' = p w"
  unfolding frame_def by (metis snd_conv)

lemma frame_ret [intro]: "frame p (ret a)" and frame_raise [intro]: "frame p (raise e)"
  and frame_of_result [intro]: "frame p (of_result r)"
  by (simp_all add: frame_def io_simps)

lemma frame_bind [intro]:
  assumes "frame p m" "\<And>a. frame p (f a)"
  shows "frame p (bind_io m f)"
proof -
  have "p (snd (bind_io m f w)) = p w" for w
  proof (cases "m w")
    case (Pair r w')
    then show ?thesis using frameD [OF assms(1) Pair] assms(2)
      by (auto simp: bind_io_def frame_def split: sum.split)
  qed
  then show ?thesis by (simp add: frame_def)
qed

lemma frame_then [intro]: "frame p m \<Longrightarrow> frame p k \<Longrightarrow> frame p (then_io m k)"
  unfolding then_io_def by (rule frame_bind)

lemma frame_map_io [intro]: "(\<And>x. x \<in> set xs \<Longrightarrow> frame p (f x)) \<Longrightarrow> frame p (map_io f xs)"
  by (induction xs) (auto intro!: frame_bind)

end
