(* ===== verification/Reliability.thy ===== *)
theory Reliability
  imports PyEffects
begin

text \<open>
  The package \<open>backend/reliability\<close>: timeout, retry with exponential backoff, the circuit breaker,
  \<open>Guard\<close> (breaker around retry around timeout), and the idempotency helpers.

  A downstream dependency has a state of type \<open>'d\<close>. One attempt of an operation against it is an
  \<open>attempt\<close>: how long it runs, its outcome, the state it leaves when it runs to its end, and the
  state it leaves when it is cancelled at a deadline before that (the effect may or may not have
  reached the dependency by then). \<open>rt\<close> is the process's view: the monotonic clock, the delays
  passed to \<open>asyncio.sleep\<close> so far, and the dependency.
\<close>

record ('d, 'a) attempt =
  dur :: rat
  outcome :: "exn + 'a"
  done_dep :: 'd
  cut_dep :: 'd

type_synonym ('d, 'a) op = "'d \<Rightarrow> ('d, 'a) attempt"

record 'd rt =
  clock :: rat
  slept :: "rat list"
  dep :: 'd

definition await_op :: "('d, 'a) op \<Rightarrow> ('d rt, 'a) io" where
  "await_op f w = (let a = f (dep w) in
     (outcome a, w\<lparr>clock := clock w + dur a, dep := done_dep a\<rparr>))"

definition sleep :: "rat \<Rightarrow> 'd rt \<Rightarrow> 'd rt" where
  "sleep s w = w\<lparr>clock := clock w + s, slept := slept w @ [s]\<rparr>"

subsection \<open>timeout.py\<close>

definition LLM_TIMEOUT_SECONDS :: rat where "LLM_TIMEOUT_SECONDS = 30"
definition GITHUB_TIMEOUT_SECONDS :: rat where "GITHUB_TIMEOUT_SECONDS = 10"
definition DB_COMMAND_TIMEOUT_SECONDS :: rat where "DB_COMMAND_TIMEOUT_SECONDS = 10"
definition REDIS_TIMEOUT_SECONDS :: rat where "REDIS_TIMEOUT_SECONDS = 5"

text \<open>\<open>asyncio.wait_for\<close> cancels the operation at the deadline; a \<open>TimeoutError\<close> of the operation
  itself is caught by the same handler.\<close>

definition with_timeout :: "('d, 'a) op \<Rightarrow> rat \<Rightarrow> pystr \<Rightarrow> ('d rt, 'a) io" where
  "with_timeout f seconds name w =
     (let a = f (dep w) in
      if seconds < dur a
      then (Inl (OperationTimeout name seconds), w\<lparr>clock := clock w + seconds, dep := cut_dep a\<rparr>)
      else ((case outcome a of Inl (TimeoutError _) \<Rightarrow> Inl (OperationTimeout name seconds) | r \<Rightarrow> r),
            w\<lparr>clock := clock w + dur a, dep := done_dep a\<rparr>))"

lemma with_timeout_bound:
  assumes "0 \<le> seconds"
  shows "clock (snd (with_timeout f seconds name w)) \<le> clock w + seconds"
  using assms by (simp add: with_timeout_def Let_def)

lemma with_timeout_slept [simp]: "slept (snd (with_timeout f seconds name w)) = slept w"
  by (simp add: with_timeout_def Let_def)

subsection \<open>retry.py\<close>

definition DEFAULT_ATTEMPTS :: int where "DEFAULT_ATTEMPTS = 3"
definition DEFAULT_BASE_DELAY :: rat where "DEFAULT_BASE_DELAY = fl (1 / 10)"
definition DEFAULT_MAX_DELAY :: rat where "DEFAULT_MAX_DELAY = 5"

text \<open>The loop over \<open>range(attempts)\<close> at iteration \<open>k\<close>; \<open>lexc\<close> is \<open>last_exc\<close>, \<open>delay k\<close> the pause
  after a failed iteration that is not the last one.\<close>

function retry_loop :: "('d rt, 'a) io \<Rightarrow> (exn \<Rightarrow> bool) \<Rightarrow> (nat \<Rightarrow> rat) \<Rightarrow> int \<Rightarrow> nat \<Rightarrow> exn option
    \<Rightarrow> ('d rt, 'a) io" where
  "retry_loop m retry_on delay attempts k lexc w =
     (if int k < attempts then
        (case m w of
           (Inr a, w1) \<Rightarrow> (Inr a, w1)
         | (Inl e, w1) \<Rightarrow>
             if retry_on e then
               retry_loop m retry_on delay attempts (Suc k) (Some e)
                 (if int k < attempts - 1 then sleep (delay k) w1 else w1)
             else (Inl e, w1))
      else (case lexc of None \<Rightarrow> (Inl AssertionError, w) | Some e \<Rightarrow> (Inl e, w)))"
  by pat_completeness auto
termination
  by (relation "measure (\<lambda>(m, retry_on, delay, attempts, k, lexc, w). nat (attempts - int k))") auto

declare retry_loop.simps [simp del]

definition backoff :: "rat \<Rightarrow> rat \<Rightarrow> nat \<Rightarrow> rat" where
  "backoff base_delay max_delay k = min (float_mul base_delay (2 ^ k)) max_delay"

definition retry_async :: "('d rt, 'a) io \<Rightarrow> int \<Rightarrow> rat \<Rightarrow> rat \<Rightarrow> (exn \<Rightarrow> bool) \<Rightarrow> ('d rt, 'a) io" where
  "retry_async m attempts base_delay max_delay retry_on w =
     (if attempts < 1 then (Inl (ValueError (lit ''attempts must be >= 1'')), w)
      else retry_loop m retry_on (backoff base_delay max_delay) attempts 0 None w)"

text \<open>\<open>tries m delay k w\<close>: the world before iteration \<open>k\<close> when all iterations before it failed.\<close>

primrec tries :: "('d rt, 'a) io \<Rightarrow> (nat \<Rightarrow> rat) \<Rightarrow> nat \<Rightarrow> 'd rt \<Rightarrow> 'd rt" where
  "tries m delay 0 w = w"
| "tries m delay (Suc k) w = sleep (delay k) (snd (m (tries m delay k w)))"

definition fails_retryably :: "('d rt, 'a) io \<Rightarrow> (exn \<Rightarrow> bool) \<Rightarrow> 'd rt \<Rightarrow> bool" where
  "fails_retryably m retry_on w = (case fst (m w) of Inl e \<Rightarrow> retry_on e | Inr _ \<Rightarrow> False)"

lemma retry_loop_from:
  assumes "\<forall>i < j. fails_retryably m retry_on (tries m delay i w)"
    and "int j < attempts" and "k \<le> j"
  shows "retry_loop m retry_on delay attempts 0 None w =
     retry_loop m retry_on delay attempts k
       (if k = 0 then None else (case fst (m (tries m delay (k - 1) w)) of Inl e \<Rightarrow> Some e | Inr _ \<Rightarrow> None))
       (tries m delay k w)"
  using \<open>k \<le> j\<close>
proof (induction k)
  case (Suc k)
  let ?v = "tries m delay k w"
  from Suc assms have fail: "fails_retryably m retry_on ?v" by simp
  then obtain e v1 where e: "m ?v = (Inl e, v1)" "retry_on e"
    by (cases "m ?v") (auto simp: fails_retryably_def split: sum.splits)
  have "int k < attempts - 1" "int k < attempts" using Suc.prems assms by auto
  with e show ?case using Suc by (simp add: retry_loop.simps [of m retry_on delay attempts k])
qed simp

text \<open>The whole of the loop in terms of the iterations: the first iteration that does not fail
  retryably, or the last one, decides the outcome, after exactly the backoff pauses before it.\<close>

lemma retry_loop_decided:
  assumes fails: "\<forall>i < j. fails_retryably m retry_on (tries m delay i w)"
    and j: "int j < attempts"
    and stop: "\<not> fails_retryably m retry_on (tries m delay j w) \<or> int j = attempts - 1"
  shows "retry_loop m retry_on delay attempts 0 None w = m (tries m delay j w)"
proof -
  let ?v = "tries m delay j w"
  obtain r v1 where r: "m ?v = (r, v1)" by (cases "m ?v")
  have "retry_loop m retry_on delay attempts j l ?v = m ?v" for l
    using j stop r
    by (auto simp: retry_loop.simps [of m retry_on delay attempts j]
        retry_loop.simps [of m retry_on delay attempts "Suc j"] fails_retryably_def split: sum.split)
  then show ?thesis using retry_loop_from [OF fails j, of j] by simp
qed

lemma retry_loop_exists:
  assumes "1 \<le> attempts"
  obtains j where "\<forall>i < j. fails_retryably m retry_on (tries m delay i w)" "int j < attempts"
    "\<not> fails_retryably m retry_on (tries m delay j w) \<or> int j = attempts - 1"
proof -
  let ?P = "\<lambda>j. \<not> fails_retryably m retry_on (tries m delay j w) \<or> int j = attempts - 1"
  define j where "j = (LEAST j. ?P j)"
  have last: "?P (nat (attempts - 1))" using assms by simp
  have "?P j" unfolding j_def by (rule LeastI [of ?P, OF last])
  moreover have "j \<le> nat (attempts - 1)" unfolding j_def by (rule Least_le [of ?P, OF last])
  moreover have "\<forall>i < j. \<not> ?P i" unfolding j_def using not_less_Least [of _ ?P] by blast
  ultimately show thesis using assms that [of j] by auto
qed

lemma slept_tries:
  assumes "\<And>v. slept (snd (m v)) = slept v"
  shows "slept (tries m delay k w) = slept w @ map delay [0..<k]"
  by (induction k) (simp_all add: sleep_def assms)

lemma clock_tries:
  assumes "\<And>v. clock (snd (m v)) \<le> clock v + t"
  shows "clock (tries m delay k w) \<le> clock w + of_nat k * t + sum_list (map delay [0..<k])"
proof (induction k)
  case (Suc k)
  have "clock (tries m delay (Suc k) w) \<le> clock (tries m delay k w) + t + delay k"
    using assms by (simp add: sleep_def)
  with Suc show ?case by (simp add: algebra_simps)
qed simp

subsection \<open>circuit_breaker.py\<close>

definition DEFAULT_FAILURE_THRESHOLD :: int where "DEFAULT_FAILURE_THRESHOLD = 5"
definition DEFAULT_RESET_AFTER_SECONDS :: rat where "DEFAULT_RESET_AFTER_SECONDS = 30"

record breaker =
  breaker_name :: pystr
  brk_threshold :: int
  reset_after :: rat
  failures :: int
  opened_at :: "rat option"

datatype breaker_state = Closed | HalfOpen | Open

definition make_breaker :: "pystr \<Rightarrow> int \<Rightarrow> rat \<Rightarrow> breaker" where
  "make_breaker name n r =
     \<lparr>breaker_name = name, brk_threshold = n, reset_after = r, failures = 0, opened_at = None\<rparr>"

text \<open>\<open>now\<close> is the reading of \<open>time.monotonic()\<close>.\<close>

definition state_of :: "rat \<Rightarrow> breaker \<Rightarrow> breaker_state" where
  "state_of now b = (case opened_at b of None \<Rightarrow> Closed
     | Some t \<Rightarrow> if reset_after b \<le> float_sub now t then HalfOpen else Open)"

definition before_call :: "rat \<Rightarrow> breaker \<Rightarrow> exn + unit" where
  "before_call now b = (if state_of now b = Open then Inl (CircuitOpenError (breaker_name b)) else Inr ())"

definition on_success :: "breaker \<Rightarrow> breaker" where
  "on_success b = b\<lparr>failures := 0, opened_at := None\<rparr>"

definition on_failure :: "rat \<Rightarrow> breaker \<Rightarrow> breaker" where
  "on_failure now b =
     (let b' = b\<lparr>failures := failures b + 1\<rparr>
      in if brk_threshold b' \<le> failures b' then b'\<lparr>opened_at := Some now\<rparr> else b')"

subsection \<open>The contract of a circuit breaker\<close>

text \<open>
  The program has three breakers: this one, \<open>job_queue/queue.py\<close>'s and
  \<open>integrations/github_client.py\<close>'s. \<open>breaker_contract\<close> is what they share: \<open>view\<close> reads the
  threshold, the cooldown, the number of consecutive failures and the time of the last failure
  that opened the breaker.
\<close>

type_synonym breaker_view = "int \<times> rat \<times> int \<times> rat option"

locale breaker_contract =
  fixes make :: "int \<Rightarrow> rat \<Rightarrow> 'b"
    and allows :: "rat \<Rightarrow> 'b \<Rightarrow> bool"
    and success :: "'b \<Rightarrow> 'b"
    and failure :: "rat \<Rightarrow> 'b \<Rightarrow> 'b"
    and view :: "'b \<Rightarrow> breaker_view"
  assumes view_make: "view (make n r) = (n, r, 0, None)"
    and view_success: "view b = (n, r, k, op) \<Longrightarrow> view (success b) = (n, r, 0, None)"
    and view_failure: "view b = (n, r, k, op) \<Longrightarrow>
      view (failure t b) = (n, r, k + 1, if n \<le> k + 1 then Some t else op)"
    and allows_view: "view b = (n, r, k, op) \<Longrightarrow>
      allows t b \<longleftrightarrow> (case op of None \<Rightarrow> True | Some t0 \<Rightarrow> r \<le> float_sub t t0)"
begin

text \<open>A history of calls that got through: \<open>None\<close> a success, \<open>Some t\<close> a failure at time \<open>t\<close>.\<close>

definition after :: "'b \<Rightarrow> rat option list \<Rightarrow> 'b" where
  "after b h = foldl (\<lambda>b e. case e of None \<Rightarrow> success b | Some t \<Rightarrow> failure t b) b h"

lemma after_Nil [simp]: "after b [] = b"
  by (simp add: after_def)

lemma after_success [simp]: "after b (h @ [None]) = success (after b h)"
  and after_failure [simp]: "after b (h @ [Some t]) = failure t (after b h)"
  by (simp_all add: after_def)

text \<open>The failures since the last success.\<close>

definition run_of :: "rat option list \<Rightarrow> rat option list" where
  "run_of h = takeWhile (\<lambda>e. e \<noteq> None) (rev h)"

lemma run_of_Nil [simp]: "run_of [] = []" and run_of_None [simp]: "run_of (h @ [None]) = []"
  and run_of_Some [simp]: "run_of (h @ [Some t]) = Some t # run_of h"
  by (simp_all add: run_of_def)

lemma view_after:
  assumes "1 \<le> n"
  shows "view (after (make n r) h) =
    (n, r, int (length (run_of h)), if n \<le> int (length (run_of h)) then hd (run_of h) else None)"
proof (induction h rule: rev_induct)
  case Nil
  show ?case using assms by (simp add: view_make)
next
  case (snoc e h)
  show ?case
    using view_success [OF snoc.IH] view_failure [OF snoc.IH] assms
    by (cases e) (auto simp: add.commute)
qed

text \<open>After any history, a call is refused exactly when the last \<open>n\<close> outcomes or more were
  failures and the cooldown since the most recent one has not elapsed.\<close>

lemma refused_iff:
  assumes "1 \<le> n"
  shows "allows now (after (make n r) h) \<longleftrightarrow>
    int (length (run_of h)) < n \<or> r \<le> float_sub now (the (hd (run_of h)))"
proof (cases "n \<le> int (length (run_of h))")
  case True
  with assms have "run_of h \<noteq> []" by auto
  then have "hd (run_of h) \<noteq> None"
    by (metis (mono_tags, lifting) hd_in_set run_of_def set_takeWhileD)
  then show ?thesis using True view_after [OF assms, of r h] allows_view by auto
next
  case False
  then show ?thesis using view_after [OF assms, of r h] allows_view by auto
qed

text \<open>The five checks of \<open>conformance.assert_breaker_contract\<close>, at any times \<open>t1 \<dots>\<close> that are less
  than 999 seconds apart.\<close>

lemma conforms:
  assumes t: "float_sub t2 t1 < 999" "0 \<le> float_sub t3 t1"
  shows "allows t0 (make 2 999) \<and>
    allows t1 (failure t0 (make 2 999)) \<and>
    \<not> allows t2 (failure t1 (failure t0 (make 2 999))) \<and>
    allows t2 (failure t1 (success (failure t0 (make 2 999)))) \<and>
    allows t3 (failure t1 (make 1 0)) \<and>
    allows t4 (success (failure t1 (make 1 0)))"
proof -
  have f1: "view (failure t (make 2 999)) = (2, 999, 1, None)" for t
    using view_failure [OF view_make] by auto
  have f2: "view (failure t (failure u (make 2 999))) = (2, 999, 2, Some t)" for t u
    using view_failure [OF f1] by auto
  have s: "view (failure t (success (failure u (make 2 999)))) = (2, 999, 1, None)" for t u
    using view_failure [OF view_success [OF f1]] by auto
  have g: "view (failure t (make 1 0)) = (1, 0, 1, Some t)" for t
    using view_failure [OF view_make] by auto
  show ?thesis
    using t allows_view [OF view_make] allows_view [OF f1] allows_view [OF f2] allows_view [OF s]
      allows_view [OF g] allows_view [OF view_success [OF g]]
    by auto
qed

end

definition breaker_allows :: "rat \<Rightarrow> breaker \<Rightarrow> bool" where
  "breaker_allows now b \<longleftrightarrow> before_call now b = Inr ()"

definition breaker_view_of :: "breaker \<Rightarrow> breaker_view" where
  "breaker_view_of b = (brk_threshold b, reset_after b, failures b, opened_at b)"

lemma breaker_allows_iff: "breaker_allows now b \<longleftrightarrow> state_of now b \<noteq> Open"
  by (simp add: breaker_allows_def before_call_def)

interpretation rel: breaker_contract "make_breaker name" breaker_allows on_success on_failure breaker_view_of
  for name
  by unfold_locales
    (auto simp: make_breaker_def breaker_allows_iff on_success_def on_failure_def breaker_view_of_def
      state_of_def Let_def split: option.splits)

subsection \<open>guard.py\<close>

record guard_cfg =
  g_attempts :: int
  g_base_delay :: rat
  g_timeout :: "rat option"
  g_retry_on :: "exn \<Rightarrow> bool"

text \<open>The keyword defaults of \<open>Guard.__init__\<close>.\<close>

definition guard_defaults :: guard_cfg where
  "guard_defaults = \<lparr>g_attempts = DEFAULT_ATTEMPTS, g_base_delay = DEFAULT_BASE_DELAY,
     g_timeout = None, g_retry_on = is_Exception\<rparr>"

definition guard_attempt :: "guard_cfg \<Rightarrow> ('d, 'a) op \<Rightarrow> pystr \<Rightarrow> ('d rt, 'a) io" where
  "guard_attempt cfg f name =
     (case g_timeout cfg of None \<Rightarrow> await_op f | Some s \<Rightarrow> with_timeout f s name)"

definition guard_call :: "guard_cfg \<Rightarrow> ('d, 'a) op \<Rightarrow> pystr \<Rightarrow> (breaker option \<times> 'd rt, 'a) io" where
  "guard_call cfg f name bw = (case bw of (bo, w) \<Rightarrow>
     (case (case bo of None \<Rightarrow> Inr () | Some b \<Rightarrow> before_call (clock w) b) of
        Inl e \<Rightarrow> (Inl e, (bo, w))
      | Inr _ \<Rightarrow>
          (case retry_async (guard_attempt cfg f name) (g_attempts cfg) (g_base_delay cfg)
                  DEFAULT_MAX_DELAY (g_retry_on cfg) w of
             (Inl e, w') \<Rightarrow>
               if e = CancelledError then (Inl e, (bo, w'))
               else (Inl e, (map_option (on_failure (clock w')) bo, w'))
           | (Inr a, w') \<Rightarrow> (Inr a, (map_option on_success bo, w')))))"

text \<open>An open breaker fails fast: the dependency is not touched and no time passes.\<close>

lemma guard_open:
  "state_of (clock w) b = Open \<Longrightarrow>
    guard_call cfg f name (Some b, w) = (Inl (CircuitOpenError (breaker_name b)), (Some b, w))"
  by (simp add: guard_call_def before_call_def)

lemma guard_attempt_slept [simp]: "slept (snd (guard_attempt cfg f name w)) = slept w"
  by (simp add: guard_attempt_def await_op_def Let_def split: option.split)

lemma guard_attempt_bound:
  "g_timeout cfg = Some s \<Longrightarrow> 0 \<le> s \<Longrightarrow> clock (snd (guard_attempt cfg f name w)) \<le> clock w + s"
  by (simp add: guard_attempt_def with_timeout_bound)

text \<open>The world a guarded call leaves, whatever its outcome: that of one of its attempts, reached
  through failed attempts and the backoff pauses between them.\<close>

lemma retry_async_decided:
  assumes "1 \<le> attempts"
  obtains j where "int j < attempts"
    "\<forall>i < j. fails_retryably m retry_on (tries m (backoff bd md) i w)"
    "retry_async m attempts bd md retry_on w = m (tries m (backoff bd md) j w)"
proof -
  from retry_loop_exists [OF assms, of m retry_on "backoff bd md" w] obtain j where
    j: "\<forall>i < j. fails_retryably m retry_on (tries m (backoff bd md) i w)" "int j < attempts"
      "\<not> fails_retryably m retry_on (tries m (backoff bd md) j w) \<or> int j = attempts - 1" by blast
  from retry_loop_decided [OF this] assms that j show thesis by (simp add: retry_async_def)
qed

lemma snd_guard_call:
  assumes "state_of (clock w) b \<noteq> Open"
  shows "snd (snd (guard_call cfg f name (Some b, w))) =
    snd (retry_async (guard_attempt cfg f name) (g_attempts cfg) (g_base_delay cfg)
          DEFAULT_MAX_DELAY (g_retry_on cfg) w)"
  using assms by (simp add: guard_call_def before_call_def split: prod.split sum.split)

text \<open>How the breaker sees a call that got through: one success, one failure however many attempts
  it took, or nothing when the task was cancelled.\<close>

lemma guard_breaker:
  assumes b: "state_of (clock w) b \<noteq> Open" and r: "guard_call cfg f name (Some b, w) = (r, (bo', w'))"
  shows "bo' = (case r of Inr _ \<Rightarrow> Some (on_success b)
    | Inl e \<Rightarrow> if e = CancelledError then Some b else Some (on_failure (clock w') b))"
proof (cases "retry_async (guard_attempt cfg f name) (g_attempts cfg) (g_base_delay cfg)
    DEFAULT_MAX_DELAY (g_retry_on cfg) w")
  case (Pair q v)
  then show ?thesis using b r
    by (cases q) (auto simp: guard_call_def before_call_def split: if_splits)
qed

lemma backoff_le_max: "backoff bd md k \<le> md"
  by (simp add: backoff_def)

lemma sum_list_backoff_le:
  "sum_list (map (backoff bd md) [0..<k]) \<le> of_nat k * md"
  by (induction k) (auto simp: algebra_simps intro: add_mono backoff_le_max)

lemma backoff_nonneg: "0 \<le> bd \<Longrightarrow> 0 \<le> md \<Longrightarrow> 0 \<le> backoff bd md k"
  by (auto simp: backoff_def float_mul_def intro!: fl_nonneg)

lemma sum_list_backoff_mono:
  assumes "0 \<le> bd" "0 \<le> md" "i \<le> k"
  shows "sum_list (map (backoff bd md) [0..<i]) \<le> sum_list (map (backoff bd md) [0..<k])"
proof -
  have "[0..<k] = [0..<i] @ [i..<k]" using assms by (metis le_add_diff_inverse upt_add_eq_append zero_le)
  then show ?thesis using backoff_nonneg [OF assms(1,2)] by (auto intro!: sum_list_nonneg)
qed

lemma guard_time_bound_lemma:
  assumes cfg: "g_timeout cfg = Some s" "0 \<le> s" "0 \<le> g_base_delay cfg" "1 \<le> g_attempts cfg"
    and b: "state_of (clock w) b \<noteq> Open"
  shows "clock (snd (snd (guard_call cfg f name (Some b, w)))) \<le>
    clock w + of_int (g_attempts cfg) * s +
      sum_list (map (backoff (g_base_delay cfg) DEFAULT_MAX_DELAY) [0..<nat (g_attempts cfg - 1)])"
proof -
  let ?m = "guard_attempt cfg f name" and ?d = "backoff (g_base_delay cfg) DEFAULT_MAX_DELAY"
  from retry_async_decided [OF cfg(4), of ?m "g_retry_on cfg" "g_base_delay cfg" DEFAULT_MAX_DELAY w]
  obtain j where j: "int j < g_attempts cfg"
    and r: "retry_async ?m (g_attempts cfg) (g_base_delay cfg) DEFAULT_MAX_DELAY (g_retry_on cfg) w
      = ?m (tries ?m ?d j w)" by blast
  have "clock (snd (?m (tries ?m ?d j w))) \<le> clock (tries ?m ?d j w) + s"
    by (rule guard_attempt_bound [OF cfg(1,2)])
  also have "\<dots> \<le> clock w + of_nat (Suc j) * s + sum_list (map ?d [0..<j])"
    using clock_tries [of ?m s ?d j w, OF guard_attempt_bound [OF cfg(1,2)]] by (simp add: algebra_simps)
  also have "\<dots> \<le> clock w + of_int (g_attempts cfg) * s + sum_list (map ?d [0..<nat (g_attempts cfg - 1)])"
  proof (intro add_mono order_refl)
    have "of_int (int (Suc j)) \<le> (of_int (g_attempts cfg) :: rat)"
      using j by (simp only: of_int_le_iff)
    then have "of_nat (Suc j) \<le> (of_int (g_attempts cfg) :: rat)"
      by (simp only: of_int_of_nat_eq)
    then show "of_nat (Suc j) * s \<le> of_int (g_attempts cfg) * s"
      using cfg(2) by (rule mult_right_mono)
    show "sum_list (map ?d [0..<j]) \<le> sum_list (map ?d [0..<nat (g_attempts cfg - 1)])"
      using j cfg by (intro sum_list_backoff_mono) (auto simp: DEFAULT_MAX_DELAY_def)
  qed
  finally show ?thesis by (simp add: snd_guard_call [OF b] r)
qed

subsection \<open>Sequences of guarded calls\<close>

primrec guard_run :: "guard_cfg \<Rightarrow> pystr \<Rightarrow> ('d, 'a) op list \<Rightarrow> breaker option \<times> 'd rt
    \<Rightarrow> (exn + 'a) list \<times> (breaker option \<times> 'd rt)" where
  "guard_run cfg name [] bw = ([], bw)"
| "guard_run cfg name (f # fs) bw =
     (case guard_call cfg f name bw of (r, bw') \<Rightarrow>
       (case guard_run cfg name fs bw' of (rs, bw'') \<Rightarrow> (r # rs, bw'')))"

definition hard_failure :: "exn + 'a \<Rightarrow> bool" where
  "hard_failure r = (case r of Inl e \<Rightarrow> e \<noteq> CancelledError | Inr _ \<Rightarrow> False)"

lemma state_of_closed: "opened_at b = None \<Longrightarrow> state_of t b = Closed"
  by (simp add: state_of_def)

lemma guard_run_failing:
  assumes "guard_run cfg name fs (Some b, w) = (rs, (bo, w'))" and "\<forall>r \<in> set rs. hard_failure r"
    and "opened_at b = None" and "failures b + int (length fs) \<le> brk_threshold b"
  shows "bo = Some (b\<lparr>failures := failures b + int (length fs),
      opened_at := if fs \<noteq> [] \<and> failures b + int (length fs) = brk_threshold b
                   then Some (clock w') else None\<rparr>)"
  using assms
proof (induction fs arbitrary: b w rs)
  case (Cons f fs)
  obtain r bo1 w1 where call: "guard_call cfg f name (Some b, w) = (r, (bo1, w1))"
    by (metis prod_cases3)
  obtain rs1 where rest: "guard_run cfg name fs (bo1, w1) = (rs1, (bo, w'))" and rs: "rs = r # rs1"
    using Cons.prems(1) call by (auto split: prod.splits)
  have "hard_failure r" using Cons.prems(2) rs by simp
  then have bo1: "bo1 = Some (on_failure (clock w1) b)"
    using guard_breaker [OF _ call] Cons.prems(3)
    by (auto simp: state_of_closed hard_failure_def split: sum.splits)
  show ?case
  proof (cases fs)
    case Nil
    with rest bo1 Cons.prems show ?thesis
      by (auto simp: on_failure_def Let_def)
  next
    case (Cons g gs)
    let ?b = "on_failure (clock w1) b"
    have b: "?b = b\<lparr>failures := failures b + 1\<rparr>"
      using Cons.prems(4) Cons by (simp add: on_failure_def)
    have "bo = Some (?b\<lparr>failures := failures ?b + int (length fs),
        opened_at := if fs \<noteq> [] \<and> failures ?b + int (length fs) = brk_threshold ?b
                     then Some (clock w') else None\<rparr>)"
      using Cons.prems b rs rest bo1 by (intro Cons.IH [of ?b w1 rs1]) simp_all
    with b Cons show ?thesis by (simp add: algebra_simps)
  qed
next
  case Nil
  then show ?case by (cases b) simp
qed

subsection \<open>A concrete dependency, for evaluation\<close>

text \<open>A dependency that counts its attempts: down for good, or down for the first attempt only.\<close>

definition refused_op :: "(nat, nat) op" where
  "refused_op n = \<lparr>dur = 1, outcome = Inl (ConnectionError (lit ''down'')), done_dep = Suc n, cut_dep = n\<rparr>"

definition flaky_op :: "(nat, nat) op" where
  "flaky_op n = \<lparr>dur = 1, outcome = (if n = 0 then Inl (ConnectionError (lit ''down'')) else Inr n),
     done_dep = Suc n, cut_dep = n\<rparr>"

definition sample_cfg :: guard_cfg where
  "sample_cfg = \<lparr>g_attempts = 2, g_base_delay = 1 / 4, g_timeout = Some 5, g_retry_on = is_Exception\<rparr>"

definition sample_world :: "nat rt" where
  "sample_world = \<lparr>clock = 0, slept = [], dep = 0\<rparr>"

lemma refused_run:
  "guard_run sample_cfg (lit ''op'') [refused_op] (Some (make_breaker (lit ''db'') 1 30), sample_world)
  = ([Inl (ConnectionError (lit ''down''))],
     (Some ((make_breaker (lit ''db'') 1 30)\<lparr>failures := 1, opened_at := Some (9 / 4)\<rparr>),
      \<lparr>clock = 9 / 4, slept = [1 / 4], dep = 2\<rparr>))"
  by code_simp

text \<open>C27. The breaker of a \<open>Guard\<close> trips after as many consecutive failed calls as its threshold, and
  from then until the cooldown has elapsed every call raises \<open>CircuitOpenError\<close> at once: the
  dependency is not touched, no time passes, and the breaker is unchanged.\<close>

theorem guard_trips_then_fails_fast:
  assumes run: "guard_run cfg name fs (Some (make_breaker bn (int (length fs)) r), w) = (rs, (bo, w'))"
    and fail: "\<forall>x \<in> set rs. hard_failure x" and n: "fs \<noteq> []"
    and within: "float_sub (clock v) (clock w') < r"
  shows "guard_call cfg g name' (bo, v) = (Inl (CircuitOpenError bn), (bo, v))"
proof -
  let ?b = "make_breaker bn (int (length fs)) r"
  have "bo = Some (?b\<lparr>failures := int (length fs), opened_at := Some (clock w')\<rparr>)"
    using guard_run_failing [OF run fail] n by (simp add: make_breaker_def)
  then show ?thesis
    using within guard_open [of v "?b\<lparr>failures := int (length fs), opened_at := Some (clock w')\<rparr>"]
    by (simp add: state_of_def make_breaker_def)
qed

theorem guard_trips_then_fails_fast_witness:
  "guard_call sample_cfg flaky_op (lit ''op'')
      (Some ((make_breaker (lit ''db'') 1 30)\<lparr>failures := 1, opened_at := Some (9 / 4)\<rparr>), sample_world\<lparr>clock := 13 / 4\<rparr>)
    = (Inl (CircuitOpenError (lit ''db'')),
       (Some ((make_breaker (lit ''db'') 1 30)\<lparr>failures := 1, opened_at := Some (9 / 4)\<rparr>), sample_world\<lparr>clock := 13 / 4\<rparr>))"
proof (rule guard_trips_then_fails_fast [where fs = "[refused_op]"])
  show "guard_run sample_cfg (lit ''op'') [refused_op]
      (Some (make_breaker (lit ''db'') (int (length [refused_op])) 30), sample_world)
    = ([Inl (ConnectionError (lit ''down''))],
     (Some ((make_breaker (lit ''db'') 1 30)\<lparr>failures := 1, opened_at := Some (9 / 4)\<rparr>),
      \<lparr>clock = 9 / 4, slept = [1 / 4], dep = 2\<rparr>))"
    using refused_run by simp
qed (simp_all add: hard_failure_def float_sub_def)

text \<open>C15. What a \<open>Guard\<close> that lets a call through does: the attempts before some attempt \<open>j\<close> fail with
  a retryable exception, attempt \<open>j\<close> succeeds, fails with another exception or is the last one
  allowed, and its outcome and its effect on the dependency are those of the call; the pauses are
  exactly the exponential backoff before attempts \<open>1 \<dots> j\<close>.\<close>

theorem guard_retry_spec:
  assumes "1 \<le> g_attempts cfg" and b: "state_of (clock w) b \<noteq> Open"
  shows "\<exists>j. let m = guard_attempt cfg f name; d = backoff (g_base_delay cfg) DEFAULT_MAX_DELAY;
               v = tries m d j w; res = guard_call cfg f name (Some b, w)
      in int j < g_attempts cfg
       \<and> (\<forall>i < j. fails_retryably m (g_retry_on cfg) (tries m d i w))
       \<and> (fails_retryably m (g_retry_on cfg) v \<longrightarrow> int j = g_attempts cfg - 1)
       \<and> fst res = fst (m v) \<and> snd (snd res) = snd (m v)
       \<and> slept (snd (snd res)) = slept w @ map d [0..<j]"
proof -
  let ?m = "guard_attempt cfg f name" and ?d = "backoff (g_base_delay cfg) DEFAULT_MAX_DELAY"
  from retry_loop_exists [OF assms(1), of ?m "g_retry_on cfg" ?d w] obtain j where
    j: "\<forall>i < j. fails_retryably ?m (g_retry_on cfg) (tries ?m ?d i w)" "int j < g_attempts cfg"
      "\<not> fails_retryably ?m (g_retry_on cfg) (tries ?m ?d j w) \<or> int j = g_attempts cfg - 1" by blast
  have eq: "retry_async ?m (g_attempts cfg) (g_base_delay cfg) DEFAULT_MAX_DELAY (g_retry_on cfg) w
      = ?m (tries ?m ?d j w)"
    using retry_loop_decided [OF j] assms(1) by (simp add: retry_async_def)
  have "fst (guard_call cfg f name (Some b, w)) = fst (?m (tries ?m ?d j w))"
    using b by (simp add: guard_call_def before_call_def eq split: prod.split sum.split)
  moreover have "snd (snd (guard_call cfg f name (Some b, w))) = snd (?m (tries ?m ?d j w))"
    by (simp add: snd_guard_call [OF b] eq)
  ultimately show ?thesis
    using j slept_tries [of ?m ?d j w] by (intro exI [of _ j]) (auto simp: Let_def)
qed

theorem guard_retry_spec_witness:
  "\<exists>j. let m = guard_attempt sample_cfg flaky_op (lit ''op'');
           d = backoff (g_base_delay sample_cfg) DEFAULT_MAX_DELAY;
           v = tries m d j sample_world;
           res = guard_call sample_cfg flaky_op (lit ''op'') (Some (make_breaker (lit ''db'') 1 30), sample_world)
      in int j < g_attempts sample_cfg
       \<and> (\<forall>i < j. fails_retryably m (g_retry_on sample_cfg) (tries m d i sample_world))
       \<and> (fails_retryably m (g_retry_on sample_cfg) v \<longrightarrow> int j = g_attempts sample_cfg - 1)
       \<and> fst res = fst (m v) \<and> snd (snd res) = snd (m v)
       \<and> slept (snd (snd res)) = slept sample_world @ map d [0..<j]"
  by (rule guard_retry_spec) (simp_all add: sample_cfg_def state_of_def make_breaker_def)

text \<open>C28. A guarded call with a per-attempt timeout returns within the attempts' timeouts plus the
  backoff pauses between them, whatever the dependency does.\<close>

theorem guard_time_bound:
  assumes "g_timeout cfg = Some s" "0 \<le> s" "0 \<le> g_base_delay cfg" "1 \<le> g_attempts cfg"
  shows "clock (snd (snd (guard_call cfg f name (Some b, w)))) \<le>
    clock w + of_int (g_attempts cfg) * s +
      sum_list (map (backoff (g_base_delay cfg) DEFAULT_MAX_DELAY) [0..<nat (g_attempts cfg - 1)])"
proof (cases "state_of (clock w) b = Open")
  case True
  have "0 \<le> of_int (g_attempts cfg) * s + sum_list (map (backoff (g_base_delay cfg) DEFAULT_MAX_DELAY)
      [0..<nat (g_attempts cfg - 1)])"
    using assms by (auto intro!: add_nonneg_nonneg mult_nonneg_nonneg sum_list_nonneg backoff_nonneg
        simp: DEFAULT_MAX_DELAY_def)
  with True show ?thesis by (simp add: guard_open)
next
  case False
  with assms show ?thesis by (rule guard_time_bound_lemma)
qed

theorem guard_time_bound_witness:
  "clock (snd (snd (guard_call sample_cfg refused_op (lit ''op'') (Some (make_breaker (lit ''db'') 1 30), sample_world))))
    \<le> clock sample_world + of_int (g_attempts sample_cfg) * 5 +
      sum_list (map (backoff (g_base_delay sample_cfg) DEFAULT_MAX_DELAY) [0..<nat (g_attempts sample_cfg - 1)])"
  by (rule guard_time_bound) (simp_all add: sample_cfg_def)

subsection \<open>idempotency.py\<close>

text \<open>\<open>fingerprint\<close> of the \<open>repr\<close>s of its parts; \<open>sha\<close> is \<open>sha256(_.encode()).hexdigest()\<close>.\<close>

definition fingerprint :: "(pystr \<Rightarrow> pystr) \<Rightarrow> pystr list \<Rightarrow> pystr" where
  "fingerprint sha reprs = sha (py_join [31] reprs)"

type_synonym once_guard = "pystr set"

definition once_init :: once_guard where "once_init = {}"

definition first_time :: "pystr \<Rightarrow> once_guard \<Rightarrow> bool \<times> once_guard" where
  "first_time key seen = (if key \<in> seen then (False, seen) else (True, insert key seen))"

definition once_reset :: "once_guard \<Rightarrow> once_guard" where "once_reset seen = {}"

primrec first_times :: "pystr list \<Rightarrow> once_guard \<Rightarrow> bool list \<times> once_guard" where
  "first_times [] seen = ([], seen)"
| "first_times (k # ks) seen =
     (case first_time k seen of (r, seen') \<Rightarrow> (case first_times ks seen' of (rs, s) \<Rightarrow> (r # rs, s)))"

lemma fst_first_times_Cons:
  "fst (first_times (k # ks) seen) = fst (first_time k seen) # fst (first_times ks (snd (first_time k seen)))"
  by (simp split: prod.splits)

lemma first_times_from:
  "i < length ks \<Longrightarrow> fst (first_times ks seen) ! i \<longleftrightarrow> ks ! i \<notin> seen \<and> ks ! i \<notin> set (take i ks)"
proof (induction ks arbitrary: seen i)
  case (Cons k ks)
  then show ?case
    by (cases i) (auto simp: first_time_def fst_first_times_Cons simp del: first_times.simps)
qed simp

lemma first_times_once:
  "i < length ks \<Longrightarrow> fst (first_times ks once_init) ! i \<longleftrightarrow> ks ! i \<notin> set (take i ks)"
  by (simp add: first_times_from once_init_def)

text \<open>\<open>repr\<close> escapes the separator, so joining is injective on the parts' \<open>repr\<close>s.\<close>

lemma append_sep_inj:
  assumes "c \<notin> set a" "c \<notin> set b" "a @ c # s = b @ c # t"
  shows "a = b \<and> s = t"
proof -
  have "takeWhile (\<lambda>x. x \<noteq> c) (a @ c # s) = a" "takeWhile (\<lambda>x. x \<noteq> c) (b @ c # t) = b"
    using assms(1,2) by (auto simp: takeWhile_append)
  with assms(3) show ?thesis by simp
qed

lemma py_join_sep_inj:
  assumes "\<forall>s \<in> set xs. s \<noteq> [] \<and> c \<notin> set s" "\<forall>s \<in> set ys. s \<noteq> [] \<and> c \<notin> set s"
    and "py_join [c] xs = py_join [c] ys"
  shows "xs = ys"
  using assms
proof (induction xs arbitrary: ys)
  case Nil
  then show ?case by (cases ys rule: remdups_adj.cases) auto
next
  case (Cons x xs)
  note prems = Cons.prems and IH = Cons.IH
  show ?case
  proof (cases ys)
    case Nil
    with prems show ?thesis by (cases xs) auto
  next
    case (Cons y ys')
    show ?thesis
    proof (cases "xs = [] \<or> ys' = []")
      case True
      with prems Cons show ?thesis by (cases xs; cases ys') auto
    next
      case False
      then obtain u us v vs where e: "xs = u # us" "ys' = v # vs" by (meson neq_Nil_conv)
      with prems Cons have "x = y \<and> py_join [c] xs = py_join [c] ys'"
        using append_sep_inj [of c x y "py_join [c] xs" "py_join [c] ys'"] by simp
      with IH [of ys'] prems Cons show ?thesis by simp
    qed
  qed
qed

lemma fingerprint_inj:
  assumes "\<forall>s \<in> set xs \<union> set ys. s \<noteq> [] \<and> 31 \<notin> set s" and "inj sha"
    and "fingerprint sha xs = fingerprint sha ys"
  shows "xs = ys"
  using assms py_join_sep_inj [of xs 31 ys] by (auto simp: fingerprint_def inj_eq)

end
