(* ===== verification/FaultModel.thy ===== *)
theory FaultModel
  imports Reliability
begin

text \<open>
  A remote store behind an unreliable connection. A statement is an atomic step on the store; each
  attempt to run it takes one entry off a fault script, which says how long the attempt lasts,
  whether the client sees an exception instead of the result, and whether the statement reached
  the store all the same (a lost reply). An empty script is a fault-free connection. Theorems over
  all scripts cover every pattern of outages, lost replies and timeouts.
\<close>

record fault =
  ft_dur :: rat
  ft_exn :: "exn option"
  ft_applied :: bool

record 'db remote =
  script :: "fault list"
  store :: 'db

type_synonym ('db, 'a) stmt = "'db \<Rightarrow> (exn + 'a) \<times> 'db"

definition remote_op :: "('db, 'a) stmt \<Rightarrow> ('db remote, 'a) op" where
  "remote_op stmt d = (case stmt (store d) of (r, s') \<Rightarrow>
     (case script d of
        [] \<Rightarrow> \<lparr>dur = 0, outcome = r, done_dep = d\<lparr>store := s'\<rparr>, cut_dep = d\<lparr>store := s'\<rparr>\<rparr>
      | ft # fts \<Rightarrow>
          \<lparr>dur = ft_dur ft,
           outcome = (case ft_exn ft of None \<Rightarrow> r | Some e \<Rightarrow> Inl e),
           done_dep = d\<lparr>script := fts, store := if ft_exn ft = None \<or> ft_applied ft then s' else store d\<rparr>,
           cut_dep = d\<lparr>script := fts, store := if ft_applied ft then s' else store d\<rparr>\<rparr>))"

text \<open>A statement is atomic when a failing one leaves the store alone, and idempotent when running
  it again gives the same result and the same store.\<close>

definition atomic_stmt :: "('db, 'a) stmt \<Rightarrow> bool" where
  "atomic_stmt stmt \<longleftrightarrow> (\<forall>s e s'. stmt s = (Inl e, s') \<longrightarrow> s' = s)"

definition idempotent_stmt :: "('db, 'a) stmt \<Rightarrow> bool" where
  "idempotent_stmt stmt \<longleftrightarrow> (\<forall>s r s'. stmt s = (r, s') \<longrightarrow> stmt s' = (r, s'))"

lemma remote_attempt:
  assumes "guard_attempt cfg (remote_op stmt) name w = (r, w')"
  shows "store (dep w') = store (dep w) \<or> store (dep w') = snd (stmt (store (dep w)))"
    and "r = Inr a \<Longrightarrow> stmt (store (dep w)) = (Inr a, store (dep w'))"
  using assms
  by (auto simp: guard_attempt_def await_op_def with_timeout_def remote_op_def Let_def
      split: option.splits prod.splits list.splits if_splits sum.splits exn.splits)

text \<open>Before every attempt, the store is the original one or the one a single run leaves.\<close>

lemma remote_tries_store:
  assumes idem: "idempotent_stmt stmt"
  shows "store (dep (tries (guard_attempt cfg (remote_op stmt) name) d k w))
    \<in> {store (dep w), snd (stmt (store (dep w)))}"
proof (induction k)
  case (Suc k)
  let ?m = "guard_attempt cfg (remote_op stmt) name"
  obtain r v where v: "?m (tries ?m d k w) = (r, v)" by (cases "?m (tries ?m d k w)")
  have "snd (stmt (snd (stmt (store (dep w))))) = snd (stmt (store (dep w)))"
    using idem by (metis idempotent_stmt_def prod.collapse snd_conv)
  with Suc remote_attempt(1) [OF v] show ?case by (auto simp: sleep_def v)
qed simp

lemma retry_remote:
  assumes idem: "idempotent_stmt stmt" and n: "1 \<le> attempts"
    and r: "retry_async (guard_attempt cfg (remote_op stmt) name) attempts bd md retry_on w = (r, w')"
  shows "store (dep w') \<in> {store (dep w), snd (stmt (store (dep w)))}"
    and "r = Inr a \<Longrightarrow> stmt (store (dep w)) = (Inr a, store (dep w'))"
proof -
  let ?m = "guard_attempt cfg (remote_op stmt) name"
  obtain j where j: "?m (tries ?m (backoff bd md) j w) = (r, w')"
    using retry_async_decided [OF n, of ?m retry_on bd md w] r by metis
  let ?v = "tries ?m (backoff bd md) j w"
  have twice: "stmt (snd (stmt (store (dep w)))) = stmt (store (dep w))"
    using idem by (metis idempotent_stmt_def prod.collapse)
  have v: "store (dep ?v) \<in> {store (dep w), snd (stmt (store (dep w)))}"
    by (rule remote_tries_store [OF idem])
  with remote_attempt(1) [OF j] twice
  show "store (dep w') \<in> {store (dep w), snd (stmt (store (dep w)))}" by auto
  show "stmt (store (dep w)) = (Inr a, store (dep w'))" if "r = Inr a"
    using v remote_attempt(2) [OF j that] twice by auto
qed

text \<open>A guarded idempotent statement runs at most once in effect, and exactly once when the call
  returns: whatever the faults, the store is the old one or the one a single fault-free run
  leaves, and a returned value is the one that run returns.\<close>

lemma guard_remote_idempotent:
  assumes idem: "idempotent_stmt stmt" and n: "1 \<le> g_attempts cfg"
    and r: "guard_call cfg (remote_op stmt) name (bo, w) = (r, (bo', w'))"
  shows "store (dep w') \<in> {store (dep w), snd (stmt (store (dep w)))}"
    and "r = Inr a \<Longrightarrow> stmt (store (dep w)) = (Inr a, store (dep w'))"
proof -
  obtain q v where q: "retry_async (guard_attempt cfg (remote_op stmt) name) (g_attempts cfg)
      (g_base_delay cfg) DEFAULT_MAX_DELAY (g_retry_on cfg) w = (q, v)"
    by (metis surj_pair)
  show "store (dep w') \<in> {store (dep w), snd (stmt (store (dep w)))}"
    using r q retry_remote(1) [OF idem n q]
    by (auto simp: guard_call_def split: option.splits sum.splits if_splits)
  show "stmt (store (dep w)) = (Inr a, store (dep w'))" if "r = Inr a"
    using r q that retry_remote(2) [OF idem n q, of a]
    by (auto simp: guard_call_def split: option.splits sum.splits if_splits)
qed

end
