(* ===== verification/JobQueue.thy ===== *)
theory JobQueue
  imports FaultModel
begin

text \<open>
  \<open>job_queue/queue.py\<close> with the job schemas of \<open>api/schemas.py\<close>: its own circuit breaker and retry,
  the dedup claim on a delivery id, and the enqueue methods. Redis is a store of claims with their
  expiry and of jobs, behind the unreliable connection of \<open>FaultModel\<close>; \<open>SET NX EX\<close> and \<open>DEL\<close> are Redis
  commands, and \<open>arq\<close>'s \<open>enqueue_job\<close> is a parameter.
\<close>

record review_job =
  rj_delivery :: pystr
  rj_repo :: pystr
  rj_pr :: int
  rj_action :: pystr

record index_job =
  ij_delivery :: pystr
  ij_repo :: pystr

record reindex_job =
  xj_delivery :: pystr
  xj_repo :: pystr
  xj_before :: pystr
  xj_after :: pystr
  xj_added :: "pystr list"
  xj_modified :: "pystr list"
  xj_removed :: "pystr list"

datatype job = RunReview review_job | IndexRepo index_job | ReindexRepo reindex_job

subsection \<open>The breaker\<close>

record jq_breaker =
  jb_threshold :: int
  jb_reset_after :: rat
  jb_failures :: int
  jb_opened_at :: "rat option"

definition JQ_FAILURE_THRESHOLD :: int where "JQ_FAILURE_THRESHOLD = 3"
definition JQ_RESET_AFTER :: rat where "JQ_RESET_AFTER = 30"
definition JQ_ATTEMPTS :: int where "JQ_ATTEMPTS = 3"
definition JQ_BASE_DELAY :: rat where "JQ_BASE_DELAY = fl (1 / 10)"
definition DEDUP_TTL :: rat where "DEDUP_TTL = 24 * 60 * 60"

definition jq_make :: "int \<Rightarrow> rat \<Rightarrow> jq_breaker" where
  "jq_make n r = \<lparr>jb_threshold = n, jb_reset_after = r, jb_failures = 0, jb_opened_at = None\<rparr>"

definition jq_open_error :: exn where
  "jq_open_error = CircuitOpenError
     (lit ''job queue circuit breaker is open '' @ [8212] @ lit '' redis unavailable'')"

definition jq_before_call :: "rat \<Rightarrow> jq_breaker \<Rightarrow> exn + unit" where
  "jq_before_call now b = (case jb_opened_at b of None \<Rightarrow> Inr ()
     | Some t \<Rightarrow> if jb_reset_after b \<le> float_sub now t then Inr () else Inl jq_open_error)"

definition jq_on_success :: "jq_breaker \<Rightarrow> jq_breaker" where
  "jq_on_success b = b\<lparr>jb_failures := 0, jb_opened_at := None\<rparr>"

definition jq_on_failure :: "rat \<Rightarrow> jq_breaker \<Rightarrow> jq_breaker" where
  "jq_on_failure now b =
     (let b' = b\<lparr>jb_failures := jb_failures b + 1\<rparr>
      in if jb_threshold b' \<le> jb_failures b' then b'\<lparr>jb_opened_at := Some now\<rparr> else b')"

definition jq_allows :: "rat \<Rightarrow> jq_breaker \<Rightarrow> bool" where
  "jq_allows now b \<longleftrightarrow> jq_before_call now b = Inr ()"

definition jq_view :: "jq_breaker \<Rightarrow> breaker_view" where
  "jq_view b = (jb_threshold b, jb_reset_after b, jb_failures b, jb_opened_at b)"

interpretation jq: breaker_contract jq_make jq_allows jq_on_success jq_on_failure jq_view
  by unfold_locales
    (auto simp: jq_make_def jq_allows_def jq_before_call_def jq_on_success_def jq_on_failure_def jq_view_def
      Let_def split: option.splits)

subsection \<open>_with_retry and _guarded\<close>

definition with_retry :: "('d rt, 'a) io \<Rightarrow> int \<Rightarrow> rat \<Rightarrow> ('d rt, 'a) io" where
  "with_retry m attempts base_delay w =
     retry_loop m is_Exception (\<lambda>k. float_mul base_delay (2 ^ k)) attempts 0 None w"

type_synonym 'd jq = "jq_breaker \<times> 'd rt"

definition jq_guarded :: "('d, 'a) op \<Rightarrow> ('d jq, 'a) io" where
  "jq_guarded f q = (case q of (b, w) \<Rightarrow>
     (case jq_before_call (clock w) b of Inl e \<Rightarrow> (Inl e, (b, w))
      | Inr _ \<Rightarrow> (case with_retry (await_op f) JQ_ATTEMPTS JQ_BASE_DELAY w of
          (Inl e, w') \<Rightarrow> (Inl e, (if is_Exception e then jq_on_failure (clock w') b else b, w'))
        | (Inr a, w') \<Rightarrow> (Inr a, (jq_on_success b, w')))))"

subsection \<open>Redis\<close>

record redis =
  rd_now :: rat
  rd_claims :: "(pystr \<times> rat) list"
  rd_jobs :: "job list"

type_synonym rq = "redis remote jq"

abbreviation jq_redis :: "rq \<Rightarrow> redis" where
  "jq_redis q \<equiv> store (dep (snd q))"

text \<open>A claim holds until its expiry.\<close>

definition claimed :: "redis \<Rightarrow> pystr \<Rightarrow> bool" where
  "claimed r k \<longleftrightarrow> (case map_of (rd_claims r) k of None \<Rightarrow> False | Some t \<Rightarrow> rd_now r < t)"

definition set_nx_ex :: "pystr \<Rightarrow> rat \<Rightarrow> (redis, bool option) stmt" where
  "set_nx_ex k ttl r = (if claimed r k then (Inr None, r)
     else (Inr (Some True), r\<lparr>rd_claims := (k, rd_now r + ttl) # rd_claims r\<rparr>))"

definition redis_delete :: "pystr \<Rightarrow> (redis, unit) stmt" where
  "redis_delete k r = (Inr (), r\<lparr>rd_claims := filter (\<lambda>(k', t). k' \<noteq> k) (rd_claims r)\<rparr>)"

definition delivery_key :: "pystr \<Rightarrow> pystr" where
  "delivery_key d = lit ''webhook:delivery:'' @ d"

subsection \<open>The methods\<close>

definition mark_seen :: "pystr \<Rightarrow> (rq, bool) io" where
  "mark_seen d = bind_io (jq_guarded (remote_op (set_nx_ex (delivery_key d) DEDUP_TTL)))
     (\<lambda>r. ret (r = Some True))"

definition unclaim :: "pystr \<Rightarrow> (rq, unit) io" where
  "unclaim d = jq_guarded (remote_op (redis_delete (delivery_key d)))"

text \<open>\<open>arq job\<close> is \<open>enqueue_job\<close>: the id of the new job, or none when it was queued already.\<close>

type_synonym arq = "job \<Rightarrow> (redis, pystr option) stmt"

definition enqueue_job :: "arq \<Rightarrow> job \<Rightarrow> pystr \<Rightarrow> (rq, pystr option) io" where
  "enqueue_job arq j msg = try_except (jq_guarded (remote_op (arq j))) is_Exception
     (\<lambda>e. raise (JobEnqueueError msg))"

definition enqueue_review :: "arq \<Rightarrow> review_job \<Rightarrow> (rq, pystr option) io" where
  "enqueue_review arq j = enqueue_job arq (RunReview j)
     (lit ''failed to enqueue review job for delivery '' @ rj_delivery j)"

definition enqueue_index_repo :: "arq \<Rightarrow> index_job \<Rightarrow> (rq, pystr option) io" where
  "enqueue_index_repo arq j = enqueue_job arq (IndexRepo j)
     (lit ''failed to enqueue index_repo job for '' @ ij_repo j)"

definition enqueue_reindex_repo :: "arq \<Rightarrow> reindex_job \<Rightarrow> (rq, pystr option) io" where
  "enqueue_reindex_repo arq j = enqueue_job arq (ReindexRepo j)
     (lit ''failed to enqueue reindex_repo job for '' @ xj_repo j)"

subsection \<open>What a guarded command does to Redis\<close>

lemma await_remote:
  assumes "await_op (remote_op stmt) w = (r, w')"
  shows "store (dep w') = store (dep w) \<or> store (dep w') = snd (stmt (store (dep w)))"
    and "r = Inr a \<Longrightarrow> stmt (store (dep w)) = (Inr a, store (dep w'))"
  using assms by (auto simp: await_op_def remote_op_def Let_def split: prod.splits list.splits option.splits)

text \<open>An invariant of the command that the retries rely on: \<open>P\<close> holds of the store from the first try
  on, and a successful try establishes \<open>Q\<close> of its value and the store.\<close>

lemma with_retry_rule:
  assumes run: "with_retry (await_op (remote_op stmt)) JQ_ATTEMPTS JQ_BASE_DELAY w = (r, w')" and P: "P (store (dep w))"
    and step: "\<forall>s. P s \<longrightarrow> P (snd (stmt s))"
    and final: "\<forall>s a s'. P s \<longrightarrow> stmt s = (Inr a, s') \<longrightarrow> Q a s'"
  shows "P (store (dep w'))" and "r = Inr a \<Longrightarrow> Q a (store (dep w'))"
proof -
  let ?m = "await_op (remote_op stmt)" and ?d = "\<lambda>k. float_mul JQ_BASE_DELAY (2 ^ k)"
  have one: "P (store (dep (snd (?m v))))" if "P (store (dep v))" for v
    using await_remote(1) [of stmt v] step that by (metis prod.collapse)
  have tries: "P (store (dep (tries ?m ?d k w)))" for k
    using P one by (induction k) (simp_all add: sleep_def)
  from retry_loop_exists [of JQ_ATTEMPTS ?m is_Exception ?d w] obtain j where
    "\<forall>i < j. fails_retryably ?m is_Exception (tries ?m ?d i w)" "int j < JQ_ATTEMPTS"
    "\<not> fails_retryably ?m is_Exception (tries ?m ?d j w) \<or> int j = JQ_ATTEMPTS - 1"
    by (auto simp: JQ_ATTEMPTS_def)
  from retry_loop_decided [OF this] run
  have loop: "?m (tries ?m ?d j w) = (r, w')" by (simp add: with_retry_def)
  with one [OF tries [of j]] show "P (store (dep w'))" by simp
  show "Q a (store (dep w'))" if "r = Inr a"
    using await_remote(2) [OF loop that] final tries [of j] by blast
qed

lemma jq_guarded_rule:
  assumes run: "jq_guarded (remote_op stmt) q = (r, q')" and P: "P (jq_redis q)"
    and step: "\<forall>s. P s \<longrightarrow> P (snd (stmt s))"
    and final: "\<forall>s a s'. P s \<longrightarrow> stmt s = (Inr a, s') \<longrightarrow> Q a s'"
  shows "P (jq_redis q')" and "r = Inr a \<Longrightarrow> Q a (jq_redis q')"
proof -
  obtain b w where q: "q = (b, w)" by (metis surj_pair)
  obtain x v where x: "with_retry (await_op (remote_op stmt)) JQ_ATTEMPTS JQ_BASE_DELAY w = (x, v)" by (metis surj_pair)
  have out: "q' = q \<and> (\<exists>e. r = Inl e) \<or> snd q' = v \<and> r = x"
    using run by (auto simp: jq_guarded_def q x split: sum.splits)
  have w: "P (store (dep w))" using P by (simp add: q)
  note rule = with_retry_rule [where P = P and Q = Q, OF x w step final]
  show "P (jq_redis q')" using out P rule(1) by auto
  show "Q a (jq_redis q')" if "r = Inr a" using out that rule(2) by auto
qed

lemma delivery_key_inj [simp]: "delivery_key d = delivery_key d' \<longleftrightarrow> d = d'"
  by (simp add: delivery_key_def)

lemma claimed_set_nx:
  assumes ttl: "0 < ttl"
  shows "claimed (snd (set_nx_ex k ttl r)) k' \<longleftrightarrow> k' = k \<or> claimed r k'"
proof -
  have "claimed (r\<lparr>rd_claims := (k, t) # rd_claims r\<rparr>) k' \<longleftrightarrow> (if k' = k then rd_now r < t else claimed r k')" for t
    by (auto simp: claimed_def split: option.split)
  with ttl show ?thesis by (simp add: set_nx_ex_def)
qed

lemma claimed_delete: "claimed (snd (redis_delete k r)) k' \<longleftrightarrow> k' \<noteq> k \<and> claimed r k'"
proof -
  have "map_of (filter (\<lambda>(k', t). k' \<noteq> k) cs) k' = (if k' = k then None else map_of cs k')" for cs :: "(pystr \<times> rat) list"
    by (induction cs) auto
  then show ?thesis by (auto simp: redis_delete_def claimed_def split: option.splits)
qed

lemma set_nx_frame:
  "rd_jobs (snd (set_nx_ex k ttl r)) = rd_jobs r" "rd_now (snd (set_nx_ex k ttl r)) = rd_now r"
  by (simp_all add: set_nx_ex_def)

lemma DEDUP_TTL_pos: "0 < DEDUP_TTL"
  by (simp add: DEDUP_TTL_def)

text \<open>Under any pattern of Redis faults.\<close>

lemma mark_seen_spec:
  assumes run: "mark_seen d q = (r, q')"
  defines "k \<equiv> delivery_key d"
  shows "rd_jobs (jq_redis q') = rd_jobs (jq_redis q)"
    and "k' \<noteq> k \<Longrightarrow> claimed (jq_redis q') k' = claimed (jq_redis q) k'"
    and "claimed (jq_redis q) k \<Longrightarrow> claimed (jq_redis q') k"
    and "r = Inr True \<Longrightarrow> \<not> claimed (jq_redis q) k \<and> claimed (jq_redis q') k"
    and "r = Inr False \<Longrightarrow> claimed (jq_redis q') k"
proof -
  obtain x where x: "jq_guarded (remote_op (set_nx_ex k DEDUP_TTL)) q = (x, q')"
    and r: "r = map_sum id (\<lambda>a. a = Some True) x"
    using run by (auto simp: mark_seen_def bind_io_def ret_def k_def split: prod.splits sum.splits)
  let ?s = "jq_redis q"
  define P where "P s \<longleftrightarrow> rd_jobs s = rd_jobs ?s \<and> (\<forall>k' \<noteq> k. claimed s k' = claimed ?s k') \<and>
    (claimed ?s k \<longrightarrow> claimed s k)" for s
  define Q where "Q a s \<longleftrightarrow> claimed s k \<and> (a = Some True \<longrightarrow> \<not> claimed ?s k)" for a s
  have P0: "P ?s" by (simp add: P_def)
  have step: "\<forall>s. P s \<longrightarrow> P (snd (set_nx_ex k DEDUP_TTL s))"
    by (simp add: P_def set_nx_frame claimed_set_nx [OF DEDUP_TTL_pos])
  have final: "\<forall>s a s'. P s \<longrightarrow> set_nx_ex k DEDUP_TTL s = (Inr a, s') \<longrightarrow> Q a s'"
  proof (intro allI impI)
    fix s a s' assume Ps: "P s" and st: "set_nx_ex k DEDUP_TTL s = (Inr a, s')"
    have "claimed s' k" using claimed_set_nx [OF DEDUP_TTL_pos, of k s k] st by simp
    moreover have "a = Some True \<longrightarrow> \<not> claimed s k" using st by (auto simp: set_nx_ex_def split: if_splits)
    ultimately show "Q a s'" using Ps by (auto simp: P_def Q_def)
  qed
  note rule = jq_guarded_rule [of _ q x q' P Q, OF x P0 step final]
  have P': "P (jq_redis q')" using rule(1) by blast
  have Q': "Q a (jq_redis q')" if "x = Inr a" for a using rule(2) that by blast
  show "rd_jobs (jq_redis q') = rd_jobs ?s" and "k' \<noteq> k \<Longrightarrow> claimed (jq_redis q') k' = claimed ?s k'"
    and "claimed ?s k \<Longrightarrow> claimed (jq_redis q') k"
    using P' by (simp_all add: P_def)
  show "r = Inr True \<Longrightarrow> \<not> claimed ?s k \<and> claimed (jq_redis q') k"
    and "r = Inr False \<Longrightarrow> claimed (jq_redis q') k"
    using Q' r by (cases x; auto simp: Q_def)+
qed

lemma unclaim_spec:
  assumes run: "unclaim d q = (r, q')"
  shows "rd_jobs (jq_redis q') = rd_jobs (jq_redis q)"
    and "r = Inr () \<Longrightarrow> \<not> claimed (jq_redis q') (delivery_key d)"
proof -
  define P where "P s \<longleftrightarrow> rd_jobs s = rd_jobs (jq_redis q)" for s :: redis
  define Q where "Q a s \<longleftrightarrow> \<not> claimed s (delivery_key d)" for a :: unit and s :: redis
  have final: "\<forall>s a s'. P s \<longrightarrow> redis_delete (delivery_key d) s = (Inr a, s') \<longrightarrow> Q a s'"
    using claimed_delete [of "delivery_key d"] by (metis Q_def snd_conv)
  have step: "\<forall>s. P s \<longrightarrow> P (snd (redis_delete (delivery_key d) s))"
    by (simp add: P_def redis_delete_def)
  note rule = jq_guarded_rule [of "redis_delete (delivery_key d)" q r q' P Q, OF run [unfolded unclaim_def] _ step final]
  show "rd_jobs (jq_redis q') = rd_jobs (jq_redis q)" using rule(1) by (simp add: P_def)
  show "r = Inr () \<Longrightarrow> \<not> claimed (jq_redis q') (delivery_key d)" using rule(2) by (simp add: P_def Q_def)
qed

text \<open>\<open>enqueue_job\<close> without an id of its own puts the job on the queue.\<close>

definition arq_appends :: "arq \<Rightarrow> bool" where
  "arq_appends arq \<longleftrightarrow> (\<forall>j s. \<exists>i. arq j s = (Inr (Some i), s\<lparr>rd_jobs := rd_jobs s @ [j]\<rparr>))"

text \<open>At least once: a lost reply makes the retry queue the job again.\<close>

lemma enqueue_job_spec:
  assumes arq: "arq_appends arq" and run: "enqueue_job arq j msg q = (r, q')"
  shows "\<exists>n. rd_jobs (jq_redis q') = rd_jobs (jq_redis q) @ replicate n j \<and> ((\<exists>a. r = Inr a) \<longrightarrow> 1 \<le> n)"
    and "claimed (jq_redis q') = claimed (jq_redis q)"
    and "r = Inl e \<Longrightarrow> is_Exception e \<Longrightarrow> e = JobEnqueueError msg"
proof -
  let ?s = "jq_redis q"
  obtain x where x: "jq_guarded (remote_op (arq j)) q = (x, q')"
    and r: "r = (case x of Inl e \<Rightarrow> Inl (if is_Exception e then JobEnqueueError msg else e) | Inr a \<Rightarrow> Inr a)"
    using run by (auto simp: enqueue_job_def try_except_def raise_def split: prod.splits sum.splits if_splits)
  define P where "P s \<longleftrightarrow> claimed s = claimed ?s \<and> (\<exists>n. rd_jobs s = rd_jobs ?s @ replicate n j)" for s
  define Q where "Q a s \<longleftrightarrow> (\<exists>n \<ge> 1. rd_jobs s = rd_jobs ?s @ replicate n j)" for a :: "pystr option" and s :: redis
  have app: "\<exists>i. arq j s = (Inr (Some i), s\<lparr>rd_jobs := rd_jobs s @ [j]\<rparr>)" for s using arq by (simp add: arq_appends_def)
  have cl: "claimed (s\<lparr>rd_jobs := js\<rparr>) = claimed s" for s js
    by (rule ext) (simp add: claimed_def split: option.split)
  have more: "\<exists>n \<ge> 1. (xs @ replicate m j) @ [j] = xs @ replicate n j" for xs m
    by (rule exI [of _ "Suc m"]) (simp add: replicate_append_same)
  have P0: "P ?s" unfolding P_def by (intro conjI refl exI [of _ 0]) simp
  have both: "P (snd (arq j s)) \<and> Q a (snd (arq j s))" if "P s" for s a
    using app [of s] more that by (auto simp: P_def Q_def cl) (metis append_assoc)+
  have step: "\<forall>s. P s \<longrightarrow> P (snd (arq j s))" using both by blast
  have final: "\<forall>s a s'. P s \<longrightarrow> arq j s = (Inr a, s') \<longrightarrow> Q a s'" using both by (metis snd_conv)
  note rule = jq_guarded_rule [of "arq j" q x q' P Q, OF x P0 step final]
  have P': "P (jq_redis q')" using rule(1) by blast
  then show "claimed (jq_redis q') = claimed ?s" by (simp add: P_def)
  show "\<exists>n. rd_jobs (jq_redis q') = rd_jobs ?s @ replicate n j \<and> ((\<exists>a. r = Inr a) \<longrightarrow> 1 \<le> n)"
  proof (cases x)
    case (Inl e)
    with P' r show ?thesis by (auto simp: P_def)
  next
    case (Inr a)
    with rule(2) have "Q a (jq_redis q')" by blast
    then show ?thesis by (auto simp: Q_def)
  qed
  show "r = Inl e \<Longrightarrow> is_Exception e \<Longrightarrow> e = JobEnqueueError msg" using r by (cases x) (auto split: if_splits)
qed

subsection \<open>Sequences of claims\<close>

primrec mark_all :: "pystr list \<Rightarrow> rq \<Rightarrow> (exn + bool) list \<times> rq" where
  "mark_all [] q = ([], q)"
| "mark_all (d # ds) q = (case mark_seen d q of (r, q') \<Rightarrow> (case mark_all ds q' of (rs, q'') \<Rightarrow> (r # rs, q'')))"

lemma mark_all_claimed:
  "mark_all ds q = (rs, q') \<Longrightarrow> claimed (jq_redis q) (delivery_key d) \<Longrightarrow>
    j < length ds \<Longrightarrow> ds ! j = d \<Longrightarrow> rs ! j \<noteq> Inr True"
proof (induction ds arbitrary: q rs j)
  case (Cons d' ds)
  obtain r q1 where r: "mark_seen d' q = (r, q1)" by (metis surj_pair)
  obtain rs1 where rs: "mark_all ds q1 = (rs1, q')" "rs = r # rs1"
    using Cons.prems(1) r by (auto split: prod.splits)
  show ?case
  proof (cases j)
    case 0
    with Cons.prems rs mark_seen_spec(4) [OF r] show ?thesis by auto
  next
    case (Suc i)
    have "claimed (jq_redis q1) (delivery_key d)"
      using mark_seen_spec(2,3) [OF r] Cons.prems(2) by (cases "d' = d") auto
    with Cons.IH [OF rs(1) this, of i] Cons.prems Suc rs show ?thesis by simp
  qed
qed simp

lemma mark_all_once:
  "mark_all ds q = (rs, q') \<Longrightarrow> i < j \<Longrightarrow> j < length ds \<Longrightarrow> ds ! i = ds ! j \<Longrightarrow> rs ! i = Inr True \<Longrightarrow>
    rs ! j \<noteq> Inr True"
proof (induction ds arbitrary: q rs i j)
  case (Cons d' ds)
  obtain r q1 where r: "mark_seen d' q = (r, q1)" by (metis surj_pair)
  obtain rs1 where rs: "mark_all ds q1 = (rs1, q')" "rs = r # rs1"
    using Cons.prems(1) r by (auto split: prod.splits)
  from Cons.prems(2) obtain j' where j: "j = Suc j'" by (cases j) auto
  show ?case
  proof (cases i)
    case 0
    with Cons.prems r rs have "r = Inr True" by simp
    with mark_seen_spec(4) [OF r] have "claimed (jq_redis q1) (delivery_key d')" by simp
    with mark_all_claimed [OF rs(1) this, of j'] Cons.prems rs j 0 show ?thesis by simp
  next
    case (Suc i')
    with Cons.IH [OF rs(1), of i' j'] Cons.prems rs j show ?thesis by simp
  qed
qed simp

text \<open>A Redis that lost the reply of the first command it ran.\<close>

definition sample_rq :: "fault list \<Rightarrow> rq" where
  "sample_rq fts = (jq_make JQ_FAILURE_THRESHOLD JQ_RESET_AFTER, \<lparr>clock = 0, slept = [],
     dep = \<lparr>script = fts, store = \<lparr>rd_now = 0, rd_claims = [], rd_jobs = []\<rparr>\<rparr>\<rparr>)"

definition lost_reply :: fault where
  "lost_reply = \<lparr>ft_dur = 5, ft_exn = Some (ConnectionError (lit ''reset'')), ft_applied = True\<rparr>"

lemma mark_seen_lost:
  "\<not> claimed (jq_redis (sample_rq [lost_reply])) (delivery_key (lit ''d'')) \<and>
   fst (mark_seen (lit ''d'') (sample_rq [lost_reply])) = Inr False \<and>
   rd_jobs (jq_redis (sample_rq [lost_reply])) = []"
  by (simp add: mark_seen_def jq_guarded_def with_retry_def retry_loop.simps sample_rq_def lost_reply_def
      jq_make_def jq_before_call_def JQ_ATTEMPTS_def await_op_def remote_op_def set_nx_ex_def claimed_def
      bind_io_def ret_def sleep_def DEDUP_TTL_def Let_def)

subsection \<open>Properties\<close>

text \<open>C26. While a claim holds, at most one of any sequence of \<open>mark_seen\<close> calls for a delivery id returns
  true, whatever Redis faults, lost replies and open breakers do to them.\<close>

theorem mark_seen_at_most_once:
  assumes "mark_all ds q = (rs, q')" and "i < j" "j < length ds" and "ds ! i = ds ! j" and "rs ! i = Inr True"
  shows "rs ! j \<noteq> Inr True"
  by (rule mark_all_once [OF assms])

theorem mark_seen_at_most_once_witness:
  "fst (mark_all [lit ''d'', lit ''e'', lit ''d''] (sample_rq [])) ! 0 = Inr True \<and>
   fst (mark_all [lit ''d'', lit ''e'', lit ''d''] (sample_rq [])) ! 2 \<noteq> Inr True"
proof -
  have t: "fst (mark_all [lit ''d'', lit ''e'', lit ''d''] (sample_rq [])) ! 0 = Inr True" by code_simp
  have i: "(0 :: nat) < 2" "2 < length [lit ''d'', lit ''e'', lit ''d'']"
    "[lit ''d'', lit ''e'', lit ''d''] ! 0 = [lit ''d'', lit ''e'', lit ''d''] ! 2" by simp_all
  show ?thesis by (rule conjI [OF t mark_seen_at_most_once [OF prod.collapse [symmetric] i t]])
qed

end
