(* ===== verification/Auth.thy ===== *)
theory Auth
  imports PyEffects
begin

text \<open>
  The trust boundaries: the bearer token of the read API (\<open>auth/token_auth.py\<close>), the HMAC signature of
  a webhook (\<open>webhook_receiver/signature.py\<close>) and the allowed CORS origins (\<open>api/app.py\<close>). The HMAC is a
  parameter. \<open>hmac.compare_digest\<close> on two \<open>str\<close> raises \<open>TypeError\<close> unless both are ASCII.
\<close>

definition is_ascii :: "pystr \<Rightarrow> bool" where
  "is_ascii s \<longleftrightarrow> (\<forall>c \<in> set s. c < 128)"

definition compare_digest :: "pystr \<Rightarrow> pystr \<Rightarrow> exn + bool" where
  "compare_digest a b = (if is_ascii a \<and> is_ascii b then Inr (a = b)
     else Inl (TypeError (lit ''comparing strings with non-ASCII characters is not supported'')))"

subsection \<open>auth/token_auth.py\<close>

text \<open>\<open>env\<close> is the value of \<open>API_AUTH_TOKEN\<close>, an empty one being as good as none.\<close>

definition expected_token :: "pystr option \<Rightarrow> exn + pystr" where
  "expected_token env = (case env of None \<Rightarrow> Inl (RuntimeError (lit ''API_AUTH_TOKEN is not set''))
     | Some t \<Rightarrow> if t = [] then Inl (RuntimeError (lit ''API_AUTH_TOKEN is not set'')) else Inr t)"

definition check_token :: "pystr option \<Rightarrow> pystr \<Rightarrow> exn + bool" where
  "check_token provided expected = (case provided of None \<Rightarrow> Inr False
     | Some p \<Rightarrow> if p = [] then Inr False else compare_digest p expected)"

definition bearer :: pystr where "bearer = lit ''Bearer ''"

definition provided_token :: "pystr option \<Rightarrow> pystr option" where
  "provided_token authorization = (case authorization of None \<Rightarrow> None
     | Some h \<Rightarrow> if h \<noteq> [] \<and> py_startswith h bearer then Some (py_removeprefix h bearer) else None)"

definition unauthorized :: exn where
  "unauthorized = HTTPException 401 (lit ''missing or invalid bearer token'')"

definition require_auth :: "pystr option \<Rightarrow> pystr option \<Rightarrow> exn + unit" where
  "require_auth env authorization = (case expected_token env of Inl e \<Rightarrow> Inl e
     | Inr expected \<Rightarrow> (case check_token (provided_token authorization) expected of Inl e \<Rightarrow> Inl e
        | Inr ok \<Rightarrow> if ok then Inr () else Inl unauthorized))"

subsection \<open>webhook_receiver/signature.py\<close>

definition sha256_prefix :: pystr where "sha256_prefix = lit ''sha256=''"

text \<open>\<open>hmac secret body\<close> is the hexadecimal HMAC-SHA256.\<close>

definition verify_signature :: "(pystr \<Rightarrow> pystr \<Rightarrow> pystr) \<Rightarrow> pystr \<Rightarrow> pystr \<Rightarrow> pystr option \<Rightarrow> exn + bool" where
  "verify_signature hmac body secret header = (case header of None \<Rightarrow> Inr False
     | Some h \<Rightarrow> if h = [] \<or> \<not> py_startswith h sha256_prefix then Inr False
                 else compare_digest (hmac secret body) (py_removeprefix h sha256_prefix))"

subsection \<open>api/app.py: the CORS origins\<close>

text \<open>\<open>raw.split(",")\<close>: the pieces between commas, at least one.\<close>

definition cors_origins :: "pystr option \<Rightarrow> pystr list" where
  "cors_origins env = filter (\<lambda>p. p \<noteq> []) (map py_strip (split_on 44
     (case env of None \<Rightarrow> lit ''http://localhost:3000'' | Some raw \<Rightarrow> raw)))"

subsection \<open>Properties\<close>

lemma require_auth_exact:
  "require_auth env authorization = Inr () \<longleftrightarrow>
     (\<exists>t. env = Some t \<and> t \<noteq> [] \<and> is_ascii t \<and> authorization = Some (bearer @ t))"
  by (auto simp: require_auth_def expected_token_def check_token_def provided_token_def compare_digest_def
      unauthorized_def py_startswith_iff bearer_def split: option.splits if_splits)

text \<open>\<open>require_auth\<close> lets a request through exactly when a non-empty ASCII \<open>API_AUTH_TOKEN\<close> is
  configured and the \<open>Authorization\<close> header is that token after the prefix \<open>Bearer\<close>; without a
  configured token every request fails.\<close>

theorem require_auth_iff:
  "(require_auth env authorization = Inr () \<longleftrightarrow>
      (\<exists>t. env = Some t \<and> t \<noteq> [] \<and> is_ascii t \<and> authorization = Some (bearer @ t))) \<and>
   ((env = None \<or> env = Some []) \<longrightarrow> require_auth env authorization = Inl (RuntimeError (lit ''API_AUTH_TOKEN is not set'')))"
  by (intro conjI require_auth_exact) (auto simp: require_auth_def expected_token_def)

theorem require_auth_iff_witness:
  "require_auth (Some (lit ''t0'')) (Some (bearer @ lit ''t0'')) = Inr () \<and>
   require_auth (Some (lit ''t0'')) (Some (bearer @ lit ''t1'')) \<noteq> Inr () \<and>
   require_auth (Some []) None = Inl (RuntimeError (lit ''API_AUTH_TOKEN is not set''))"
proof -
  have "is_ascii (lit ''t0'')" by (simp add: is_ascii_def lit_def)
  then show ?thesis
    using require_auth_iff [of "Some (lit ''t0'')" "Some (bearer @ lit ''t0'')"]
      require_auth_iff [of "Some (lit ''t0'')" "Some (bearer @ lit ''t1'')"] require_auth_iff [of "Some []" None]
    by simp
qed

text \<open>A webhook is authentic exactly when its header is \<open>sha256=\<close> followed by the HMAC of the raw body
  under the secret; a header with a character outside ASCII after the prefix makes the check raise
  \<open>TypeError\<close>, where a plain refusal is meant.\<close>

theorem verify_signature_iff:
  assumes "\<And>s b. is_ascii (hmac s b)"
  shows "(verify_signature hmac body secret header = Inr True \<longleftrightarrow> header = Some (sha256_prefix @ hmac secret body)) \<and>
    ((\<exists>e. verify_signature hmac body secret header = Inl e) \<longleftrightarrow>
       (\<exists>p. header = Some (sha256_prefix @ p) \<and> \<not> is_ascii p))"
  using assms
  by (auto simp: verify_signature_def compare_digest_def py_startswith_iff sha256_prefix_def
      split: option.splits if_splits)

theorem verify_signature_iff_witness:
  "(verify_signature (\<lambda>s b. lit ''0f'') [1] [2] (Some (sha256_prefix @ [233])) = Inr True \<longleftrightarrow>
      Some (sha256_prefix @ [233]) = Some (sha256_prefix @ lit ''0f'')) \<and>
   ((\<exists>e. verify_signature (\<lambda>s b. lit ''0f'') [1] [2] (Some (sha256_prefix @ [233])) = Inl e) \<longleftrightarrow>
      (\<exists>p. Some (sha256_prefix @ [233]) = Some (sha256_prefix @ p) \<and> \<not> is_ascii p))"
  by (rule verify_signature_iff [of "\<lambda>s b. lit ''0f''"]) (simp add: is_ascii_def lit_def)

end
