(* ===== verification/GitHubClient.thy ===== *)
theory GitHubClient
  imports Auth Reliability
begin

text \<open>
  \<open>integrations/github_client.py\<close>: the breaker, the transport \<open>_send\<close> (breaker, retry with backoff, the
  verdict on the status code), the token caches, and the public operations. The HTTP transport is a
  parameter (an operation of \<open>Reliability\<close> on the state of GitHub's side), and so are JWT signing and the
  JSON fields of the responses.
\<close>

subsection \<open>The breaker\<close>

record gh_breaker =
  hb_threshold :: int
  hb_reset_after :: rat
  hb_failures :: int
  hb_opened_at :: "rat option"

definition GH_ATTEMPTS :: nat where "GH_ATTEMPTS = 3"
definition GH_BASE_DELAY :: rat where "GH_BASE_DELAY = fl (2 / 10)"
definition GH_FAILURE_THRESHOLD :: int where "GH_FAILURE_THRESHOLD = 4"
definition GH_RESET_AFTER :: rat where "GH_RESET_AFTER = 30"

definition gh_make :: "int \<Rightarrow> rat \<Rightarrow> gh_breaker" where
  "gh_make n r = \<lparr>hb_threshold = n, hb_reset_after = r, hb_failures = 0, hb_opened_at = None\<rparr>"

definition gh_before_call :: "rat \<Rightarrow> gh_breaker \<Rightarrow> exn + unit" where
  "gh_before_call now b = (case hb_opened_at b of None \<Rightarrow> Inr ()
     | Some t \<Rightarrow> if hb_reset_after b \<le> float_sub now t then Inr () else Inl GitHubCircuitOpenError)"

definition gh_on_success :: "gh_breaker \<Rightarrow> gh_breaker" where
  "gh_on_success b = b\<lparr>hb_failures := 0, hb_opened_at := None\<rparr>"

definition gh_on_failure :: "rat \<Rightarrow> gh_breaker \<Rightarrow> gh_breaker" where
  "gh_on_failure now b =
     (let b' = b\<lparr>hb_failures := hb_failures b + 1\<rparr>
      in if hb_threshold b' \<le> hb_failures b' then b'\<lparr>hb_opened_at := Some now\<rparr> else b')"

definition gh_allows :: "rat \<Rightarrow> gh_breaker \<Rightarrow> bool" where
  "gh_allows now b \<longleftrightarrow> gh_before_call now b = Inr ()"

definition gh_view :: "gh_breaker \<Rightarrow> breaker_view" where
  "gh_view b = (hb_threshold b, hb_reset_after b, hb_failures b, hb_opened_at b)"

interpretation gh: breaker_contract gh_make gh_allows gh_on_success gh_on_failure gh_view
  by unfold_locales
    (auto simp: gh_make_def gh_allows_def gh_before_call_def gh_on_success_def gh_on_failure_def gh_view_def
      Let_def split: option.splits)

subsection \<open>Requests and the transport\<close>

record http_request =
  hq_method :: pystr
  hq_path :: pystr
  hq_auth :: pystr
  hq_accept :: pystr
  hq_json :: "(pystr \<times> pystr) list option"
  hq_follow :: bool

record http_response =
  hs_status :: nat
  hs_content :: pystr

record gh_client =
  gc_app_id :: pystr
  gc_breaker :: gh_breaker
  gc_jwt :: "(pystr \<times> rat) option"
  gc_installation_ids :: "pystr \<rightharpoonup> int"
  gc_installation_tokens :: "int \<rightharpoonup> pystr \<times> rat"

text \<open>The client and the process's view of GitHub.\<close>

type_synonym 'd gh = "gh_client \<times> 'd rt"

text \<open>\<open>httpx\<close>: a response, or one of its transport errors.\<close>

type_synonym 'd http = "http_request \<Rightarrow> ('d, http_response) op"

fun is_http_error :: "exn \<Rightarrow> bool" where
  "is_http_error (HTTPTransportError _) = True"
| "is_http_error _ = False"

definition is_retryable_status :: "nat \<Rightarrow> bool" where
  "is_retryable_status s \<longleftrightarrow> s = 429 \<or> 500 \<le> s"

definition gh_refused :: "http_request \<Rightarrow> http_response \<Rightarrow> exn" where
  "gh_refused q r = GitHubError (lit ''GitHub '' @ hq_method q @ lit '' '' @ hq_path q @ lit '' -> '' @
     dec_nat (hs_status r) @ lit '': '' @ take 300 (hs_content r))"

definition gh_failed :: "http_request \<Rightarrow> exn" where
  "gh_failed q = GitHubError (lit ''GitHub '' @ hq_method q @ lit '' '' @ hq_path q @ lit '' failed after '' @
     dec_nat GH_ATTEMPTS @ lit '' attempts'')"

definition gh_delay :: "nat \<Rightarrow> rat" where
  "gh_delay k = float_mul GH_BASE_DELAY (2 ^ k)"

text \<open>The loop of \<open>_send\<close>, with \<open>n\<close> attempts left of \<open>GH_ATTEMPTS\<close>, at attempt number \<open>k\<close>. The verdict is a
  response, or an exception with whether the breaker counts a success, a failure or nothing.\<close>

datatype verdict = Answer http_response | Refused exn | Exhausted | Escaped exn

fun send_loop :: "'d http \<Rightarrow> http_request \<Rightarrow> nat \<Rightarrow> nat \<Rightarrow> 'd rt \<Rightarrow> verdict \<times> 'd rt" where
  "send_loop http q 0 k w = (Exhausted, w)"
| "send_loop http q (Suc n) k w =
     (case await_op (http q) w of
        (Inr r, w1) \<Rightarrow>
          if hs_status r < 400 then (Answer r, w1)
          else if \<not> is_retryable_status (hs_status r) then (Refused (gh_refused q r), w1)
          else send_loop http q n (Suc k) (if n = 0 then w1 else sleep (gh_delay k) w1)
      | (Inl e, w1) \<Rightarrow>
          if is_http_error e then send_loop http q n (Suc k) (if n = 0 then w1 else sleep (gh_delay k) w1)
          else (Escaped e, w1))"

definition gh_send :: "'d http \<Rightarrow> http_request \<Rightarrow> ('d gh, http_response) io" where
  "gh_send http q g = (case g of (c, w) \<Rightarrow>
     (case gh_before_call (clock w) (gc_breaker c) of
        Inl e \<Rightarrow> (Inl e, (c, w))
      | Inr _ \<Rightarrow>
          (case send_loop http q GH_ATTEMPTS 0 w of (v, w1) \<Rightarrow>
            (case v of
               Answer r \<Rightarrow> (Inr r, (c\<lparr>gc_breaker := gh_on_success (gc_breaker c)\<rparr>, w1))
             | Refused e \<Rightarrow> (Inl e, (c\<lparr>gc_breaker := gh_on_success (gc_breaker c)\<rparr>, w1))
             | Exhausted \<Rightarrow> (Inl (gh_failed q), (c\<lparr>gc_breaker := gh_on_failure (clock w1) (gc_breaker c)\<rparr>, w1))
             | Escaped e \<Rightarrow> (Inl e, (c, w1))))))"

subsection \<open>Authentication\<close>

text \<open>What is not under this code: signing, the wall clock, and the fields of the JSON documents.\<close>

record gh_env =
  ge_wall :: "rat \<Rightarrow> rat"
  ge_sign :: "int \<Rightarrow> int \<Rightarrow> pystr \<Rightarrow> pystr"
  ge_id :: "http_response \<Rightarrow> exn + int"
  ge_token :: "http_response \<Rightarrow> exn + pystr"
  ge_default_branch :: "http_response \<Rightarrow> exn + pystr"
  ge_sha :: "http_response \<Rightarrow> exn + pystr"

definition JWT_TTL :: int where "JWT_TTL = 9 * 60"
definition JWT_BACKDATE :: int where "JWT_BACKDATE = 60"
definition TOKEN_REFRESH_MARGIN :: rat where "TOKEN_REFRESH_MARGIN = 5 * 60"
definition TOKEN_LIFE :: rat where "TOKEN_LIFE = 60 * 60"

definition gh_json :: pystr where "gh_json = lit ''application/vnd.github+json''"
definition gh_diff :: pystr where "gh_diff = lit ''application/vnd.github.v3.diff''"

definition fresh_jwt :: "gh_env \<Rightarrow> 'd gh \<Rightarrow> pystr" where
  "fresh_jwt env g = (let now = \<lfloor>ge_wall env (clock (snd g))\<rfloor>
     in ge_sign env (now - JWT_BACKDATE) (now + JWT_TTL) (gc_app_id (fst g)))"

definition app_jwt :: "gh_env \<Rightarrow> ('d gh, pystr) io" where
  "app_jwt env g = (case gc_jwt (fst g) of
     Some (t, expires) \<Rightarrow>
       if 30 < float_sub expires (clock (snd g)) then (Inr t, g)
       else (Inr (fresh_jwt env g), ((fst g)\<lparr>gc_jwt := Some (fresh_jwt env g,
               float_add (clock (snd g)) (of_int JWT_TTL))\<rparr>, snd g))
   | None \<Rightarrow> (Inr (fresh_jwt env g), ((fst g)\<lparr>gc_jwt := Some (fresh_jwt env g,
               float_add (clock (snd g)) (of_int JWT_TTL))\<rparr>, snd g)))"

text \<open>\<open>repo_full_name.split("/", 1)\<close> unpacked into two.\<close>

definition split_repo :: "pystr \<Rightarrow> exn + (pystr \<times> pystr)" where
  "split_repo s = (if 47 \<in> set s then Inr (takeWhile (\<lambda>c. c \<noteq> 47) s, tl (dropWhile (\<lambda>c. c \<noteq> 47) s))
     else Inl (ValueError (lit ''not enough values to unpack (expected 2, got 1)'')))"

definition gh_request :: "pystr \<Rightarrow> pystr \<Rightarrow> pystr \<Rightarrow> (pystr \<times> pystr) list option \<Rightarrow> http_request" where
  "gh_request meth path auth js = \<lparr>hq_method = meth, hq_path = path, hq_auth = auth, hq_accept = gh_json,
     hq_json = js, hq_follow = False\<rparr>"

definition repo_path :: "pystr \<times> pystr \<Rightarrow> pystr" where
  "repo_path on = lit ''/repos/'' @ fst on @ lit ''/'' @ snd on"

definition installation_id :: "'d http \<Rightarrow> gh_env \<Rightarrow> pystr \<Rightarrow> ('d gh, int) io" where
  "installation_id http env repo g = (case gc_installation_ids (fst g) repo of
     Some i \<Rightarrow> (Inr i, g)
   | None \<Rightarrow>
       bind_io (of_result (split_repo repo)) (\<lambda>on.
         bind_io (app_jwt env) (\<lambda>jwt.
           bind_io (gh_send http (gh_request (lit ''GET'') (repo_path on @ lit ''/installation'')
                      (bearer @ jwt) None)) (\<lambda>resp.
             bind_io (of_result (ge_id env resp)) (\<lambda>i h.
               (Inr i, ((fst h)\<lparr>gc_installation_ids := (gc_installation_ids (fst h))(repo \<mapsto> i)\<rparr>, snd h)))))) g)"

definition renew_token :: "'d http \<Rightarrow> gh_env \<Rightarrow> int \<Rightarrow> ('d gh, pystr) io" where
  "renew_token http env i =
     bind_io (app_jwt env) (\<lambda>jwt.
       bind_io (gh_send http (gh_request (lit ''POST'') (lit ''/app/installations/'' @ dec_int i @ lit ''/access_tokens'')
                  (bearer @ jwt) None)) (\<lambda>resp.
         bind_io (of_result (ge_token env resp)) (\<lambda>t h.
           (Inr t, ((fst h)\<lparr>gc_installation_tokens := (gc_installation_tokens (fst h))
              (i \<mapsto> (t, float_add (clock (snd h)) TOKEN_LIFE))\<rparr>, snd h)))))"

definition installation_token :: "'d http \<Rightarrow> gh_env \<Rightarrow> pystr \<Rightarrow> ('d gh, pystr) io" where
  "installation_token http env repo =
     bind_io (installation_id http env repo) (\<lambda>i g.
       (case gc_installation_tokens (fst g) i of
          Some (t, expires) \<Rightarrow>
            if TOKEN_REFRESH_MARGIN < float_sub expires (clock (snd g)) then (Inr t, g)
            else renew_token http env i g
        | None \<Rightarrow> renew_token http env i g))"

subsection \<open>Operations\<close>

definition token_auth :: "pystr \<Rightarrow> pystr" where
  "token_auth t = lit ''token '' @ t"

definition get_pull_request_diff :: "'d http \<Rightarrow> gh_env \<Rightarrow> pystr \<Rightarrow> int \<Rightarrow> ('d gh, pystr) io" where
  "get_pull_request_diff http env repo n =
     bind_io (of_result (split_repo repo)) (\<lambda>on.
       bind_io (installation_token http env repo) (\<lambda>t.
         bind_io (gh_send http ((gh_request (lit ''GET'') (repo_path on @ lit ''/pulls/'' @ dec_int n) (token_auth t) None)
                    \<lparr>hq_accept := gh_diff\<rparr>)) (\<lambda>resp. ret (hs_content resp))))"

definition default_branch :: "'d http \<Rightarrow> gh_env \<Rightarrow> pystr \<Rightarrow> ('d gh, pystr) io" where
  "default_branch http env repo =
     bind_io (of_result (split_repo repo)) (\<lambda>on.
       bind_io (installation_token http env repo) (\<lambda>t.
         bind_io (gh_send http (gh_request (lit ''GET'') (repo_path on) (token_auth t) None)) (\<lambda>resp.
           of_result (ge_default_branch env resp))))"

definition get_repo_head_sha :: "'d http \<Rightarrow> gh_env \<Rightarrow> pystr \<Rightarrow> pystr \<Rightarrow> ('d gh, pystr) io" where
  "get_repo_head_sha http env repo ref =
     bind_io (if ref = lit ''HEAD'' then default_branch http env repo else ret ref) (\<lambda>resolved.
       bind_io (of_result (split_repo repo)) (\<lambda>on.
         bind_io (installation_token http env repo) (\<lambda>t.
           bind_io (gh_send http (gh_request (lit ''GET'') (repo_path on @ lit ''/commits/'' @ resolved)
                      (token_auth t) None)) (\<lambda>resp. of_result (ge_sha env resp)))))"

definition download_tarball :: "'d http \<Rightarrow> gh_env \<Rightarrow> pystr \<Rightarrow> pystr \<Rightarrow> ('d gh, pystr) io" where
  "download_tarball http env repo ref =
     bind_io (of_result (split_repo repo)) (\<lambda>on.
       bind_io (installation_token http env repo) (\<lambda>t.
         bind_io (gh_send http ((gh_request (lit ''GET'') (repo_path on @ lit ''/tarball/'' @ ref) (token_auth t) None)
                    \<lparr>hq_follow := True\<rparr>)) (\<lambda>resp. ret (hs_content resp))))"

definition post_review :: "'d http \<Rightarrow> gh_env \<Rightarrow> pystr \<Rightarrow> int \<Rightarrow> pystr \<Rightarrow> pystr \<Rightarrow> ('d gh, int) io" where
  "post_review http env repo n body evt =
     bind_io (of_result (split_repo repo)) (\<lambda>on.
       bind_io (installation_token http env repo) (\<lambda>t.
         bind_io (gh_send http (gh_request (lit ''POST'') (repo_path on @ lit ''/pulls/'' @ dec_int n @ lit ''/reviews'')
                    (token_auth t) (Some [(lit ''body'', body), (lit ''event'', evt)]))) (\<lambda>resp.
           of_result (ge_id env resp))))"

subsection \<open>The transport\<close>

text \<open>A returned response is a success of the transport, never an error status.\<close>

lemma send_loop_answer:
  "send_loop http q n k w = (Answer r, w') \<Longrightarrow> hs_status r < 400"
  by (induction http q n k w rule: send_loop.induct) (auto split: prod.splits sum.splits if_splits)

lemma send_loop_refused:
  "send_loop http q n k w = (Refused e, w') \<Longrightarrow>
    \<exists>r. e = gh_refused q r \<and> 400 \<le> hs_status r \<and> hs_status r < 500 \<and> hs_status r \<noteq> 429"
  by (induction http q n k w rule: send_loop.induct)
    (auto simp: is_retryable_status_def not_less split: prod.splits sum.splits if_splits)

lemma send_loop_escaped:
  "send_loop http q n k w = (Escaped e, w') \<Longrightarrow> \<not> is_http_error e"
  by (induction http q n k w rule: send_loop.induct) (auto split: prod.splits sum.splits if_splits)

text \<open>How many requests the loop makes: the dependency runs at most \<open>n\<close> times.\<close>

primrec attempts_of :: "('d, 'a) op \<Rightarrow> nat \<Rightarrow> 'd \<Rightarrow> 'd" where
  "attempts_of f 0 d = d"
| "attempts_of f (Suc n) d = done_dep (f (attempts_of f n d))"

lemma attempts_of_shift: "attempts_of f n (done_dep (f d)) = attempts_of f (Suc n) d"
  by (induction n) simp_all

lemma send_loop_attempts:
  "send_loop http q n k w = (v, w') \<Longrightarrow>
    \<exists>m \<le> n. dep w' = attempts_of (http q) m (dep w) \<and> (n = 0 \<or> 1 \<le> m) \<and> (v = Exhausted \<longrightarrow> m = n)"
proof (induction n arbitrary: k w)
  case (Suc n)
  obtain r w1 where a: "await_op (http q) w = (r, w1)" by (metis surj_pair)
  then have w1: "dep w1 = done_dep (http q (dep w))" by (auto simp: await_op_def Let_def)
  let ?w2 = "if n = 0 then w1 else sleep (gh_delay k) w1"
  have w2: "dep ?w2 = done_dep (http q (dep w))" by (simp add: sleep_def w1)
  consider (stop) "v \<noteq> Exhausted" "w' = w1" | (go) "send_loop http q n (Suc k) ?w2 = (v, w')"
    using Suc.prems a by (cases r) (auto split: if_splits)
  then show ?case
  proof cases
    case stop
    then show ?thesis using w1 by (intro exI [of _ 1]) simp
  next
    case go
    from Suc.IH [OF go] obtain m where m: "m \<le> n" "dep w' = attempts_of (http q) m (dep ?w2)"
      "v = Exhausted \<longrightarrow> m = n" by blast
    then have "dep w' = attempts_of (http q) (Suc m) (dep w)" by (simp only: w2 attempts_of_shift)
    with m show ?thesis by (intro exI [of _ "Suc m"]) simp
  qed
qed simp

text \<open>What a call of the transport does: refused untouched by an open breaker, or between one and three
  requests; the breaker counts one failure when they are used up, a success for a response and for a
  definitive refusal by GitHub, and nothing for another exception.\<close>

lemma gh_send_spec:
  assumes "gh_send http q (c, w) = (r, (c', w'))"
  shows "gh_before_call (clock w) (gc_breaker c) = Inl GitHubCircuitOpenError \<and> r = Inl GitHubCircuitOpenError \<and>
      c' = c \<and> w' = w \<or>
    gh_before_call (clock w) (gc_breaker c) = Inr () \<and>
    (\<exists>m. 1 \<le> m \<and> m \<le> GH_ATTEMPTS \<and> dep w' = attempts_of (http q) m (dep w) \<and>
       (case r of Inr resp \<Rightarrow> hs_status resp < 400 \<and> gc_breaker c' = gh_on_success (gc_breaker c)
        | Inl e \<Rightarrow> e = gh_failed q \<and> m = GH_ATTEMPTS \<and> gc_breaker c' = gh_on_failure (clock w') (gc_breaker c) \<or>
            (\<exists>resp. e = gh_refused q resp \<and> 400 \<le> hs_status resp \<and> hs_status resp < 500) \<and>
              gc_breaker c' = gh_on_success (gc_breaker c) \<or>
            \<not> is_http_error e \<and> c' = c))"
proof (cases "gh_before_call (clock w) (gc_breaker c)")
  case (Inl e)
  moreover have "e = GitHubCircuitOpenError"
    using Inl by (auto simp: gh_before_call_def split: option.splits if_splits)
  ultimately show ?thesis using assms by (simp add: gh_send_def)
next
  case (Inr u)
  obtain v w1 where v: "send_loop http q GH_ATTEMPTS 0 w = (v, w1)" by (metis surj_pair)
  have w1: "w' = w1" using assms Inr v by (auto simp: gh_send_def split: verdict.splits)
  obtain m where m: "1 \<le> m" "m \<le> GH_ATTEMPTS" "dep w' = attempts_of (http q) m (dep w)"
    "v = Exhausted \<longrightarrow> m = GH_ATTEMPTS"
    using send_loop_attempts [OF v] w1 by (auto simp: GH_ATTEMPTS_def)
  have "case r of Inr resp \<Rightarrow> hs_status resp < 400 \<and> gc_breaker c' = gh_on_success (gc_breaker c)
        | Inl e \<Rightarrow> e = gh_failed q \<and> m = GH_ATTEMPTS \<and> gc_breaker c' = gh_on_failure (clock w') (gc_breaker c) \<or>
            (\<exists>resp. e = gh_refused q resp \<and> 400 \<le> hs_status resp \<and> hs_status resp < 500) \<and>
              gc_breaker c' = gh_on_success (gc_breaker c) \<or>
            \<not> is_http_error e \<and> c' = c"
  proof (cases v)
    case (Answer resp)
    with assms Inr v have "r = Inr resp" "gc_breaker c' = gh_on_success (gc_breaker c)"
      by (auto simp: gh_send_def)
    with send_loop_answer [OF v [unfolded Answer]] show ?thesis by simp
  next
    case (Refused e)
    with assms Inr v have "r = Inl e" "gc_breaker c' = gh_on_success (gc_breaker c)"
      by (auto simp: gh_send_def)
    with send_loop_refused [OF v [unfolded Refused]] show ?thesis by auto
  next
    case Exhausted
    with assms Inr v m show ?thesis by (auto simp: gh_send_def)
  next
    case (Escaped e)
    with assms Inr v have "r = Inl e" "c' = c" by (auto simp: gh_send_def)
    with send_loop_escaped [OF v [unfolded Escaped]] show ?thesis by simp
  qed
  with Inr m show ?thesis by (intro disjI2 conjI exI [of _ m]) simp_all
qed


subsection \<open>A concrete GitHub, for evaluation\<close>

text \<open>GitHub's side as the bodies of the reviews it has stored and the number of requests to come whose
  response is lost on the way.\<close>

definition sample_http :: "(pystr list \<times> nat) http" where
  "sample_http q d = (let reviews' = (case hq_json q of None \<Rightarrow> fst d | Some js \<Rightarrow> fst d @ [snd (hd js)]) in
     \<lparr>dur = 0,
      outcome = (if hq_json q \<noteq> None \<and> 0 < snd d then Inl (HTTPTransportError (lit ''read''))
                 else Inr \<lparr>hs_status = 200, hs_content = lit ''1''\<rparr>),
      done_dep = (reviews', if hq_json q \<noteq> None then snd d - 1 else snd d),
      cut_dep = d\<rparr>)"

definition sample_env :: gh_env where
  "sample_env = \<lparr>ge_wall = (\<lambda>t. t), ge_sign = (\<lambda>i e app. lit ''jwt''), ge_id = (\<lambda>r. Inr 1), ge_token = (\<lambda>r. Inr (lit ''tok'')),
     ge_default_branch = (\<lambda>r. Inr (lit ''main'')), ge_sha = (\<lambda>r. Inr (lit ''5a'')) \<rparr>"

text \<open>A client that has its tokens.\<close>

definition sample_client :: gh_client where
  "sample_client = \<lparr>gc_app_id = lit ''app'', gc_breaker = gh_make GH_FAILURE_THRESHOLD GH_RESET_AFTER,
     gc_jwt = None, gc_installation_ids = [lit ''o/r'' \<mapsto> 9], gc_installation_tokens = [9 \<mapsto> (lit ''tok'', 3600)]\<rparr>"

definition sample_gh :: "nat \<Rightarrow> (pystr list \<times> nat) gh" where
  "sample_gh lost = (sample_client, \<lparr>clock = 0, slept = [], dep = ([], lost)\<rparr>)"

lemma sample_token:
  "installation_token sample_http sample_env (lit ''o/r'') (sample_gh n) = (Inr (lit ''tok''), sample_gh n)"
proof -
  have "float_sub 3600 0 = 3600" using fl_of_nat [of 3600] by (simp add: float_sub_def)
  then show ?thesis
    by (simp add: installation_token_def installation_id_def sample_gh_def sample_client_def bind_io_def
        TOKEN_REFRESH_MARGIN_def)
qed

lemma sample_id: "ge_id sample_env r = Inr 1"
  by (simp add: sample_env_def)

lemma sample_split: "split_repo (lit ''o/r'') = Inr (lit ''o'', lit ''r'')"
  by (simp add: split_repo_def lit_def)

subsection \<open>Properties\<close>


definition sample_get :: http_request where
  "sample_get = gh_request (lit ''GET'') (lit ''/repos/o/r'') (lit ''token t'') None"


text \<open>A cached installation token is used without any request while it has more than five minutes of
  its assumed hour left.\<close>

theorem installation_token_cached:
  assumes "gc_installation_ids (fst g) repo = Some i" and "gc_installation_tokens (fst g) i = Some (t, expires)"
    and "TOKEN_REFRESH_MARGIN < float_sub expires (clock (snd g))"
  shows "installation_token http env repo g = (Inr t, g)"
  using assms by (simp add: installation_token_def installation_id_def bind_io_def)

theorem installation_token_cached_witness:
  "installation_token sample_http sample_env (lit ''o/r'') (sample_gh 5) = (Inr (lit ''tok''), sample_gh 5)"
proof -
  have "float_sub 3600 0 = 3600" using fl_of_nat [of 3600] by (simp add: float_sub_def)
  then show ?thesis
    by (intro installation_token_cached [where i = 9 and expires = 3600])
      (simp_all add: sample_gh_def sample_client_def TOKEN_REFRESH_MARGIN_def)
qed

text \<open>Posting a review is retried like a read: when GitHub stores the review but its response is lost,
  the retry stores a second one, and the caller sees a single success.\<close>

theorem github_retry_posts_twice:
  "fst (post_review sample_http sample_env (lit ''o/r'') 7 (lit ''body'') (lit ''COMMENT'') (sample_gh 1)) = Inr 1 \<and>
   fst (dep (snd (snd (post_review sample_http sample_env (lit ''o/r'') 7 (lit ''body'') (lit ''COMMENT'') (sample_gh 1))))) =
     [lit ''body'', lit ''body'']"
proof -
  have s: "gh_send sample_http (gh_request (lit ''POST'') p a (Some [(lit ''body'', b), (lit ''event'', e)])) (sample_gh 1) =
      (Inr \<lparr>hs_status = 200, hs_content = lit ''1''\<rparr>,
       (sample_client\<lparr>gc_breaker := gh_on_success (gc_breaker sample_client)\<rparr>,
        \<lparr>clock = gh_delay 0, slept = [gh_delay 0], dep = ([b, b], 0)\<rparr>))" for p a b e
    by (simp add: gh_send_def sample_gh_def sample_client_def gh_make_def gh_before_call_def GH_ATTEMPTS_def
        eval_nat_numeral await_op_def sample_http_def gh_request_def Let_def sleep_def)
  show ?thesis
    by (simp add: post_review_def bind_io_def of_result_def sample_split sample_token s sample_id del: One_nat_def)
qed

end
