(* ===== verification/Conformance.thy ===== *)
theory Conformance
  imports JobQueue GitHubClient
begin

text \<open>
  \<open>reliability/conformance.py\<close>: the behavioural contract its assertions pin the three circuit breakers
  to, and that all three meet it; what is more, the three cannot be told apart by their callers.
\<close>

text \<open>\<open>assert_breaker_contract\<close> at the readings \<open>t0 \<dots> t4\<close> of the clock: whether no assertion fails and no
  call that must be allowed raises.\<close>

definition assert_breaker_contract :: "(int \<Rightarrow> rat \<Rightarrow> 'b) \<Rightarrow> (rat \<Rightarrow> 'b \<Rightarrow> bool) \<Rightarrow> ('b \<Rightarrow> 'b) \<Rightarrow> (rat \<Rightarrow> 'b \<Rightarrow> 'b)
    \<Rightarrow> rat \<Rightarrow> rat \<Rightarrow> rat \<Rightarrow> rat \<Rightarrow> rat \<Rightarrow> bool" where
  "assert_breaker_contract mk allows success failure t0 t1 t2 t3 t4 \<longleftrightarrow>
     (let b = mk 2 999; b1 = failure t0 b; b2 = failure t1 b1; s = failure t1 (success (failure t0 b));
          z = failure t1 (mk 1 0)
      in allows t0 b \<and> allows t1 b1 \<and> \<not> allows t2 b2 \<and> allows t2 s \<and> allows t3 z \<and> allows t4 (success z))"

text \<open>All three circuit breakers of the program pass the conformance contract, whenever the test runs
  for less than 999 seconds and its clock does not run backwards.\<close>

theorem breakers_conform:
  assumes "float_sub t2 t1 < 999" and "0 \<le> float_sub t3 t1"
  shows "assert_breaker_contract (make_breaker name) breaker_allows on_success on_failure t0 t1 t2 t3 t4 \<and>
    assert_breaker_contract jq_make jq_allows jq_on_success jq_on_failure t0 t1 t2 t3 t4 \<and>
    assert_breaker_contract gh_make gh_allows gh_on_success gh_on_failure t0 t1 t2 t3 t4"
  unfolding assert_breaker_contract_def Let_def
  by (rule conjI [OF rel.conforms [OF assms] conjI [OF jq.conforms [OF assms] gh.conforms [OF assms]]])

theorem breakers_conform_witness:
  "assert_breaker_contract (make_breaker (lit ''b'')) breaker_allows on_success on_failure 0 0 0 0 0 \<and>
    assert_breaker_contract jq_make jq_allows jq_on_success jq_on_failure 0 0 0 0 0 \<and>
    assert_breaker_contract gh_make gh_allows gh_on_success gh_on_failure 0 0 0 0 0"
  by (rule breakers_conform) (simp_all add: float_sub_def)

text \<open>C40. The three breakers are observationally equal: after any history of successes and timed failures
  they allow and refuse the same calls, namely they refuse exactly while the last \<open>n\<close> outcomes or more
  were failures and less than the cooldown has passed since the latest.\<close>

theorem breakers_agree:
  assumes "1 \<le> n"
  shows "breaker_allows now (rel.after (make_breaker name n r) h) = jq_allows now (jq.after (jq_make n r) h) \<and>
    jq_allows now (jq.after (jq_make n r) h) = gh_allows now (gh.after (gh_make n r) h) \<and>
    (gh_allows now (gh.after (gh_make n r) h) \<longleftrightarrow>
       (let fails = takeWhile (\<lambda>e. e \<noteq> None) (rev h)
        in int (length fails) < n \<or> r \<le> float_sub now (the (hd fails))))"
  using rel.refused_iff [OF assms, of now name r h] jq.refused_iff [OF assms, of now r h]
    gh.refused_iff [OF assms, of now r h]
  unfolding rel.run_of_def jq.run_of_def gh.run_of_def Let_def by blast

theorem breakers_agree_witness:
  "\<not> breaker_allows 20 (rel.after (make_breaker (lit ''b'') 2 30) [Some 0, None, Some 5, Some 10]) \<and>
   \<not> jq_allows 20 (jq.after (jq_make 2 30) [Some 0, None, Some 5, Some 10]) \<and>
   \<not> gh_allows 20 (gh.after (gh_make 2 30) [Some 0, None, Some 5, Some 10])"
proof -
  have "float_sub 20 10 = 10" using fl_of_nat [of 10] by (simp add: float_sub_def)
  then show ?thesis
    using breakers_agree [of 2 20 "lit ''b''" 30 "[Some 0, None, Some 5, Some 10]"] by (simp add: Let_def)
qed

end
