(* ===== verification/Chunker.thy ===== *)
theory Chunker
  imports InjectionGuard "HOL-Library.List_Lexorder" "HOL-Library.Multiset"
begin

text \<open>
  \<open>ingestion/chunker.py\<close>: which files of a repository are chunked and how a file is split. A path is the
  list of its parts, a tree the list of its entries; reading a file is a parameter of an entry: its size,
  and its text, absent when it cannot be read or decoded. \<open>up\<close> is the class \<open>\w\<close> beyond Latin-1.
\<close>

definition VENDORED_DIR_NAMES :: "pystr list" where
  "VENDORED_DIR_NAMES = map lit [''.git'', ''.venv'', ''venv'', ''node_modules'', ''vendor'', ''dist'', ''build'',
     ''__pycache__'', ''.mypy_cache'', ''.pytest_cache'', ''.next'', ''target'']"

definition LOCKFILE_NAMES :: "pystr list" where
  "LOCKFILE_NAMES = map lit [''package-lock.json'', ''yarn.lock'', ''pnpm-lock.yaml'', ''poetry.lock'',
     ''uv.lock'', ''Pipfile.lock'', ''go.sum'', ''Cargo.lock'', ''composer.lock'']"

definition BINARY_SUFFIXES :: "pystr list" where
  "BINARY_SUFFIXES = map lit [''.png'', ''.jpg'', ''.jpeg'', ''.gif'', ''.ico'', ''.webp'', ''.pdf'', ''.zip'', ''.gz'',
     ''.tar'', ''.whl'', ''.so'', ''.dylib'', ''.dll'', ''.exe'', ''.woff'', ''.woff2'',
     ''.ttf'', ''.eot'', ''.mp3'', ''.mp4'', ''.sqlite'', ''.db'', ''.bin'', ''.pyc'']"

definition MAX_FILE_BYTES :: nat where "MAX_FILE_BYTES = 500000"
definition LINE_WINDOW :: nat where "LINE_WINDOW = 200"
definition LINE_OVERLAP :: nat where "LINE_OVERLAP = 20"

record chunk =
  ch_path :: pystr
  ch_symbol :: "pystr option"
  ch_index :: nat
  ch_content :: pystr

subsection \<open>Paths\<close>

type_synonym path = "pystr list"

definition path_name :: "path \<Rightarrow> pystr" where
  "path_name p = (if p = [] then [] else last p)"

definition path_str :: "path \<Rightarrow> pystr" where
  "path_str p = (if p = [] then lit ''.'' else py_join (lit ''/'') p)"

text \<open>\<open>PurePath.suffix\<close>: from the last dot on, unless the dot is the first or the last character.\<close>

definition path_suffix :: "path \<Rightarrow> pystr" where
  "path_suffix p = (let name = path_name p; ext = rev (takeWhile (\<lambda>c. c \<noteq> 46) (rev name));
      stem = length name - length ext
    in if 46 \<in> set name \<and> 1 < stem \<and> ext \<noteq> [] then 46 # ext else [])"

definition ascii_lower :: "pystr \<Rightarrow> pystr" where
  "ascii_lower s = map (\<lambda>c. if 65 \<le> c \<and> c \<le> 90 then c + 32 else c) s"

definition is_vendored :: "path \<Rightarrow> bool" where
  "is_vendored p \<longleftrightarrow> list_ex (\<lambda>part. part \<in> set VENDORED_DIR_NAMES) p"

definition should_skip :: "path \<Rightarrow> nat \<Rightarrow> bool" where
  "should_skip p n \<longleftrightarrow>
     (if is_vendored p then True
      else if path_name p \<in> set LOCKFILE_NAMES then True
      else if ascii_lower (path_suffix p) \<in> set BINARY_SUFFIXES then True
      else if MAX_FILE_BYTES < n then True
      else False)"

subsection \<open>Splitting a file\<close>

text \<open>\<open>_PY_TOP_LEVEL_SYMBOL.match(line)\<close>: group 1. White space and word characters are disjoint, so each
  repetition takes the longest run.\<close>

definition keyword_rest :: "pystr \<Rightarrow> pystr option" where
  "keyword_rest s =
     (if py_startswith s (lit ''async'')
      then (let a = drop 5 s; b = dropWhile is_space a
            in if length b < length a \<and> py_startswith b (lit ''def'') then Some (drop 3 b) else None)
      else if py_startswith s (lit ''def'') then Some (drop 3 s)
      else if py_startswith s (lit ''class'') then Some (drop 5 s)
      else None)"

definition top_level_symbol :: "(nat \<Rightarrow> bool) \<Rightarrow> pystr \<Rightarrow> pystr option" where
  "top_level_symbol up line = (case keyword_rest line of None \<Rightarrow> None
     | Some a \<Rightarrow> (let b = dropWhile is_space a; name = takeWhile (is_word up) b
         in if length b < length a \<and> name \<noteq> [] then Some name else None))"

definition blank :: "pystr \<Rightarrow> bool" where
  "blank s \<longleftrightarrow> py_strip s = []"

text \<open>The pieces from each boundary to the next.\<close>

definition symbol_lines :: "(nat \<Rightarrow> bool) \<Rightarrow> pystr list \<Rightarrow> (nat \<times> pystr) list" where
  "symbol_lines up ls = List.map_filter (\<lambda>(i, l). map_option (\<lambda>n. (i, n)) (top_level_symbol up l)) (enumerate 0 ls)"

fun symbol_pieces :: "pystr list \<Rightarrow> (nat \<times> pystr) list \<Rightarrow> (pystr option \<times> pystr) list" where
  "symbol_pieces ls [] = []"
| "symbol_pieces ls [(i, n)] = [(Some n, concat (drop i ls))]"
| "symbol_pieces ls ((i, n) # (j, m) # bs) = (Some n, concat (drop i (take j ls))) # symbol_pieces ls ((j, m) # bs)"

definition split_python :: "(nat \<Rightarrow> bool) \<Rightarrow> pystr \<Rightarrow> (pystr option \<times> pystr) list" where
  "split_python up s =
     (let ls = splitlines_keep s; bs = symbol_lines up ls in
      case bs of [] \<Rightarrow> if blank s then [] else [(None, s)]
      | (i, n) # _ \<Rightarrow>
          (if 0 < i then (let head = concat (take i ls) in if blank head then [] else [(None, head)]) else [])
          @ symbol_pieces ls bs)"

function window_loop :: "pystr list \<Rightarrow> nat \<Rightarrow> pystr list list" where
  "window_loop ls start =
     (if length ls \<le> start then []
      else take LINE_WINDOW (drop start ls) #
        (if length ls \<le> start + LINE_WINDOW then [] else window_loop ls (start + (LINE_WINDOW - LINE_OVERLAP))))"
  by pat_completeness auto
termination
  by (relation "measure (\<lambda>(ls, start). length ls - start)") (auto simp: LINE_WINDOW_def LINE_OVERLAP_def)

declare window_loop.simps [simp del]

definition split_by_line_window :: "pystr \<Rightarrow> (pystr option \<times> pystr) list" where
  "split_by_line_window s = map (\<lambda>w. (None, concat w)) (window_loop (splitlines_keep s) 0)"

definition chunk_file :: "(nat \<Rightarrow> bool) \<Rightarrow> path \<Rightarrow> pystr \<Rightarrow> chunk list" where
  "chunk_file up p s =
     (let pieces = (if path_suffix p = lit ''.py'' then split_python up s else split_by_line_window s)
      in map (\<lambda>(i, sym, content). \<lparr>ch_path = path_str p, ch_symbol = sym, ch_index = i, ch_content = content\<rparr>)
           (filter (\<lambda>(i, sym, content). \<not> blank content) (enumerate 0 pieces)))"

subsection \<open>Walking a tree\<close>

record file_entry =
  fe_is_file :: bool
  fe_size :: "nat option"
  fe_text :: "pystr option"

type_synonym tree = "(path \<times> file_entry) list"

definition chunk_entry :: "(nat \<Rightarrow> bool) \<Rightarrow> pystr set option \<Rightarrow> path \<times> file_entry \<Rightarrow> chunk list" where
  "chunk_entry up only e = (case e of (p, f) \<Rightarrow>
     if \<not> fe_is_file f then []
     else if (case only of None \<Rightarrow> False | Some ps \<Rightarrow> path_str p \<notin> ps) then []
     else (case fe_size f of None \<Rightarrow> []
       | Some n \<Rightarrow> if should_skip p n then []
           else (case fe_text f of None \<Rightarrow> [] | Some s \<Rightarrow> chunk_file up p s)))"

definition chunk_repo :: "(nat \<Rightarrow> bool) \<Rightarrow> pystr set option \<Rightarrow> tree \<Rightarrow> chunk list" where
  "chunk_repo up only tr = concat (map (chunk_entry up only) (sort_key fst tr))"

subsection \<open>Nothing is lost\<close>

text \<open>Windows without the lines they repeat.\<close>

definition deoverlap :: "'a list list \<Rightarrow> 'a list" where
  "deoverlap ws = (case ws of [] \<Rightarrow> [] | w # ws \<Rightarrow> w @ concat (map (drop LINE_OVERLAP) ws))"

lemma window_step:
  "window_loop ls start = (if length ls \<le> start then [] else take 200 (drop start ls) #
     (if length ls \<le> start + 200 then [] else window_loop ls (start + 180)))"
  by (subst window_loop.simps) (simp add: LINE_WINDOW_def LINE_OVERLAP_def)

lemma deoverlap_windows: "deoverlap (window_loop ls start) = drop start ls"
proof (induction "length ls - start" arbitrary: start rule: less_induct)
  case less
  show ?case
  proof (cases "length ls \<le> start + 200")
    case True
    then show ?thesis by (simp add: window_step [of ls start] deoverlap_def)
  next
    case False
    let ?w = "take 200 (drop (start + 180) ls)"
    obtain ws where ws: "window_loop ls (start + 180) = ?w # ws"
      using False window_step [of ls "start + 180"] by simp
    have "deoverlap (window_loop ls (start + 180)) = drop (start + 180) ls"
      using less [of "start + 180"] False by simp
    then have "drop 20 (?w @ concat (map (drop LINE_OVERLAP) ws)) = drop 20 (drop (start + 180) ls)"
      by (simp only: ws deoverlap_def list.case)
    moreover have "drop 20 (drop (start + 180) ls) = drop (start + 200) ls" by (simp add: add.commute)
    moreover have "20 \<le> length ?w" using False by simp
    ultimately have "drop 20 ?w @ concat (map (drop LINE_OVERLAP) ws) = drop (start + 200) ls"
      by (metis diff_is_0_eq drop0 drop_append)
    then have "concat (map (drop LINE_OVERLAP) (window_loop ls (start + 180))) = drop (start + 200) ls"
      unfolding ws by (simp add: LINE_OVERLAP_def)
    moreover have "take 200 (drop start ls) @ drop (start + 200) ls = drop start ls"
      by (metis add.commute append_take_drop_id drop_drop)
    ultimately show ?thesis using False window_step [of ls start] by (simp add: deoverlap_def)
  qed
qed

text \<open>The windows of a file lose nothing: each has at most 200 lines, and the first followed by every
  further one without its first 20 lines, which repeat the end of the one before, is the file.\<close>

theorem windows_lossless:
  "list_all (\<lambda>w. w \<noteq> [] \<and> length w \<le> LINE_WINDOW) (window_loop (splitlines_keep s) 0) \<and>
   concat (deoverlap (window_loop (splitlines_keep s) 0)) = s"
proof -
  have "list_all (\<lambda>w. w \<noteq> [] \<and> length w \<le> LINE_WINDOW) (window_loop ls start)" for ls :: "pystr list" and start
    by (induction ls start rule: window_loop.induct) (subst window_loop.simps, simp add: LINE_WINDOW_def)
  then show ?thesis by (simp add: deoverlap_windows)
qed

text \<open>The pieces from the first boundary on.\<close>

lemma symbol_lines_sorted: "sorted (map fst (symbol_lines up ls)) \<and> (\<forall>b \<in> set (symbol_lines up ls). fst b < length ls)"
proof -
  have "sorted (map fst (List.map_filter (\<lambda>(i, l). map_option (\<lambda>n. (i, n)) (f l)) (enumerate k xs))) \<and>
      (\<forall>b \<in> set (List.map_filter (\<lambda>(i, l). map_option (\<lambda>n. (i, n)) (f l)) (enumerate k xs)). k \<le> fst b \<and> fst b < k + length xs)"
    for f and k and xs :: "pystr list"
  proof (induction xs arbitrary: k)
    case (Cons x xs)
    show ?case using Cons.IH [of "Suc k"]
      by (cases "f x") (fastforce simp: List.map_filter_def)+
  qed (simp add: List.map_filter_def)
  from this [of "top_level_symbol up" 0 ls] show ?thesis unfolding symbol_lines_def by auto
qed

lemma concat_symbol_pieces:
  "sorted (i # map fst bs) \<Longrightarrow> concat (map snd (symbol_pieces ls ((i, n) # bs))) = concat (drop i ls)"
proof (induction ls "(i, n) # bs" arbitrary: i n bs rule: symbol_pieces.induct)
  case (3 ls i n j m bs)
  then have "concat (map snd (symbol_pieces ls ((j, m) # bs))) = concat (drop j ls)" and le: "i \<le> j" by simp_all
  moreover have "drop i (take j ls) @ drop j ls = drop i ls"
    using le by (metis append_take_drop_id drop_append drop_drop drop_take length_take le_add_diff_inverse min.absorb2 diff_is_0_eq drop0 nat_le_linear append_Nil2 drop_all take_all)
  then have "concat (drop i (take j ls)) @ concat (drop j ls) = concat (drop i ls)"
    by (metis concat_append)
  ultimately show ?case by simp
qed simp

text \<open>C38. Splitting a Python file at its top-level symbols loses nothing but white space before the first one:
  the pieces, in order, are the file, or the file after a blank beginning.\<close>

theorem split_python_lossless:
  "\<exists>h. blank h \<and> h @ concat (map snd (split_python up s)) = s"
proof -
  let ?ls = "splitlines_keep s"
  show ?thesis
  proof (cases "symbol_lines up ?ls")
    case Nil
    then show ?thesis by (cases "blank s") (auto simp: split_python_def blank_def py_strip_Nil_iff intro: exI [of _ "[]"])
  next
    case (Cons b bs)
    obtain i n where b: "b = (i, n)" by (cases b)
    have "concat (map snd (symbol_pieces ?ls ((i, n) # bs))) = concat (drop i ?ls)"
      using symbol_lines_sorted [of up ?ls] Cons b by (intro concat_symbol_pieces) simp
    moreover have "concat (take i ?ls) @ concat (drop i ?ls) = s"
      by (metis append_take_drop_id concat_append concat_splitlines_keep)
    moreover have "blank []" by (simp add: blank_def py_strip_Nil_iff)
    ultimately show ?thesis using Cons b
      by (cases "0 < i"; cases "blank (concat (take i ?ls))") (auto simp: split_python_def Let_def)
  qed
qed

subsection \<open>Keys\<close>

definition chunk_id :: "chunk \<Rightarrow> pystr \<times> nat" where
  "chunk_id c = (ch_path c, ch_index c)"

lemma chunk_file_facts:
  "distinct (map ch_index (chunk_file up p s)) \<and>
   (\<forall>c \<in> set (chunk_file up p s). ch_path c = path_str p \<and> \<not> blank (ch_content c))"
proof -
  have "distinct (map fst (filter P (enumerate 0 xs)))" for P and xs :: "'a list"
    by (rule distinct_map_filter) simp
  then have "distinct (map fst (filter (\<lambda>(i, sym, content). \<not> blank content) (enumerate 0 (
      if path_suffix p = lit ''.py'' then split_python up s else split_by_line_window s))))" .
  then show ?thesis
    by (auto simp: chunk_file_def Let_def comp_def case_prod_unfold)
qed

lemma chunk_entry_facts:
  "distinct (map chunk_id (chunk_entry up only e)) \<and>
   (\<forall>c \<in> set (chunk_entry up only e). ch_path c = path_str (fst e) \<and> \<not> blank (ch_content c) \<and>
      \<not> is_vendored (fst e) \<and> (\<forall>ps. only = Some ps \<longrightarrow> ch_path c \<in> ps))"
proof (cases "chunk_entry up only e = []")
  case False
  then obtain p f n s where e: "e = (p, f)" "fe_size f = Some n" "\<not> should_skip p n" "fe_text f = Some s"
      and eq: "chunk_entry up only e = chunk_file up p s" and only: "\<forall>ps. only = Some ps \<longrightarrow> path_str p \<in> ps"
    by (cases e) (auto simp: chunk_entry_def split: if_splits option.splits)
  have "distinct (map chunk_id (chunk_file up p s))"
    using chunk_file_facts [of up p s] by (auto simp: chunk_id_def distinct_map inj_on_def)
  then show ?thesis unfolding eq using chunk_file_facts [of up p s] only e(3)
    by (auto simp: e(1) should_skip_def split: if_splits)
qed simp

lemma chunk_entries_keys:
  "distinct (map (path_str \<circ> fst) es) \<Longrightarrow> distinct (map chunk_id (concat (map (chunk_entry up only) es)))"
proof (induction es)
  case (Cons e es)
  have "chunk_id c \<noteq> chunk_id c'" if in1: "c \<in> set (chunk_entry up only e)" and in2: "c' \<in> set (concat (map (chunk_entry up only) es))" for c c'
  proof -
    obtain e' where "e' \<in> set es" "c' \<in> set (chunk_entry up only e')" using in2 by auto
    then have "ch_path c' = path_str (fst e')" "ch_path c = path_str (fst e)"
      using chunk_entry_facts [of up only e'] chunk_entry_facts [of up only e] in1 by blast+
    moreover have "path_str (fst e) \<noteq> path_str (fst e')"
      using Cons.prems \<open>e' \<in> set es\<close> by force
    ultimately have "ch_path c \<noteq> ch_path c'" by simp
    then show ?thesis by (auto simp: chunk_id_def)
  qed
  then have "set (map chunk_id (chunk_entry up only e)) \<inter> set (map chunk_id (concat (map (chunk_entry up only) es))) = {}"
    unfolding set_map by blast
  then show ?case using Cons chunk_entry_facts [of up only e] by (simp del: set_concat set_map)
qed simp

lemma chunk_repo_facts:
  assumes "distinct (map (path_str \<circ> fst) tr)"
  shows "distinct (map chunk_id (chunk_repo up only tr))"
    and "c \<in> set (chunk_repo up only tr) \<Longrightarrow> (\<exists>e \<in> set tr. ch_path c = path_str (fst e) \<and> \<not> is_vendored (fst e)) \<and>
      \<not> blank (ch_content c) \<and> (\<forall>ps. only = Some ps \<longrightarrow> ch_path c \<in> ps)"
proof -
  have "mset (map (path_str \<circ> fst) (sort_key fst tr)) = mset (map (path_str \<circ> fst) tr)" by simp
  then have "distinct (map (path_str \<circ> fst) (sort_key fst tr))" using assms by (metis mset_eq_imp_distinct_iff)
  then show "distinct (map chunk_id (chunk_repo up only tr))"
    unfolding chunk_repo_def by (rule chunk_entries_keys)
  show "(\<exists>e \<in> set tr. ch_path c = path_str (fst e) \<and> \<not> is_vendored (fst e)) \<and>
      \<not> blank (ch_content c) \<and> (\<forall>ps. only = Some ps \<longrightarrow> ch_path c \<in> ps)"
    if "c \<in> set (chunk_repo up only tr)"
  proof -
    from that obtain e where "e \<in> set tr" "c \<in> set (chunk_entry up only e)" by (auto simp: chunk_repo_def)
    with chunk_entry_facts [of up only e] show ?thesis by blast
  qed
qed

end
