(* ===== verification/Database.thy ===== *)
theory Database
  imports FaultModel
begin

text \<open>
  The tables of the one Postgres store (\<open>scripts/migrations\<close>): the truth lane (reviews, findings,
  human reviews), the events spine, and the ingestion lane. A table is the list of its rows in
  insertion order; where a \<open>SELECT\<close> has no \<open>ORDER BY\<close> the model returns that order, one of those
  the database may choose. Row ids are drawn from \<open>next_uuid\<close>: \<open>gen_random_uuid()\<close> as a supply that
  never repeats. \<open>db_now\<close> is \<open>now()\<close>. Storing into a \<open>NUMERIC\<close> column goes through a parameter of
  the statements that do it, the rounding of the driver and the database.
\<close>

type_synonym uuid = nat

record pr_review_record =
  pr_id :: uuid
  pr_repo :: pystr
  pr_num :: int
  pr_delivery :: pystr
  pr_status :: pystr
  pr_confidence :: "rat option"
  pr_github_review_id :: "int option"
  pr_created_at :: rat
  pr_completed_at :: "rat option"

record finding_record =
  fr_review_id :: uuid
  fr_agent_type :: pystr
  fr_severity :: pystr
  fr_category :: pystr
  fr_summary :: pystr
  fr_file_path :: pystr
  fr_line_start :: "int option"
  fr_line_end :: "int option"
  fr_suggestion :: "pystr option"
  fr_confidence :: rat
  fr_rationale :: pystr

record hitl_row =
  hr_id :: uuid
  hr_review_id :: uuid
  hr_reason :: pystr
  hr_status :: pystr
  hr_created_at :: rat
  hr_resolved_at :: "rat option"
  hr_note :: "pystr option"

text \<open>The values a \<open>payload\<close> carries.\<close>

datatype json = JStr pystr | JInt int | JFloat rat

record event_row =
  ev_ts :: rat
  ev_review_id :: uuid
  ev_agent :: pystr
  ev_span :: uuid
  ev_parent :: "uuid option"
  ev_type :: pystr
  ev_model :: "pystr option"
  ev_tokens_in :: "int option"
  ev_tokens_out :: "int option"
  ev_cost :: "rat option"
  ev_latency_ms :: "int option"
  ev_outcome :: "pystr option"
  ev_confidence :: "rat option"
  ev_payload :: "(pystr \<times> json) list option"

record chunk_row =
  ck_repo :: pystr
  ck_path :: pystr
  ck_symbol :: "pystr option"
  ck_index :: nat
  ck_content :: pystr
  ck_embedding :: "rat list"
  ck_token_count :: nat
  ck_updated_at :: rat

record repo_state_row =
  rs_repo :: pystr
  rs_commit :: "pystr option"
  rs_indexed_at :: rat
  rs_chunk_count :: nat
  rs_status :: pystr
  rs_error :: "pystr option"

record tiger_db =
  reviews :: "pr_review_record list"
  finding_rows :: "finding_record list"
  hitl_rows :: "hitl_row list"
  agent_events :: "event_row list"
  code_chunks :: "chunk_row list"
  repo_index_state :: "repo_state_row list"
  next_uuid :: uuid
  db_now :: rat

definition empty_db :: tiger_db where
  "empty_db = \<lparr>reviews = [], finding_rows = [], hitl_rows = [], agent_events = [], code_chunks = [],
     repo_index_state = [], next_uuid = 0, db_now = 0\<rparr>"

subsection \<open>What the database's constraints keep\<close>

text \<open>The columns of \<open>finding_records_dedup_idx\<close>.\<close>

definition dedup_key :: "finding_record \<Rightarrow> uuid \<times> pystr \<times> pystr \<times> int \<times> pystr" where
  "dedup_key r = (fr_review_id r, fr_agent_type r, fr_file_path r,
     (case fr_line_start r of None \<Rightarrow> - 1 | Some l \<Rightarrow> l), fr_category r)"

text \<open>Primary keys, unique indexes and foreign keys of the truth lane and the ingestion lane.\<close>

definition wf_db :: "tiger_db \<Rightarrow> bool" where
  "wf_db db \<longleftrightarrow>
     distinct (map pr_id (reviews db)) \<and> distinct (map pr_delivery (reviews db)) \<and>
     (\<forall>r \<in> set (reviews db). pr_id r < next_uuid db) \<and>
     distinct (map dedup_key (finding_rows db)) \<and>
     (\<forall>r \<in> set (finding_rows db). fr_review_id r \<in> pr_id ` set (reviews db)) \<and>
     distinct (map hr_id (hitl_rows db)) \<and> (\<forall>h \<in> set (hitl_rows db). hr_id h < next_uuid db) \<and>
     (\<forall>h \<in> set (hitl_rows db). hr_review_id h \<in> pr_id ` set (reviews db)) \<and>
     distinct (map (\<lambda>c. (ck_repo c, ck_path c, ck_index c)) (code_chunks db)) \<and>
     distinct (map rs_repo (repo_index_state db))"

lemma wf_empty_db [simp]: "wf_db empty_db"
  by (simp add: wf_db_def empty_db_def)

text \<open>\<open>asyncpg\<close>'s transient conditions: \<open>_RETRYABLE_DB\<close> of every module that owns a \<open>Guard\<close>.
  \<open>TimeoutError\<close> and \<open>ConnectionError\<close> are subclasses of \<open>OSError\<close>.\<close>

fun retryable_db :: "exn \<Rightarrow> bool" where
  "retryable_db (PostgresConnectionError _) = True"
| "retryable_db (InterfaceError _) = True"
| "retryable_db (OperationTimeout _ _) = True"
| "retryable_db (ConnectionError _) = True"
| "retryable_db (OSError _) = True"
| "retryable_db (TimeoutError _) = True"
| "retryable_db (FileNotFoundError _) = True"
| "retryable_db _ = False"

text \<open>The guard those modules build around the pool.\<close>

definition db_guard :: guard_cfg where
  "db_guard = guard_defaults\<lparr>g_timeout := Some DB_COMMAND_TIMEOUT_SECONDS, g_retry_on := retryable_db\<rparr>"

definition db_breaker :: "pystr \<Rightarrow> breaker" where
  "db_breaker name = make_breaker name DEFAULT_FAILURE_THRESHOLD DEFAULT_RESET_AFTER_SECONDS"

lemma db_guard_attempts [simp]: "g_attempts db_guard = 3"
  by (simp add: db_guard_def guard_defaults_def DEFAULT_ATTEMPTS_def)

text \<open>A process's connection: the breaker of its guard, and the pool with its faults.\<close>

type_synonym 'db conn = "breaker option \<times> 'db remote rt"

abbreviation conn_db :: "'db conn \<Rightarrow> 'db" where
  "conn_db c \<equiv> store (dep (snd c))"

definition guarded :: "pystr \<Rightarrow> ('db, 'a) stmt \<Rightarrow> ('db conn, 'a) io" where
  "guarded name stmt = guard_call db_guard (remote_op stmt) name"

text \<open>A call on the bare pool, without a guard.\<close>

definition unguarded :: "('db, 'a) stmt \<Rightarrow> ('db conn, 'a) io" where
  "unguarded stmt c = (case await_op (remote_op stmt) (snd c) of (r, w) \<Rightarrow> (r, (fst c, w)))"

lemma guarded_idempotent:
  assumes idem: "idempotent_stmt stmt" and r: "guarded name stmt c = (r, c')"
  shows "conn_db c' \<in> {conn_db c, snd (stmt (conn_db c))}"
    and "r = Inr a \<Longrightarrow> stmt (conn_db c) = (Inr a, conn_db c')"
  using guard_remote_idempotent [OF idem, of db_guard name "fst c" "snd c" r "fst c'" "snd c'"] r
  by (auto simp: guarded_def)

lemma unguarded_once:
  assumes "unguarded stmt c = (r, c')"
  shows "conn_db c' = conn_db c \<or> conn_db c' = snd (stmt (conn_db c))"
    and "r = Inr a \<Longrightarrow> stmt (conn_db c) = (Inr a, conn_db c')"
  using assms
  by (auto simp: unguarded_def await_op_def remote_op_def Let_def
      split: prod.splits list.splits if_splits option.splits)

text \<open>A fault-free connection.\<close>

definition healthy :: "'db conn \<Rightarrow> bool" where
  "healthy c \<longleftrightarrow> script (dep (snd c)) = [] \<and>
     (case fst c of None \<Rightarrow> True | Some b \<Rightarrow> state_of (clock (snd c)) b \<noteq> Open)"

end
