(* ===== verification/Contracts.thy ===== *)
theory Contracts
  imports PyEffects
begin

text \<open>
  \<open>agents/contracts.py\<close>: the enums, what the model returns (\<open>FindingDraft\<close>) and the contract every
  later stage consumes (\<open>Finding\<close>), with the only range constraint the schemas declare, a
  confidence between 0 and 1. Severities are ordered as \<open>orchestrator/nodes.py\<close>'s
  \<open>_SEVERITY_ORDER\<close> lists them.
\<close>

datatype agent_type = SECURITY | QUALITY | TESTS | DOCS

fun agent_value :: "agent_type \<Rightarrow> pystr" where
  "agent_value SECURITY = lit ''security''"
| "agent_value QUALITY = lit ''quality''"
| "agent_value TESTS = lit ''tests''"
| "agent_value DOCS = lit ''docs''"

datatype severity = CRITICAL | HIGH | MEDIUM | LOW | INFO

fun severity_value :: "severity \<Rightarrow> pystr" where
  "severity_value CRITICAL = lit ''critical''"
| "severity_value HIGH = lit ''high''"
| "severity_value MEDIUM = lit ''medium''"
| "severity_value LOW = lit ''low''"
| "severity_value INFO = lit ''info''"

text \<open>\<open>AgentType(s)\<close> and \<open>Severity(s)\<close>: the member with that value, or \<open>ValueError\<close>.\<close>

definition agent_of :: "pystr \<Rightarrow> exn + agent_type" where
  "agent_of s = (if s = lit ''security'' then Inr SECURITY
     else if s = lit ''quality'' then Inr QUALITY
     else if s = lit ''tests'' then Inr TESTS
     else if s = lit ''docs'' then Inr DOCS
     else Inl (ValueError s))"

definition severity_of :: "pystr \<Rightarrow> exn + severity" where
  "severity_of s = (if s = lit ''critical'' then Inr CRITICAL
     else if s = lit ''high'' then Inr HIGH
     else if s = lit ''medium'' then Inr MEDIUM
     else if s = lit ''low'' then Inr LOW
     else if s = lit ''info'' then Inr INFO
     else Inl (ValueError s))"

lemma agent_of_value [simp]: "agent_of (agent_value a) = Inr a"
  by (cases a) (simp_all add: agent_of_def)

lemma severity_of_value [simp]: "severity_of (severity_value s) = Inr s"
  by (cases s) (simp_all add: severity_of_def)

lemma agent_of_iff: "agent_of s = Inr a \<longleftrightarrow> s = agent_value a"
  by (cases a) (auto simp: agent_of_def)

lemma severity_of_iff: "severity_of s = Inr v \<longleftrightarrow> s = severity_value v"
  by (cases v) (auto simp: severity_of_def)

lemma agent_value_inj [simp]: "agent_value a = agent_value b \<longleftrightarrow> a = b"
  by (metis agent_of_value sum.inject(2))

lemma severity_value_inj [simp]: "severity_value a = severity_value b \<longleftrightarrow> a = b"
  by (metis severity_of_value sum.inject(2))

subsection \<open>Severity order\<close>

definition severity_order :: "severity list" where
  "severity_order = [CRITICAL, HIGH, MEDIUM, LOW, INFO]"

fun severity_index :: "severity \<Rightarrow> nat" where
  "severity_index CRITICAL = 0"
| "severity_index HIGH = 1"
| "severity_index MEDIUM = 2"
| "severity_index LOW = 3"
| "severity_index INFO = 4"

lemma severity_index_nth: "severity_order ! severity_index s = s"
  by (cases s) (simp_all add: severity_order_def)

lemma severity_index_inj [simp]: "severity_index s = severity_index t \<longleftrightarrow> s = t"
  by (metis severity_index_nth)

lemma set_severity_order [simp]: "set severity_order = UNIV"
proof -
  have "s \<in> set severity_order" for s by (cases s) (simp_all add: severity_order_def)
  then show ?thesis by auto
qed

lemma distinct_severity_order [simp]: "distinct severity_order"
  by (simp add: severity_order_def)

instantiation severity :: linorder
begin

definition less_eq_severity :: "severity \<Rightarrow> severity \<Rightarrow> bool" where
  "less_eq_severity s t \<longleftrightarrow> severity_index s \<le> severity_index t"

definition less_severity :: "severity \<Rightarrow> severity \<Rightarrow> bool" where
  "less_severity s t \<longleftrightarrow> severity_index s < severity_index t"

instance
  by standard (auto simp: less_eq_severity_def less_severity_def)

end

lemma sorted_severity_order: "sorted severity_order"
  by (simp add: severity_order_def less_eq_severity_def)

subsection \<open>Findings\<close>

record finding_draft =
  d_severity :: severity
  d_category :: pystr
  d_file :: pystr
  d_line :: "int option"
  d_confidence :: rat
  d_title :: pystr
  d_rationale :: pystr

record finding =
  f_agent :: agent_type
  f_severity :: severity
  f_category :: pystr
  f_file :: pystr
  f_line :: "int option"
  f_confidence :: rat
  f_title :: pystr
  f_rationale :: pystr

definition confidence_ok :: "rat \<Rightarrow> bool" where
  "confidence_ok c \<longleftrightarrow> 0 \<le> c \<and> c \<le> 1"

definition valid_finding :: "finding \<Rightarrow> bool" where
  "valid_finding f \<longleftrightarrow> confidence_ok (f_confidence f)"

text \<open>Constructing a \<open>Finding\<close> validates it.\<close>

definition mk_finding :: "finding \<Rightarrow> exn + finding" where
  "mk_finding f = (if valid_finding f then Inr f else Inl (ValidationError (lit ''confidence'')))"

definition from_draft :: "finding_draft \<Rightarrow> agent_type \<Rightarrow> exn + finding" where
  "from_draft d a = mk_finding
     \<lparr>f_agent = a, f_severity = d_severity d, f_category = d_category d, f_file = d_file d,
      f_line = d_line d, f_confidence = d_confidence d, f_title = d_title d, f_rationale = d_rationale d\<rparr>"

definition valid_draft :: "finding_draft \<Rightarrow> bool" where
  "valid_draft d \<longleftrightarrow> confidence_ok (d_confidence d)"

text \<open>A list comprehension of \<open>Finding.from_draft\<close> raises at the first invalid element.\<close>

primrec map_result :: "('a \<Rightarrow> exn + 'b) \<Rightarrow> 'a list \<Rightarrow> exn + 'b list" where
  "map_result f [] = Inr []"
| "map_result f (x # xs) = (case f x of Inl e \<Rightarrow> Inl e
     | Inr y \<Rightarrow> (case map_result f xs of Inl e \<Rightarrow> Inl e | Inr ys \<Rightarrow> Inr (y # ys)))"

lemma map_result_Inr: "(\<And>x. x \<in> set xs \<Longrightarrow> f x = Inr (g x)) \<Longrightarrow> map_result f xs = Inr (map g xs)"
  by (induction xs) auto

lemma map_result_map: "map_result f (map h xs) = map_result (\<lambda>x. f (h x)) xs"
  by (induction xs) (auto split: sum.split)

lemma map_result_set:
  "map_result f xs = Inr ys \<Longrightarrow> y \<in> set ys \<Longrightarrow> \<exists>x \<in> set xs. f x = Inr y"
  by (induction xs arbitrary: ys) (auto split: sum.splits)

lemma map_result_length: "map_result f xs = Inr ys \<Longrightarrow> length ys = length xs"
  by (induction xs arbitrary: ys) (auto split: sum.splits)

lemma from_draft_Inr:
  "from_draft d a = Inr f \<Longrightarrow> valid_draft d \<and> valid_finding f \<and> f_agent f = a
    \<and> f_severity f = d_severity d \<and> f_file f = d_file d \<and> f_line f = d_line d
    \<and> f_confidence f = d_confidence d"
  by (auto simp: from_draft_def mk_finding_def valid_finding_def valid_draft_def split: if_splits)

lemma from_draft_valid: "valid_draft d \<Longrightarrow> \<exists>f. from_draft d a = Inr f"
  by (simp add: from_draft_def mk_finding_def valid_finding_def valid_draft_def)

end
