(* ===== verification/TruthStore.thy ===== *)
theory TruthStore
  imports Database Contracts
begin

text \<open>
  \<open>integrations/truth_store.py\<close>: the statements over \<open>pr_review_records\<close> and \<open>finding_records\<close>, and the
  methods that run them behind the store's \<open>Guard\<close>. \<open>num43\<close> is the rounding of a \<open>NUMERIC(4,3)\<close> column.
\<close>

record review_row =
  row_id :: uuid
  row_status :: pystr
  row_github_review_id :: "int option"

definition row_of :: "pr_review_record \<Rightarrow> review_row" where
  "row_of r = \<lparr>row_id = pr_id r, row_status = pr_status r, row_github_review_id = pr_github_review_id r\<rparr>"

definition find_delivery :: "pystr \<Rightarrow> tiger_db \<Rightarrow> pr_review_record option" where
  "find_delivery d db = find (\<lambda>r. pr_delivery r = d) (reviews db)"

definition find_review :: "uuid \<Rightarrow> tiger_db \<Rightarrow> pr_review_record option" where
  "find_review i db = find (\<lambda>r. pr_id r = i) (reviews db)"

definition update_reviews :: "(pr_review_record \<Rightarrow> bool) \<Rightarrow> (pr_review_record \<Rightarrow> pr_review_record)
    \<Rightarrow> tiger_db \<Rightarrow> tiger_db" where
  "update_reviews p g db = db\<lparr>reviews := map (\<lambda>r. if p r then g r else r) (reviews db)\<rparr>"

subsection \<open>The statements\<close>

definition upsert_review_sql :: "pystr \<Rightarrow> int \<Rightarrow> pystr \<Rightarrow> (tiger_db, review_row) stmt" where
  "upsert_review_sql repo n d db = (case find_delivery d db of
     Some r \<Rightarrow> (Inr (row_of r), update_reviews (\<lambda>r. pr_delivery r = d) (\<lambda>r. r\<lparr>pr_num := n\<rparr>) db)
   | None \<Rightarrow>
       (let r = \<lparr>pr_id = next_uuid db, pr_repo = repo, pr_num = n, pr_delivery = d,
                 pr_status = lit ''pending'', pr_confidence = None, pr_github_review_id = None,
                 pr_created_at = db_now db, pr_completed_at = None\<rparr>
        in (Inr (row_of r), db\<lparr>reviews := reviews db @ [r], next_uuid := Suc (next_uuid db)\<rparr>)))"

definition finding_row :: "(rat \<Rightarrow> rat) \<Rightarrow> uuid \<Rightarrow> finding \<Rightarrow> finding_record" where
  "finding_row num43 i f =
     \<lparr>fr_review_id = i, fr_agent_type = agent_value (f_agent f), fr_severity = severity_value (f_severity f),
      fr_category = f_category f, fr_summary = f_title f, fr_file_path = f_file f,
      fr_line_start = f_line f, fr_line_end = f_line f, fr_suggestion = None,
      fr_confidence = num43 (f_confidence f), fr_rationale = f_rationale f\<rparr>"

definition insert_no_conflict :: "finding_record \<Rightarrow> finding_record list \<Rightarrow> finding_record list" where
  "insert_no_conflict r rs = (if dedup_key r \<in> dedup_key ` set rs then rs else rs @ [r])"

text \<open>\<open>executemany\<close> is one transaction; the foreign key makes it fail for an unknown review.\<close>

definition insert_findings_sql :: "finding_record list \<Rightarrow> (tiger_db, unit) stmt" where
  "insert_findings_sql rows db =
     (if \<forall>r \<in> set rows. fr_review_id r \<in> pr_id ` set (reviews db)
      then (Inr (), db\<lparr>finding_rows := foldl (\<lambda>rs r. insert_no_conflict r rs) (finding_rows db) rows\<rparr>)
      else (Inl (PostgresError (lit ''foreign key'')), db))"

definition mark_posted_sql :: "(rat \<Rightarrow> rat) \<Rightarrow> uuid \<Rightarrow> int \<Rightarrow> rat \<Rightarrow> (tiger_db, unit) stmt" where
  "mark_posted_sql num43 i gid c db = (Inr (), update_reviews (\<lambda>r. pr_id r = i)
     (\<lambda>r. r\<lparr>pr_status := lit ''posted'', pr_github_review_id := Some gid,
            pr_confidence := Some (num43 c), pr_completed_at := Some (db_now db)\<rparr>) db)"

definition set_status_sql :: "(rat \<Rightarrow> rat) \<Rightarrow> uuid \<Rightarrow> pystr \<Rightarrow> rat \<Rightarrow> (tiger_db, unit) stmt" where
  "set_status_sql num43 i st c db = (Inr (), update_reviews (\<lambda>r. pr_id r = i)
     (\<lambda>r. r\<lparr>pr_status := st, pr_confidence := Some (num43 c), pr_completed_at := Some (db_now db)\<rparr>) db)"

definition get_review_sql :: "uuid \<Rightarrow> (tiger_db, (pystr \<times> int \<times> rat option) option) stmt" where
  "get_review_sql i db =
     (Inr (map_option (\<lambda>r. (pr_repo r, pr_num r, pr_confidence r)) (find_review i db)), db)"

definition get_findings_sql :: "uuid \<Rightarrow> (tiger_db, finding_record list) stmt" where
  "get_findings_sql i db = (Inr (filter (\<lambda>r. fr_review_id r = i) (finding_rows db)), db)"

subsection \<open>The methods\<close>

text \<open>\<open>TruthStore.__init__\<close>'s guard and breaker, and \<open>_run\<close>.\<close>

definition truth_conn :: "tiger_db remote rt \<Rightarrow> tiger_db conn" where
  "truth_conn w = (Some (db_breaker (lit ''tiger-truth'')), w)"

definition ts_run :: "pystr \<Rightarrow> (tiger_db, 'a) stmt \<Rightarrow> (tiger_db conn, 'a) io" where
  "ts_run name stmt = guarded (lit ''truth_store.'' @ name) stmt"

definition upsert_review :: "pystr \<Rightarrow> int \<Rightarrow> pystr \<Rightarrow> (tiger_db conn, review_row) io" where
  "upsert_review repo n d = ts_run (lit ''upsert_review'') (upsert_review_sql repo n d)"

definition insert_findings :: "(rat \<Rightarrow> rat) \<Rightarrow> uuid \<Rightarrow> finding list \<Rightarrow> (tiger_db conn, unit) io" where
  "insert_findings num43 i fs =
     (if fs = [] then ret ()
      else ts_run (lit ''insert_findings'') (insert_findings_sql (map (finding_row num43 i) fs)))"

definition mark_posted :: "(rat \<Rightarrow> rat) \<Rightarrow> uuid \<Rightarrow> int \<Rightarrow> rat \<Rightarrow> (tiger_db conn, unit) io" where
  "mark_posted num43 i gid c = ts_run (lit ''mark_posted'') (mark_posted_sql num43 i gid c)"

definition set_status :: "(rat \<Rightarrow> rat) \<Rightarrow> uuid \<Rightarrow> pystr \<Rightarrow> rat \<Rightarrow> (tiger_db conn, unit) io" where
  "set_status num43 i st c = ts_run (lit ''set_status'') (set_status_sql num43 i st c)"

record review_with_findings =
  rf_repo :: pystr
  rf_pr_number :: int
  rf_confidence :: "rat option"
  rf_findings :: "finding list"

definition finding_of_row :: "finding_record \<Rightarrow> exn + finding" where
  "finding_of_row r =
     (case agent_of (fr_agent_type r) of Inl e \<Rightarrow> Inl e
      | Inr a \<Rightarrow> (case severity_of (fr_severity r) of Inl e \<Rightarrow> Inl e
        | Inr s \<Rightarrow> mk_finding
            \<lparr>f_agent = a, f_severity = s, f_category = fr_category r, f_file = fr_file_path r,
             f_line = fr_line_start r, f_confidence = fl (fr_confidence r), f_title = fr_summary r,
             f_rationale = fr_rationale r\<rparr>))"

definition get_review_with_findings :: "uuid \<Rightarrow> (tiger_db conn, review_with_findings option) io" where
  "get_review_with_findings i =
     bind_io (ts_run (lit ''get_review'') (get_review_sql i)) (\<lambda>review.
       case review of
         None \<Rightarrow> ret None
       | Some (repo, n, c) \<Rightarrow>
           bind_io (ts_run (lit ''get_findings'') (get_findings_sql i)) (\<lambda>rows.
             bind_io (of_result (map_result finding_of_row rows)) (\<lambda>fs.
               ret (Some \<lparr>rf_repo = repo, rf_pr_number = n, rf_confidence = map_option fl c,
                          rf_findings = fs\<rparr>))))"

subsection \<open>Every write is idempotent\<close>

lemma find_map_same:
  "(\<And>r. p (if p r then g r else r) = p r) \<Longrightarrow>
    find p (map (\<lambda>r. if p r then g r else r) rs) = map_option g (find p rs)"
  by (induction rs) (auto split: if_splits)

lemma update_reviews_simps [simp]:
  "reviews (update_reviews p g db) = map (\<lambda>r. if p r then g r else r) (reviews db)"
  "finding_rows (update_reviews p g db) = finding_rows db"
  "hitl_rows (update_reviews p g db) = hitl_rows db"
  "agent_events (update_reviews p g db) = agent_events db"
  "code_chunks (update_reviews p g db) = code_chunks db"
  "repo_index_state (update_reviews p g db) = repo_index_state db"
  "next_uuid (update_reviews p g db) = next_uuid db"
  "db_now (update_reviews p g db) = db_now db"
  by (simp_all add: update_reviews_def)

lemma update_reviews_twice:
  assumes "\<And>r. p r \<Longrightarrow> p (g r) \<and> g (g r) = g r"
  shows "update_reviews p g (update_reviews p g db) = update_reviews p g db"
  using assms by (auto simp: update_reviews_def)

lemma idem_upsert: "idempotent_stmt (upsert_review_sql repo n d)"
proof -
  have "upsert_review_sql repo n d s' = (r, s')" if up: "upsert_review_sql repo n d s = (r, s')" for s r s'
  proof (cases "find_delivery d s")
    case (Some row)
    let ?p = "\<lambda>r. pr_delivery r = d" and ?g = "\<lambda>r. r\<lparr>pr_num := n\<rparr>"
    from up Some have s': "s' = update_reviews ?p ?g s" and r: "r = Inr (row_of row)"
      by (auto simp: upsert_review_sql_def)
    have "find_delivery d s' = Some (?g row)"
      using Some by (simp add: s' find_delivery_def find_map_same)
    moreover have "update_reviews ?p ?g s' = s'"
      unfolding s' by (rule update_reviews_twice) simp
    ultimately show ?thesis by (simp add: upsert_review_sql_def r row_of_def)
  next
    case None
    then have other: "r \<in> set (reviews s) \<Longrightarrow> pr_delivery r \<noteq> d" for r
      by (auto simp: find_delivery_def find_None_iff)
    then have "map (\<lambda>r. if pr_delivery r = d then r\<lparr>pr_num := n\<rparr> else r) (reviews s) = reviews s"
      by (auto intro: map_idI)
    moreover have "find (\<lambda>r. pr_delivery r = d) (reviews s @ [row]) = Some row" if "pr_delivery row = d" for row
      using that None by (simp add: find_snoc find_delivery_def)
    ultimately show ?thesis
      using up None by (auto simp: upsert_review_sql_def find_delivery_def Let_def update_reviews_def)
  qed
  then show ?thesis by (auto simp: idempotent_stmt_def)
qed

lemma keys_insert_fold:
  "dedup_key ` set (foldl (\<lambda>rs r. insert_no_conflict r rs) rs rows) = dedup_key ` set rs \<union> dedup_key ` set rows"
  by (induction rows arbitrary: rs) (auto simp: insert_no_conflict_def)

lemma insert_fold_noop:
  "dedup_key ` set rows \<subseteq> dedup_key ` set rs \<Longrightarrow> foldl (\<lambda>rs r. insert_no_conflict r rs) rs rows = rs"
  by (induction rows arbitrary: rs) (auto simp: insert_no_conflict_def)

lemma distinct_insert_fold:
  "distinct (map dedup_key rs) \<Longrightarrow> distinct (map dedup_key (foldl (\<lambda>rs r. insert_no_conflict r rs) rs rows))"
  by (induction rows arbitrary: rs) (auto simp: insert_no_conflict_def)

lemma set_insert_fold:
  "set (foldl (\<lambda>rs r. insert_no_conflict r rs) rs rows) \<subseteq> set rs \<union> set rows"
proof (induction rows arbitrary: rs)
  case (Cons a rows)
  from Cons.IH [of "insert_no_conflict a rs"] show ?case
    by (auto simp: insert_no_conflict_def split: if_splits)
qed simp

lemma insert_fold_fresh:
  assumes "distinct (map dedup_key rows)" "dedup_key ` set rows \<inter> dedup_key ` set rs = {}"
  shows "foldl (\<lambda>rs r. insert_no_conflict r rs) rs rows = rs @ rows"
  using assms by (induction rows arbitrary: rs) (auto simp: insert_no_conflict_def)

lemma idem_insert_findings: "idempotent_stmt (insert_findings_sql rows)"
  by (auto simp: idempotent_stmt_def insert_findings_sql_def keys_insert_fold insert_fold_noop
      split: if_splits)

lemma idem_mark_posted: "idempotent_stmt (mark_posted_sql num43 i gid c)"
  by (auto simp: idempotent_stmt_def mark_posted_sql_def update_reviews_def)

lemma idem_set_status: "idempotent_stmt (set_status_sql num43 i st c)"
  by (auto simp: idempotent_stmt_def set_status_sql_def update_reviews_def)

lemmas truth_idempotent = idem_upsert idem_insert_findings idem_mark_posted idem_set_status

subsection \<open>The constraints are kept\<close>

lemma map_update_same:
  "(\<And>r. h (g r) = h r) \<Longrightarrow> map h (map (\<lambda>r. if p r then g r else r) rs) = map h rs"
  by simp

lemma wf_update_reviews:
  assumes "wf_db db" and "\<And>r. pr_id (g r) = pr_id r" "\<And>r. pr_delivery (g r) = pr_delivery r"
  shows "wf_db (update_reviews p g db)"
proof -
  have ids: "map pr_id (map (\<lambda>r. if p r then g r else r) (reviews db)) = map pr_id (reviews db)"
    and ds: "map pr_delivery (map (\<lambda>r. if p r then g r else r) (reviews db)) = map pr_delivery (reviews db)"
    using assms(2,3) by simp_all
  then have "pr_id ` set (map (\<lambda>r. if p r then g r else r) (reviews db)) = pr_id ` set (reviews db)"
    by (metis list.set_map)
  then show ?thesis
    using assms(1) ids ds by (auto simp: wf_db_def assms(2) simp del: map_map)
qed

lemma wf_upsert:
  assumes wf: "wf_db db"
  shows "wf_db (snd (upsert_review_sql repo n d db))"
proof (cases "find_delivery d db")
  case None
  then have "d \<notin> pr_delivery ` set (reviews db)"
    by (auto simp: find_delivery_def find_None_iff)
  with None wf show ?thesis
    by (auto simp: upsert_review_sql_def Let_def wf_db_def less_Suc_eq)
next
  case (Some r)
  with wf show ?thesis by (simp add: upsert_review_sql_def wf_update_reviews)
qed

lemma wf_insert_findings:
  assumes wf: "wf_db db"
  shows "wf_db (snd (insert_findings_sql rows db))"
  using wf set_insert_fold [of "finding_rows db" rows]
  by (auto simp: insert_findings_sql_def wf_db_def intro: distinct_insert_fold)

lemma wf_mark_posted: "wf_db db \<Longrightarrow> wf_db (snd (mark_posted_sql num43 i gid c db))"
  by (simp add: mark_posted_sql_def wf_update_reviews)

lemma wf_set_status: "wf_db db \<Longrightarrow> wf_db (snd (set_status_sql num43 i st c db))"
  by (simp add: set_status_sql_def wf_update_reviews)

subsection \<open>Lookup after insert\<close>

text \<open>What is left of a finding after the \<open>NUMERIC(4,3)\<close> column.\<close>

definition stored_finding :: "(rat \<Rightarrow> rat) \<Rightarrow> finding \<Rightarrow> finding" where
  "stored_finding num43 f = f\<lparr>f_confidence := fl (num43 (f_confidence f))\<rparr>"

lemma finding_of_finding_row:
  "confidence_ok (fl (num43 (f_confidence f))) \<Longrightarrow>
    finding_of_row (finding_row num43 i f) = Inr (stored_finding num43 f)"
  by (cases f) (simp add: finding_of_row_def finding_row_def stored_finding_def mk_finding_def valid_finding_def)

definition storable :: "(rat \<Rightarrow> rat) \<Rightarrow> bool" where
  "storable num43 \<longleftrightarrow> (\<forall>c. confidence_ok c \<longrightarrow> confidence_ok (num43 c))"

lemma confidence_ok_fl: "confidence_ok c \<Longrightarrow> confidence_ok (fl c)"
  using fl_unit [of c] by (simp add: confidence_ok_def)

subsection \<open>Samples, for evaluation\<close>

definition sample_db :: tiger_db where
  "sample_db = snd (upsert_review_sql (lit ''o/r'') 7 (lit ''d1'') empty_db)"

definition sample_findings :: "finding list" where
  "sample_findings = map (\<lambda>a. \<lparr>f_agent = a, f_severity = HIGH, f_category = lit ''c'', f_file = lit ''a.py'',
     f_line = Some 3, f_confidence = 1 / 2, f_title = lit ''t'', f_rationale = lit ''r''\<rparr>) [SECURITY, DOCS]"

lemmas sample_truth_defs = sample_db_def sample_findings_def upsert_review_sql_def find_delivery_def empty_db_def Let_def

subsection \<open>Properties\<close>



text \<open>C18. \<open>insert_findings\<close> behind its guard writes each finding once in effect, under any pattern of
  lost connections, lost replies and timeouts: the findings table is the old one or the one a
  single fault-free insert leaves, and it is the latter whenever the call returns.\<close>

theorem insert_findings_exactly_once:
  assumes "insert_findings num43 i fs c = (r, c')" and "fs \<noteq> []"
  shows "conn_db c' \<in> {conn_db c, snd (insert_findings_sql (map (finding_row num43 i) fs) (conn_db c))}
    \<and> (r = Inr () \<longrightarrow> insert_findings_sql (map (finding_row num43 i) fs) (conn_db c) = (Inr (), conn_db c'))"
proof -
  have run: "guarded (lit ''truth_store.'' @ lit ''insert_findings'')
      (insert_findings_sql (map (finding_row num43 i) fs)) c = (r, c')"
    using assms by (simp add: insert_findings_def ts_run_def)
  show ?thesis
    using guarded_idempotent [OF idem_insert_findings run] by blast
qed

text \<open>A connection whose first attempt loses the reply of a statement that ran.\<close>

definition lossy_conn :: "tiger_db conn" where
  "lossy_conn = truth_conn \<lparr>clock = 0, slept = [], dep = \<lparr>script =
     [\<lparr>ft_dur = 1, ft_exn = Some (PostgresConnectionError (lit ''reset'')), ft_applied = True\<rparr>],
     store = sample_db\<rparr>\<rparr>"

theorem insert_findings_exactly_once_witness:
  "let run = insert_findings (\<lambda>c. c) 0 sample_findings lossy_conn;
       stmt = insert_findings_sql (map (finding_row (\<lambda>c. c) 0) sample_findings)
   in fst run = Inr () \<and> stmt (conn_db lossy_conn) = (Inr (), conn_db (snd run))"
proof -
  have r: "fst (insert_findings (\<lambda>c. c) 0 sample_findings lossy_conn) = Inr ()"
    by (simp add: insert_findings_def ts_run_def guarded_def guard_call_def lossy_conn_def truth_conn_def db_breaker_def
        make_breaker_def before_call_def state_of_def retry_async_def retry_loop.simps guard_attempt_def db_guard_def
        guard_defaults_def with_timeout_def remote_op_def insert_findings_sql_def sample_truth_defs finding_row_def
        DB_COMMAND_TIMEOUT_SECONDS_def DEFAULT_ATTEMPTS_def sleep_def)
  moreover have "sample_findings \<noteq> []" by (simp add: sample_findings_def)
  ultimately show ?thesis
    using insert_findings_exactly_once [of "\<lambda>c. c" 0 sample_findings lossy_conn, OF prod.collapse [symmetric]]
    unfolding Let_def by blast
qed

end
