(* ===== verification/ContextRetriever.thy ===== *)
theory ContextRetriever
  imports TruthStore
begin

text \<open>
  \<open>memory/context_retriever.py\<close>: query embedding and hybrid retrieval over \<open>code_chunks\<close>. The vector
  distance, the full-text match and rank, and the \<open>NUMERIC\<close> division \<open>1.0 / n\<close> are parameters. Chunks are
  identified by the key of their unique index. Rows the database may order either way keep table order.
\<close>

definition EMBEDDING_DIMENSIONS :: nat where "EMBEDDING_DIMENSIONS = 256"
definition RRF_K :: nat where "RRF_K = 60"
definition MAX_QUERY_CHARS :: nat where "MAX_QUERY_CHARS = 8000"

record retrieved_chunk =
  rc_path :: pystr
  rc_content :: pystr
  rc_score :: rat

subsection \<open>_HYBRID_QUERY\<close>

record ranking =
  rk_distance :: "rat list \<Rightarrow> rat list \<Rightarrow> rat"
  rk_matches :: "pystr \<Rightarrow> pystr \<Rightarrow> bool"
  rk_text :: "pystr \<Rightarrow> pystr \<Rightarrow> rat"
  rk_recip :: "nat \<Rightarrow> rat"

definition chunk_key :: "chunk_row \<Rightarrow> pystr \<times> pystr \<times> nat" where
  "chunk_key c = (ck_repo c, ck_path c, ck_index c)"

definition repo_chunks :: "pystr \<Rightarrow> tiger_db \<Rightarrow> chunk_row list" where
  "repo_chunks repo db = filter (\<lambda>c. ck_repo c = repo) (code_chunks db)"

definition vector_ranked :: "ranking \<Rightarrow> rat list \<Rightarrow> nat \<Rightarrow> chunk_row list \<Rightarrow> chunk_row list" where
  "vector_ranked rk q k rows = take k (sort_key (\<lambda>c. rk_distance rk (ck_embedding c) q) rows)"

definition fts_ranked :: "ranking \<Rightarrow> pystr \<Rightarrow> nat \<Rightarrow> chunk_row list \<Rightarrow> chunk_row list" where
  "fts_ranked rk query k rows = take k (sort_key (\<lambda>c. - rk_text rk (ck_content c) query)
     (filter (\<lambda>c. rk_matches rk (ck_content c) query) rows))"

text \<open>\<open>row_number()\<close> of a chunk in a ranked list, from 1; \<open>COALESCE(rank, 1000000)\<close> off it.\<close>

primrec rank_in :: "nat \<Rightarrow> chunk_row \<Rightarrow> chunk_row list \<Rightarrow> nat" where
  "rank_in n c [] = 1000000"
| "rank_in n c (d # ds) = (if chunk_key d = chunk_key c then n else rank_in (Suc n) c ds)"

definition rrf_score :: "ranking \<Rightarrow> chunk_row list \<Rightarrow> chunk_row list \<Rightarrow> chunk_row \<Rightarrow> rat" where
  "rrf_score rk v f c = rk_recip rk (RRF_K + rank_in 1 c v) + rk_recip rk (RRF_K + rank_in 1 c f)"

text \<open>The full outer join.\<close>

definition joined :: "chunk_row list \<Rightarrow> chunk_row list \<Rightarrow> chunk_row list" where
  "joined v f = v @ filter (\<lambda>c. chunk_key c \<notin> chunk_key ` set v) f"

definition hybrid_ranked :: "ranking \<Rightarrow> rat list \<Rightarrow> pystr \<Rightarrow> nat \<Rightarrow> pystr \<Rightarrow> tiger_db \<Rightarrow> (chunk_row \<times> rat) list" where
  "hybrid_ranked rk q repo k query db =
     (let rows = repo_chunks repo db; v = vector_ranked rk q k rows; f = fts_ranked rk query k rows
      in take k (sort_key (\<lambda>p. - snd p) (map (\<lambda>c. (c, rrf_score rk v f c)) (joined v f))))"

definition hybrid_sql :: "ranking \<Rightarrow> rat list \<Rightarrow> pystr \<Rightarrow> int \<Rightarrow> pystr \<Rightarrow> (tiger_db, retrieved_chunk list) stmt" where
  "hybrid_sql rk q repo k query db =
     (if k < 0 then (Inl (PostgresError (lit ''LIMIT must not be negative'')), db)
      else (Inr (map (\<lambda>(c, s). \<lparr>rc_path = ck_path c, rc_content = ck_content c, rc_score = s\<rparr>)
                   (hybrid_ranked rk q repo (nat k) query db)), db))"

subsection \<open>ContextRetriever\<close>

text \<open>The two guards of a retriever: the embeddings endpoint, one attempt, and the pool.\<close>

record 'e retriever =
  rt_embed :: "breaker option \<times> 'e rt"
  rt_pool :: "tiger_db conn"

definition embed_guard :: guard_cfg where
  "embed_guard = guard_defaults\<lparr>g_attempts := 1, g_timeout := Some LLM_TIMEOUT_SECONDS\<rparr>"

definition retriever_init :: "'e rt \<Rightarrow> tiger_db remote rt \<Rightarrow> 'e retriever" where
  "retriever_init e w = \<lparr>rt_embed = (Some (db_breaker (lit ''openai-embeddings'')), e),
     rt_pool = (Some (db_breaker (lit ''tiger-retrieval'')), w)\<rparr>"

definition or_space :: "pystr \<Rightarrow> pystr" where
  "or_space s = (if s = [] then lit '' '' else s)"

definition embed :: "(pystr \<Rightarrow> ('e, rat list) op) \<Rightarrow> pystr \<Rightarrow> ('e retriever, rat list) io" where
  "embed api query = zoom rt_embed (\<lambda>s w. w\<lparr>rt_embed := s\<rparr>)
     (guard_call embed_guard (api (or_space (take MAX_QUERY_CHARS query))) (lit ''context_retriever.embed''))"

definition retrieve :: "(pystr \<Rightarrow> ('e, rat list) op) \<Rightarrow> ranking \<Rightarrow> pystr \<Rightarrow> pystr \<Rightarrow> int
    \<Rightarrow> ('e retriever, retrieved_chunk list) io" where
  "retrieve api rk repo query k =
     bind_io (embed api query) (\<lambda>q. zoom rt_pool (\<lambda>s w. w\<lparr>rt_pool := s\<rparr>)
       (guarded (lit ''context_retriever.retrieve'') (hybrid_sql rk q repo k (or_space (take 2000 query)))))"

subsection \<open>What retrieval returns\<close>

lemma sorted_wrt_take_rest:
  assumes "sorted_wrt R xs" "x \<in> set (take k xs)" "y \<in> set (drop k xs)"
  shows "R x y"
  using assms by (metis append_take_drop_id sorted_wrt_append)

lemma set_sort_take: "set (take k (sort_key f xs)) \<subseteq> set xs"
  by (metis set_sort set_take_subset)

lemma distinct_sort_take: "distinct (map g xs) \<Longrightarrow> distinct (map g (take k (sort_key f xs)))"
  by (metis distinct_map distinct_take distinct_sort inj_on_subset set_sort_take)

lemma distinct_joined:
  "distinct (map chunk_key v) \<Longrightarrow> distinct (map chunk_key f) \<Longrightarrow> distinct (map chunk_key (joined v f))"
  by (auto simp: joined_def distinct_map inj_on_subset)

lemma rank_in_bounds: "n \<le> rank_in n c xs \<or> rank_in n c xs = 1000000"
  by (induction xs arbitrary: n) (auto intro: Suc_leD)

lemma distinct_repo_chunks: "wf_db db \<Longrightarrow> distinct (map chunk_key (repo_chunks repo db))"
proof -
  assume "wf_db db"
  then have "distinct (map chunk_key (code_chunks db))" by (simp add: wf_db_def chunk_key_def [abs_def])
  then show ?thesis unfolding repo_chunks_def by (rule distinct_map_filter)
qed

lemma hybrid_ranked_facts:
  fixes rk :: ranking and q :: "rat list" and repo query :: pystr and k :: nat
  assumes wf: "wf_db db"
  defines "rows \<equiv> repo_chunks repo db"
  defines "v \<equiv> vector_ranked rk q k rows" and "f \<equiv> fts_ranked rk query k rows"
  defines "res \<equiv> hybrid_ranked rk q repo k query db"
  shows "length res = min k (length rows) \<and> set (map fst res) \<subseteq> set rows \<and> distinct (map (chunk_key \<circ> fst) res) \<and>
    sorted_wrt (\<lambda>a b. snd b \<le> snd a) res \<and>
    (\<forall>p \<in> set res. \<forall>c \<in> set v \<union> set f - set (map fst res). rrf_score rk v f c \<le> snd p)"
proof (intro conjI)
  let ?all = "map (\<lambda>c. (c, rrf_score rk v f c)) (joined v f)"
  let ?s = "sort_key (\<lambda>p. - snd p) ?all"
  have res: "res = take k ?s" by (simp add: res_def hybrid_ranked_def Let_def rows_def v_def f_def)
  have dist: "distinct (map chunk_key rows)" unfolding rows_def by (rule distinct_repo_chunks [OF wf])
  have v: "set v \<subseteq> set rows" "distinct (map chunk_key v)" "length v = min k (length rows)"
    unfolding v_def vector_ranked_def by (rule set_sort_take, rule distinct_sort_take[OF dist], simp)
  have f: "distinct (map chunk_key f)"
    unfolding f_def fts_ranked_def by (intro distinct_sort_take distinct_map_filter dist)
  have "set f \<subseteq> set (filter (\<lambda>c. rk_matches rk (ck_content c) query) rows)"
    unfolding f_def fts_ranked_def by (rule set_sort_take)
  then have fs: "set f \<subseteq> set rows" by auto
  have j: "set (joined v f) \<subseteq> set rows" "distinct (map chunk_key (joined v f))"
    using v f fs distinct_joined by (auto simp: joined_def)
  have len: "length (joined v f) \<le> length rows"
    by (metis j distinct_card distinct_map card_mono finite_set length_map dist)
  show "length res = min k (length rows)"
    using len v(3) by (simp add: res joined_def)
  show "set (map fst res) \<subseteq> set rows"
    using j(1) set_sort_take[of k "\<lambda>p. - snd p" ?all] by (auto simp: res)
  have "distinct (map (chunk_key \<circ> fst) ?all)" using j(2) by (simp add: comp_def)
  then show "distinct (map (chunk_key \<circ> fst) res)" unfolding res by (rule distinct_sort_take)
  have sorted: "sorted_wrt (\<lambda>a b. snd b \<le> snd a) ?s"
    using sorted_sort_key[of "\<lambda>p. - snd p" ?all] by (simp add: sorted_map)
  then show "sorted_wrt (\<lambda>a b. snd b \<le> snd a) res" unfolding res by (rule sorted_wrt_take)
  show "\<forall>p \<in> set res. \<forall>c \<in> set v \<union> set f - set (map fst res). rrf_score rk v f c \<le> snd p"
  proof (intro ballI)
    fix p c assume p: "p \<in> set res" and c: "c \<in> set v \<union> set f - set (map fst res)"
    have "c \<in> set (joined v f)"
      using c v(1) fs dist by (auto simp: joined_def distinct_map dest: inj_onD)
    then have "(c, rrf_score rk v f c) \<in> set ?s" by simp
    moreover have "(c, rrf_score rk v f c) \<notin> set res" using c by force
    ultimately have "(c, rrf_score rk v f c) \<in> set (drop k ?s)"
      unfolding res by (metis Un_iff append_take_drop_id set_append)
    then show "rrf_score rk v f c \<le> snd p"
      using sorted_wrt_take_rest[OF sorted, of p k "(c, rrf_score rk v f c)"] p unfolding res by simp
  qed
qed

text \<open>C30. Hybrid retrieval over a well-formed database returns exactly \<open>min k n\<close> of the repository's \<open>n\<close>
  chunks, each once, in descending order of the fused score, and no candidate of either ranking that is
  left out scores above one that is returned.\<close>

theorem hybrid_retrieval_spec:
  assumes "wf_db db"
  shows "let rows = repo_chunks repo db; v = vector_ranked rk q k rows; f = fts_ranked rk query k rows;
             res = hybrid_ranked rk q repo k query db
    in length res = min k (length rows) \<and> set (map fst res) \<subseteq> set rows \<and> distinct (map (chunk_key \<circ> fst) res) \<and>
       sorted_wrt (\<lambda>a b. snd b \<le> snd a) res \<and>
       (\<forall>p \<in> set res. \<forall>c \<in> set v \<union> set f - set (map fst res). rrf_score rk v f c \<le> snd p)"
  unfolding Let_def by (rule hybrid_ranked_facts [OF assms])

definition sample_ranking :: ranking where
  "sample_ranking = \<lparr>rk_distance = (\<lambda>a b. \<bar>hd a - hd b\<bar>), rk_matches = py_contains,
     rk_text = (\<lambda>c q. rat_of_nat (length c)), rk_recip = (\<lambda>n. 1 / rat_of_nat n)\<rparr>"

definition sample_chunk :: "string \<Rightarrow> nat \<Rightarrow> string \<Rightarrow> rat \<Rightarrow> chunk_row" where
  "sample_chunk p i s e = \<lparr>ck_repo = lit ''o/r'', ck_path = lit p, ck_symbol = None, ck_index = i,
     ck_content = lit s, ck_embedding = [e], ck_token_count = 1, ck_updated_at = 0\<rparr>"

definition sample_index :: tiger_db where
  "sample_index = empty_db\<lparr>code_chunks :=
     [sample_chunk ''a.py'' 0 ''x=1'' 5, sample_chunk ''a.py'' 1 ''eval'' 2, sample_chunk ''b.py'' 0 ''y'' 1]\<rparr>"

theorem hybrid_retrieval_spec_witness:
  "length (hybrid_ranked sample_ranking [0] (lit ''o/r'') 2 (lit ''eval'') sample_index) = 2 \<and>
   map (rc_path \<circ> (\<lambda>(c, s). \<lparr>rc_path = ck_path c, rc_content = ck_content c, rc_score = s\<rparr>))
     (hybrid_ranked sample_ranking [0] (lit ''o/r'') 2 (lit ''eval'') sample_index) = [lit ''a.py'', lit ''b.py'']"
proof -
  have wf: "wf_db sample_index"
    by (simp add: wf_db_def sample_index_def sample_chunk_def empty_db_def)
  have n: "length (repo_chunks (lit ''o/r'') sample_index) = 3"
    by (simp add: repo_chunks_def sample_index_def sample_chunk_def)
  have "map (rc_path \<circ> (\<lambda>(c, s). \<lparr>rc_path = ck_path c, rc_content = ck_content c, rc_score = s\<rparr>))
     (hybrid_ranked sample_ranking [0] (lit ''o/r'') 2 (lit ''eval'') sample_index) = [lit ''a.py'', lit ''b.py'']"
    by (simp add: hybrid_ranked_def Let_def repo_chunks_def sample_index_def sample_chunk_def vector_ranked_def fts_ranked_def
        sample_ranking_def joined_def rrf_score_def chunk_key_def RRF_K_def lit_def py_startswith_def)
  then show ?thesis
    using hybrid_retrieval_spec [OF wf, of "lit ''o/r''" sample_ranking "[0]" 2 "lit ''eval''"] n
    by (simp add: Let_def)
qed

end
