(* ===== verification/RepoStatus.thy ===== *)
theory RepoStatus
  imports Database
begin

text \<open>
  The rows of \<open>repo_index_state\<close>: \<open>ingestion/repo_status.py\<close> marks a repository pending when a webhook
  arrives, \<open>ingestion/indexer.py\<close> marks it done or failed. All three are upserts on the primary key.
\<close>

definition upsert_state :: "pystr \<Rightarrow> repo_state_row \<Rightarrow> (repo_state_row \<Rightarrow> repo_state_row) \<Rightarrow> tiger_db \<Rightarrow> tiger_db" where
  "upsert_state repo new g db =
     (if repo \<in> rs_repo ` set (repo_index_state db)
      then db\<lparr>repo_index_state := map (\<lambda>r. if rs_repo r = repo then g r else r) (repo_index_state db)\<rparr>
      else db\<lparr>repo_index_state := repo_index_state db @ [new]\<rparr>)"

definition mark_pending_sql :: "pystr \<Rightarrow> (tiger_db, unit) stmt" where
  "mark_pending_sql repo db = (Inr (), upsert_state repo
     \<lparr>rs_repo = repo, rs_commit = None, rs_indexed_at = db_now db, rs_chunk_count = 0,
      rs_status = lit ''pending'', rs_error = None\<rparr>
     (\<lambda>r. r\<lparr>rs_status := lit ''pending''\<rparr>) db)"

definition mark_failed_sql :: "pystr \<Rightarrow> pystr \<Rightarrow> (tiger_db, unit) stmt" where
  "mark_failed_sql repo err db = (Inr (), upsert_state repo
     \<lparr>rs_repo = repo, rs_commit = None, rs_indexed_at = db_now db, rs_chunk_count = 0,
      rs_status = lit ''failed'', rs_error = Some err\<rparr>
     (\<lambda>r. r\<lparr>rs_status := lit ''failed'', rs_error := Some err\<rparr>) db)"

definition index_done_sql :: "pystr \<Rightarrow> pystr \<Rightarrow> nat \<Rightarrow> (tiger_db, unit) stmt" where
  "index_done_sql repo sha n db = (Inr (), upsert_state repo
     \<lparr>rs_repo = repo, rs_commit = Some sha, rs_indexed_at = db_now db, rs_chunk_count = n,
      rs_status = lit ''done'', rs_error = None\<rparr>
     (\<lambda>r. r\<lparr>rs_commit := Some sha, rs_indexed_at := db_now db, rs_chunk_count := n,
            rs_status := lit ''done'', rs_error := None\<rparr>) db)"

text \<open>\<open>RepoStatusStore.mark_pending\<close> runs on the bare pool.\<close>

definition mark_pending :: "pystr \<Rightarrow> (tiger_db conn, unit) io" where
  "mark_pending repo = unguarded (mark_pending_sql repo)"

definition repo_state :: "tiger_db \<Rightarrow> pystr \<Rightarrow> repo_state_row option" where
  "repo_state db repo = find (\<lambda>r. rs_repo r = repo) (repo_index_state db)"

lemma upsert_state_frame [simp]:
  "reviews (upsert_state repo new g db) = reviews db"
  "finding_rows (upsert_state repo new g db) = finding_rows db"
  "hitl_rows (upsert_state repo new g db) = hitl_rows db"
  "agent_events (upsert_state repo new g db) = agent_events db"
  "code_chunks (upsert_state repo new g db) = code_chunks db"
  "next_uuid (upsert_state repo new g db) = next_uuid db"
  "db_now (upsert_state repo new g db) = db_now db"
  by (simp_all add: upsert_state_def)

text \<open>Lookup after upsert.\<close>

lemma repo_state_upsert:
  assumes "\<And>r. rs_repo (g r) = rs_repo r" and "rs_repo new = repo"
  shows "repo_state (upsert_state repo new g db) repo' =
    (if repo' = repo then Some (case repo_state db repo of None \<Rightarrow> new | Some r \<Rightarrow> g r) else repo_state db repo')"
proof (cases "repo \<in> rs_repo ` set (repo_index_state db)")
  case True
  have "repo_state (upsert_state repo new g db) repo' =
      map_option (\<lambda>r. if rs_repo r = repo then g r else r) (repo_state db repo')"
    using True by (simp add: upsert_state_def repo_state_def find_update assms)
  moreover have "repo_state db repo' = Some r \<Longrightarrow> rs_repo r = repo'" for r repo'
    unfolding repo_state_def by (drule find_Some_set) simp
  moreover obtain r where "repo_state db repo = Some r"
    using True by (fastforce simp: repo_state_def find_None_iff)
  ultimately show ?thesis by (cases "repo_state db repo'") auto
next
  case False
  then have "repo_state db repo = None" by (auto simp: repo_state_def find_None_iff)
  with False show ?thesis
    by (auto simp: upsert_state_def repo_state_def find_snoc assms split: option.splits)
qed

lemma wf_upsert_state:
  assumes "wf_db db" and g: "\<And>r. rs_repo (g r) = rs_repo r" and "rs_repo new = repo"
  shows "wf_db (upsert_state repo new g db)"
proof -
  have "map rs_repo (map (\<lambda>r. if rs_repo r = repo then g r else r) (repo_index_state db)) =
      map rs_repo (repo_index_state db)"
    using g by simp
  then show ?thesis using assms unfolding upsert_state_def wf_db_def
    by (auto simp del: map_map)
qed

lemma wf_mark_pending: "wf_db db \<Longrightarrow> wf_db (snd (mark_pending_sql repo db))"
  and wf_mark_failed: "wf_db db \<Longrightarrow> wf_db (snd (mark_failed_sql repo err db))"
  and wf_index_done: "wf_db db \<Longrightarrow> wf_db (snd (index_done_sql repo sha n db))"
  by (simp_all add: mark_pending_sql_def mark_failed_sql_def index_done_sql_def wf_upsert_state)

end
