(* ===== verification/Indexing.thy ===== *)
theory Indexing
  imports Chunker ContextRetriever RepoStatus JobQueue
begin

text \<open>
  \<open>ingestion/source_fetcher.py\<close>, \<open>ingestion/indexer.py\<close> and the two indexing jobs of
  \<open>job_queue/arq_worker.py\<close>. GitHub, the temporary directory and the archive's contents are parameters over
  a state \<open>'s\<close>; \<open>_write\<close> is one transaction on \<open>code_chunks\<close> and \<open>repo_index_state\<close>.
\<close>

subsection \<open>source_fetcher.py\<close>

record fetched_source =
  fs_dir :: path
  fs_tree :: tree
  fs_sha :: pystr

record ('s, 'e) indexer =
  xi_head :: "pystr \<Rightarrow> pystr \<Rightarrow> ('s, pystr) io"
  xi_download :: "pystr \<Rightarrow> pystr \<Rightarrow> ('s, pystr) io"
  xi_mkdtemp :: "('s, path) io"
  xi_members :: "pystr \<Rightarrow> exn + pystr list"
  xi_extract :: "pystr \<Rightarrow> path \<Rightarrow> ('s, (pystr \<times> tree option) list) io"
  xi_rmtree :: "path \<Rightarrow> 's \<Rightarrow> 's"
  xi_embeddings :: "pystr \<Rightarrow> ('e, rat list) op"
  xi_word :: "nat \<Rightarrow> bool"

text \<open>\<open>(dest / name).resolve()\<close> in a directory without links.\<close>

definition resolve_step :: "path \<Rightarrow> pystr \<Rightarrow> path" where
  "resolve_step p part = (if part = [] \<or> part = lit ''.'' then p else if part = lit ''..'' then butlast p else p @ [part])"

definition resolve_member :: "path \<Rightarrow> pystr \<Rightarrow> path" where
  "resolve_member dest name = foldl resolve_step (if py_startswith name (lit ''/'') then [] else dest) (split_on 47 name)"

definition is_within :: "path \<Rightarrow> path \<Rightarrow> bool" where
  "is_within base target \<longleftrightarrow> take (length base) target = base"

primrec check_members :: "path \<Rightarrow> pystr list \<Rightarrow> exn + unit" where
  "check_members dest [] = Inr ()"
| "check_members dest (name # names) =
     (if is_within dest (resolve_member dest name) then check_members dest names
      else Inl (ValueError (lit ''tarball member escapes extraction root: '' @ name)))"

definition safe_extract :: "('s, 'e) indexer \<Rightarrow> pystr \<Rightarrow> path \<Rightarrow> ('s, (pystr \<times> tree option) list) io" where
  "safe_extract x bytes dest =
     bind_io (of_result (xi_members x bytes)) (\<lambda>names.
       bind_io (of_result (check_members dest names)) (\<lambda>_. xi_extract x bytes dest))"

definition fetch_tarball :: "('s, 'e) indexer \<Rightarrow> pystr \<Rightarrow> pystr \<Rightarrow> ('s, fetched_source) io" where
  "fetch_tarball x repo ref =
     bind_io (xi_head x repo ref) (\<lambda>sha.
     bind_io (xi_download x repo sha) (\<lambda>bytes.
     bind_io (xi_mkdtemp x) (\<lambda>dir.
     bind_io (safe_extract x bytes dir) (\<lambda>entries.
       case List.map_filter snd entries of
         [tr] \<Rightarrow> ret \<lparr>fs_dir = dir, fs_tree = tr, fs_sha = sha\<rparr>
       | roots \<Rightarrow> raise (ValueError (lit ''expected exactly one top-level dir in tarball, found '' @ dec_nat (length roots)))))))"

subsection \<open>Indexer\<close>

record changed_files =
  cg_added :: "pystr list"
  cg_modified :: "pystr list"
  cg_removed :: "pystr list"

definition to_reembed :: "changed_files \<Rightarrow> pystr set" where
  "to_reembed c = set (cg_added c) \<union> set (cg_modified c)"

record index_result =
  ir_repo :: pystr
  ir_sha :: pystr
  ir_chunk_count :: nat
  ir_files_embedded :: nat

record ('s, 'e) ix_world =
  ix_pool :: "tiger_db conn"
  ix_embeddings :: "breaker option \<times> 'e rt"
  ix_source :: 's

definition indexer_init :: "tiger_db remote rt \<Rightarrow> 'e rt \<Rightarrow> 's \<Rightarrow> ('s, 'e) ix_world" where
  "indexer_init w e s = \<lparr>ix_pool = (Some (db_breaker (lit ''tiger-ingestion'')), w),
     ix_embeddings = (Some (db_breaker (lit ''openai-ingestion-embeddings'')), e), ix_source = s\<rparr>"

definition MAX_EMBED_CHARS :: nat where "MAX_EMBED_CHARS = 8000"

definition on_source :: "('s, 'a) io \<Rightarrow> (('s, 'e) ix_world, 'a) io" where
  "on_source m = zoom ix_source (\<lambda>s w. w\<lparr>ix_source := s\<rparr>) m"

definition on_pool :: "(tiger_db conn, 'a) io \<Rightarrow> (('s, 'e) ix_world, 'a) io" where
  "on_pool m = zoom ix_pool (\<lambda>c w. w\<lparr>ix_pool := c\<rparr>) m"

definition ix_embed :: "('s, 'e) indexer \<Rightarrow> pystr \<Rightarrow> (('s, 'e) ix_world, rat list) io" where
  "ix_embed x s = zoom ix_embeddings (\<lambda>c w. w\<lparr>ix_embeddings := c\<rparr>)
     (guard_call embed_guard (xi_embeddings x (or_space (take MAX_EMBED_CHARS s))) (lit ''ingestion.indexer.embed''))"

definition embed_chunks :: "('s, 'e) indexer \<Rightarrow> chunk list \<Rightarrow> (('s, 'e) ix_world, (chunk \<times> rat list) list) io" where
  "embed_chunks x cs = map_io (\<lambda>c. bind_io (ix_embed x (ch_content c)) (\<lambda>v. ret (c, v))) cs"

text \<open>\<open>len(content.split())\<close>.\<close>

fun count_words :: "bool \<Rightarrow> pystr \<Rightarrow> nat" where
  "count_words inside [] = 0"
| "count_words inside (c # s) = (if is_space c then count_words False s
     else (if inside then 0 else 1) + count_words True s)"

definition chunk_row_of :: "pystr \<Rightarrow> rat \<Rightarrow> chunk \<times> rat list \<Rightarrow> chunk_row" where
  "chunk_row_of repo now e = (case e of (c, v) \<Rightarrow>
     \<lparr>ck_repo = repo, ck_path = ch_path c, ck_symbol = ch_symbol c, ck_index = ch_index c, ck_content = ch_content c,
      ck_embedding = v, ck_token_count = count_words False (ch_content c), ck_updated_at = now\<rparr>)"

definition upsert_chunk :: "chunk_row \<Rightarrow> chunk_row list \<Rightarrow> chunk_row list" where
  "upsert_chunk r rs = (if chunk_key r \<in> chunk_key ` set rs
     then map (\<lambda>q. if chunk_key q = chunk_key r then r else q) rs else rs @ [r])"

definition delete_chunks :: "pystr \<Rightarrow> pystr set \<Rightarrow> chunk_row list \<Rightarrow> chunk_row list" where
  "delete_chunks repo paths rs = filter (\<lambda>q. \<not> (ck_repo q = repo \<and> ck_path q \<in> paths)) rs"

text \<open>The transaction of \<open>_write\<close>; the column's type refuses a vector of another dimension.\<close>

definition write_sql :: "pystr \<Rightarrow> (chunk \<times> rat list) list \<Rightarrow> pystr set \<Rightarrow> pystr \<Rightarrow> (tiger_db, unit) stmt" where
  "write_sql repo embedded delete_paths sha db =
     (if list_ex (\<lambda>(c, v). length v \<noteq> EMBEDDING_DIMENSIONS) embedded
      then (Inl (PostgresError (lit ''expected 256 dimensions'')), db)
      else
        (let touched = (ch_path \<circ> fst) ` set embedded;
             kept = delete_chunks repo touched (delete_chunks repo delete_paths (code_chunks db));
             chunks = foldl (\<lambda>rs r. upsert_chunk r rs) kept (map (chunk_row_of repo (db_now db)) embedded);
             total = length (filter (\<lambda>q. ck_repo q = repo) chunks)
         in index_done_sql repo sha total (db\<lparr>code_chunks := chunks\<rparr>)))"

definition ix_write :: "pystr \<Rightarrow> (chunk \<times> rat list) list \<Rightarrow> pystr set \<Rightarrow> pystr \<Rightarrow> (('s, 'e) ix_world, unit) io" where
  "ix_write repo embedded delete_paths sha =
     on_pool (guarded (lit ''ingestion.indexer.write'') (write_sql repo embedded delete_paths sha))"

definition mark_failed :: "pystr \<Rightarrow> pystr \<Rightarrow> (('s, 'e) ix_world, unit) io" where
  "mark_failed repo err = on_pool (guarded (lit ''ingestion.indexer.mark_failed'') (mark_failed_sql repo err))"

definition existing_paths_sql :: "pystr \<Rightarrow> (tiger_db, pystr set) stmt" where
  "existing_paths_sql repo db = (Inr (ck_path ` {q \<in> set (code_chunks db). ck_repo q = repo}), db)"

text \<open>\<open>shutil.rmtree(\<dots>, ignore_errors=True)\<close> in a \<open>finally\<close> never raises.\<close>

definition finally_rmtree :: "('s, 'e) indexer \<Rightarrow> path \<Rightarrow> (('s, 'e) ix_world, 'a) io \<Rightarrow> (('s, 'e) ix_world, 'a) io" where
  "finally_rmtree x dir m w = (case m w of (r, w1) \<Rightarrow> (r, w1\<lparr>ix_source := xi_rmtree x dir (ix_source w1)\<rparr>))"

definition full_index :: "('s, 'e) indexer \<Rightarrow> pystr \<Rightarrow> (('s, 'e) ix_world, index_result) io" where
  "full_index x repo =
     bind_io (on_source (fetch_tarball x repo (lit ''HEAD''))) (\<lambda>src. finally_rmtree x (fs_dir src)
       (let chunks = chunk_repo (xi_word x) None (fs_tree src); retained = ch_path ` set chunks in
        bind_io (embed_chunks x chunks) (\<lambda>embedded.
        bind_io (on_pool (guarded (lit ''ingestion.indexer.existing_paths'') (existing_paths_sql repo))) (\<lambda>existing.
        then_io (ix_write repo embedded (existing - retained) (fs_sha src))
          (ret \<lparr>ir_repo = repo, ir_sha = fs_sha src, ir_chunk_count = length embedded,
                ir_files_embedded = card retained\<rparr>)))))"

definition incremental_index :: "('s, 'e) indexer \<Rightarrow> pystr \<Rightarrow> pystr \<Rightarrow> pystr \<Rightarrow> changed_files
    \<Rightarrow> (('s, 'e) ix_world, index_result) io" where
  "incremental_index x repo before_sha after_sha changed =
     bind_io (if to_reembed changed = {} then ret []
         else bind_io (on_source (fetch_tarball x repo after_sha)) (\<lambda>src. finally_rmtree x (fs_dir src)
           (ret (chunk_repo (xi_word x) (Some (to_reembed changed)) (fs_tree src))))) (\<lambda>chunks.
     bind_io (embed_chunks x chunks) (\<lambda>embedded.
     then_io (ix_write repo embedded (set (cg_removed changed)) after_sha)
       (ret \<lparr>ir_repo = repo, ir_sha = after_sha, ir_chunk_count = length embedded,
             ir_files_embedded = card (to_reembed changed)\<rparr>)))"

subsection \<open>The worker's jobs\<close>

text \<open>\<open>show\<close> is \<open>str(exc)\<close>; the job's value is the first three fields of the result.\<close>

definition recording_failure :: "(exn \<Rightarrow> pystr) \<Rightarrow> pystr \<Rightarrow> (('s, 'e) ix_world, index_result) io
    \<Rightarrow> (('s, 'e) ix_world, pystr \<times> pystr \<times> nat) io" where
  "recording_failure show_exn repo m =
     bind_io (try_except m is_Exception (\<lambda>e. then_io (mark_failed repo (show_exn e)) (raise e)))
       (\<lambda>r. ret (ir_repo r, ir_sha r, ir_chunk_count r))"

definition index_repo :: "(exn \<Rightarrow> pystr) \<Rightarrow> ('s, 'e) indexer \<Rightarrow> exn + index_job
    \<Rightarrow> (('s, 'e) ix_world, pystr \<times> pystr \<times> nat) io" where
  "index_repo show_exn x job = bind_io (of_result job) (\<lambda>j. recording_failure show_exn (ij_repo j) (full_index x (ij_repo j)))"

definition reindex_repo :: "(exn \<Rightarrow> pystr) \<Rightarrow> ('s, 'e) indexer \<Rightarrow> exn + reindex_job
    \<Rightarrow> (('s, 'e) ix_world, pystr \<times> pystr \<times> nat) io" where
  "reindex_repo show_exn x job = bind_io (of_result job) (\<lambda>j. recording_failure show_exn (xj_repo j)
     (incremental_index x (xj_repo j) (xj_before j) (xj_after j)
       \<lparr>cg_added = xj_added j, cg_modified = xj_modified j, cg_removed = xj_removed j\<rparr>))"

subsection \<open>What a write leaves\<close>

lemma upserts_append:
  "distinct (map chunk_key rows) \<Longrightarrow> chunk_key ` set rows \<inter> chunk_key ` set kept = {} \<Longrightarrow>
    foldl (\<lambda>rs r. upsert_chunk r rs) kept rows = kept @ rows"
proof (induction rows arbitrary: kept)
  case (Cons r rows)
  then have "upsert_chunk r kept = kept @ [r]" by (auto simp: upsert_chunk_def)
  then show ?case using Cons by auto
qed simp

definition chunk_of_row :: "chunk_row \<Rightarrow> chunk" where
  "chunk_of_row r = \<lparr>ch_path = ck_path r, ch_symbol = ck_symbol r, ch_index = ck_index r, ch_content = ck_content r\<rparr>"

lemma chunk_of_row_of [simp]: "chunk_of_row (chunk_row_of repo now e) = fst e"
  by (cases e) (simp add: chunk_of_row_def chunk_row_of_def)

definition repo_rows :: "pystr \<Rightarrow> tiger_db \<Rightarrow> chunk_row list" where
  "repo_rows repo db = filter (\<lambda>q. ck_repo q = repo) (code_chunks db)"

definition other_rows :: "pystr \<Rightarrow> tiger_db \<Rightarrow> chunk_row list" where
  "other_rows repo db = filter (\<lambda>q. ck_repo q \<noteq> repo) (code_chunks db)"

definition fits :: "(chunk \<times> rat list) list \<Rightarrow> bool" where
  "fits es \<longleftrightarrow> \<not> list_ex (\<lambda>(c, v). length v \<noteq> EMBEDDING_DIMENSIONS) es"

lemma chunk_row_of_fields [simp]:
  "ck_repo (chunk_row_of repo n e) = repo" "ck_path (chunk_row_of repo n e) = ch_path (fst e)"
  "ck_index (chunk_row_of repo n e) = ch_index (fst e)"
  by (cases e, simp add: chunk_row_of_def)+

lemma write_chunks:
  fixes repo sha :: pystr and paths :: "pystr set" and db :: tiger_db
  assumes dist: "distinct (map chunk_id (map fst es))" and fits: "fits es"
  defines "db' \<equiv> snd (write_sql repo es paths sha db)"
  shows "code_chunks db' = delete_chunks repo ((ch_path \<circ> fst) ` set es \<union> paths) (code_chunks db)
      @ map (chunk_row_of repo (db_now db)) es"
    and "repo_state db' repo = Some \<lparr>rs_repo = repo, rs_commit = Some sha, rs_indexed_at = db_now db,
      rs_chunk_count = length (repo_rows repo db'), rs_status = lit ''done'', rs_error = None\<rparr>"
    and "fst (write_sql repo es paths sha db) = Inr ()"
proof -
  let ?rows = "map (chunk_row_of repo (db_now db)) es"
  let ?touched = "(ch_path \<circ> fst) ` set es"
  let ?kept = "delete_chunks repo ?touched (delete_chunks repo paths (code_chunks db))"
  have kept: "?kept = delete_chunks repo (?touched \<union> paths) (code_chunks db)"
    unfolding delete_chunks_def filter_filter by (rule filter_cong) auto
  have keys: "chunk_key (chunk_row_of repo n e) = (repo, chunk_id (fst e))" for n e
    by (cases e) (simp add: chunk_key_def chunk_row_of_def chunk_id_def)
  have "distinct (map chunk_key ?rows)"
    using dist by (simp add: comp_def keys distinct_map inj_on_def)
  moreover have "chunk_key (chunk_row_of repo (db_now db) e) \<noteq> chunk_key q" if "e \<in> set es" "q \<in> set ?kept" for e q
  proof -
    have "ch_path (fst e) \<in> ?touched" using that(1) by force
    moreover have "\<not> (ck_repo q = repo \<and> ck_path q \<in> ?touched)" using that(2) by (simp add: delete_chunks_def)
    ultimately show ?thesis unfolding chunk_key_def by (metis chunk_row_of_fields(1,2) prod.inject)
  qed
  then have "chunk_key ` set ?rows \<inter> chunk_key ` set ?kept = {}" unfolding set_map by blast
  ultimately have fold: "foldl (\<lambda>rs r. upsert_chunk r rs) ?kept ?rows = ?kept @ ?rows"
    by (rule upserts_append)
  define K where "K = ?kept"
  have db': "write_sql repo es paths sha db = index_done_sql repo sha (length (filter (\<lambda>q. ck_repo q = repo) (K @ ?rows)))
      (db\<lparr>code_chunks := K @ ?rows\<rparr>)"
    using fits fold by (simp add: write_sql_def fits_def Let_def K_def)
  have K: "code_chunks db' = K @ ?rows" by (simp add: db'_def db' index_done_sql_def)
  then show "code_chunks db' = delete_chunks repo (?touched \<union> paths) (code_chunks db) @ ?rows"
    by (simp only: K_def kept)
  show "fst (write_sql repo es paths sha db) = Inr ()" by (simp add: db' index_done_sql_def)
  have id: "repo_state db repo = Some r \<Longrightarrow> rs_repo r = repo" for r and db :: tiger_db
    unfolding repo_state_def by (drule find_Some_set) simp
  show "repo_state db' repo = Some \<lparr>rs_repo = repo, rs_commit = Some sha, rs_indexed_at = db_now db,
      rs_chunk_count = length (repo_rows repo db'), rs_status = lit ''done'', rs_error = None\<rparr>"
    unfolding repo_rows_def K unfolding db'_def db'
    by (auto simp: index_done_sql_def repo_state_upsert dest!: id split: option.split intro!: repo_state_row.equality)
qed

lemma write_frame: "db_now (snd (write_sql repo es paths sha db)) = db_now db"
  by (simp add: write_sql_def Let_def index_done_sql_def)

lemma upsert_state_twice:
  assumes "\<And>r. g (g r) = g r" "g new = new" "\<And>r. rs_repo (g r) = rs_repo r" "rs_repo new = repo"
  shows "upsert_state repo new g (upsert_state repo new g db) = upsert_state repo new g db"
proof (cases "repo \<in> rs_repo ` set (repo_index_state db)")
  case True
  let ?f = "\<lambda>r. if rs_repo r = repo then g r else r"
  have "rs_repo (?f r) = rs_repo r" "?f (?f r) = ?f r" for r using assms(1,3) by simp_all
  then have "map rs_repo (map ?f xs) = map rs_repo xs" "map ?f (map ?f xs) = map ?f xs" for xs by simp_all
  moreover from this(1) have "rs_repo ` set (map ?f (repo_index_state db)) = rs_repo ` set (repo_index_state db)"
    by (metis set_map)
  ultimately show ?thesis using True unfolding upsert_state_def by (simp del: map_map set_map)
next
  case False
  have "map (\<lambda>r. if rs_repo r = repo then g r else r) (repo_index_state db) = repo_index_state db"
    using False by (intro map_idI) auto
  then show ?thesis using False assms(2,4) unfolding upsert_state_def by simp
qed

lemma idem_write:
  assumes dist: "distinct (map chunk_id (map fst es))"
  shows "idempotent_stmt (write_sql repo es paths sha)"
  unfolding idempotent_stmt_def
proof (intro allI impI)
  fix db r db'
  assume run: "write_sql repo es paths sha db = (r, db')"
  show "write_sql repo es paths sha db' = (r, db')"
  proof (cases "fits es")
    case False
    then show ?thesis using run by (auto simp: write_sql_def fits_def)
  next
    case True
    let ?all = "(ch_path \<circ> fst) ` set es \<union> paths"
    let ?chunks = "\<lambda>db. foldl (\<lambda>rs r. upsert_chunk r rs)
      (delete_chunks repo ((ch_path \<circ> fst) ` set es) (delete_chunks repo paths (code_chunks db)))
      (map (chunk_row_of repo (db_now db)) es)"
    have w: "write_sql repo es paths sha db = index_done_sql repo sha (length (filter (\<lambda>q. ck_repo q = repo) (?chunks db)))
        (db\<lparr>code_chunks := ?chunks db\<rparr>)" for db
      using True by (simp add: write_sql_def fits_def Let_def)
    have cc: "code_chunks (snd (write_sql repo es paths sha db)) = ?chunks db" for db
      unfolding w by (simp add: index_done_sql_def)
    have now: "db_now db' = db_now db" using run write_frame by (metis snd_conv)
    have c': "code_chunks db' = delete_chunks repo ?all (code_chunks db) @ map (chunk_row_of repo (db_now db)) es"
      using write_chunks(1) [OF dist True] run by (metis snd_conv)
    have "delete_chunks repo ?all (code_chunks db') = delete_chunks repo ?all (code_chunks db)"
      unfolding c' delete_chunks_def filter_append filter_filter by (fastforce simp: filter_empty_conv)
    then have "code_chunks (snd (write_sql repo es paths sha db')) = code_chunks db'"
      unfolding write_chunks(1) [OF dist True] by (simp add: now c')
    then have ch: "?chunks db' = code_chunks db'" by (simp only: cc)
    have ch0: "?chunks db = code_chunks db'" using cc [of db] run by simp
    have d: "db' = snd (index_done_sql repo sha (length (filter (\<lambda>q. ck_repo q = repo) (code_chunks db')))
        (db\<lparr>code_chunks := code_chunks db'\<rparr>))"
      using run unfolding w ch0 by simp
    let ?n = "length (filter (\<lambda>q. ck_repo q = repo) (code_chunks db'))"
    have "snd (index_done_sql repo sha ?n (snd (index_done_sql repo sha ?n x))) = snd (index_done_sql repo sha ?n x)" for x
      by (simp add: index_done_sql_def) (subst upsert_state_twice, simp_all)
    then have "snd (index_done_sql repo sha ?n db') = db'" using d by metis
    then show ?thesis using run unfolding w ch by (auto simp: index_done_sql_def)
  qed
qed

subsection \<open>What indexing leaves\<close>

lemma map_io_results:
  assumes "\<And>x w y w'. f x w = (Inr y, w') \<Longrightarrow> g y = x" "map_io f xs w = (Inr ys, w')"
  shows "map g ys = xs"
  using assms(2)
proof (induction xs arbitrary: ys w)
  case (Cons x xs)
  then obtain y w1 zs where "f x w = (Inr y, w1)" "map_io f xs w1 = (Inr zs, w')" "ys = y # zs"
    by (auto simp: bind_io_Inr_iff ret_def)
  then show ?case using Cons.IH assms(1) by simp
qed (simp add: ret_def)

lemma embed_chunks_facts:
  assumes "embed_chunks x cs w = (r, w')"
  shows "ix_pool w' = ix_pool w" and "r = Inr es \<Longrightarrow> map fst es = cs"
proof -
  let ?f = "\<lambda>c. bind_io (ix_embed x (ch_content c)) (\<lambda>v. ret (c, v))"
  have "frame ix_pool (ix_embed x s)" for s
    by (simp add: frame_def ix_embed_def zoom_def split: prod.split)
  then have "frame ix_pool (map_io ?f cs)" by (intro frame_map_io frame_bind frame_ret)
  then have "ix_pool (snd (map_io ?f cs w)) = ix_pool w" by (simp add: frame_def)
  then show "ix_pool w' = ix_pool w" using assms by (simp add: embed_chunks_def)
  have stamp: "?f c w = (Inr y, w1) \<Longrightarrow> fst y = c" for c w y w1
    by (auto simp: bind_io_Inr_iff ret_def)
  show "map fst es = cs" if "r = Inr es"
    by (rule map_io_results [of ?f fst, OF stamp]) (use assms that in \<open>simp_all add: embed_chunks_def\<close>)
qed

text \<open>A write that returns is the transaction run once on the database before it.\<close>

lemma ix_write_Inr:
  assumes "ix_write repo es paths sha w = (Inr u, w')" and dist: "distinct (map chunk_id (map fst es))"
  shows "fits es \<and> conn_db (ix_pool w') = snd (write_sql repo es paths sha (conn_db (ix_pool w)))"
proof -
  obtain c where c: "guarded (lit ''ingestion.indexer.write'') (write_sql repo es paths sha) (ix_pool w) = (Inr u, c)"
      "w' = w\<lparr>ix_pool := c\<rparr>"
    using assms(1) by (auto simp: ix_write_def on_pool_def zoom_def split: prod.splits)
  have "write_sql repo es paths sha (conn_db (ix_pool w)) = (Inr u, conn_db c)"
    by (rule guarded_idempotent(2) [OF idem_write [OF dist] c(1) refl])
  then show ?thesis using c(2) by (auto simp: write_sql_def fits_def split: if_splits)
qed

lemma on_source_pool: "on_source m w = (r, w') \<Longrightarrow> ix_pool w' = ix_pool w"
  by (auto simp: on_source_def zoom_def split: prod.splits)

lemma existing_reads:
  assumes "on_pool (guarded name (existing_paths_sql repo)) w = (Inr ps, w')"
  shows "conn_db (ix_pool w') = conn_db (ix_pool w) \<and> ps = ck_path ` set (repo_rows repo (conn_db (ix_pool w)))"
proof -
  have idem: "idempotent_stmt (existing_paths_sql repo)" by (auto simp: idempotent_stmt_def existing_paths_sql_def)
  obtain c where c: "guarded name (existing_paths_sql repo) (ix_pool w) = (Inr ps, c)" "w' = w\<lparr>ix_pool := c\<rparr>"
    using assms by (auto simp: on_pool_def zoom_def split: prod.splits)
  have "existing_paths_sql repo (conn_db (ix_pool w)) = (Inr ps, conn_db c)"
    by (rule guarded_idempotent(2) [OF idem c(1) refl])
  then show ?thesis using c(2) by (auto simp: existing_paths_sql_def repo_rows_def)
qed

lemma other_rows_write:
  assumes "distinct (map chunk_id (map fst es))" "fits es"
  shows "other_rows repo (snd (write_sql repo es paths sha db)) = other_rows repo db"
    and "repo_rows repo (snd (write_sql repo es paths sha db)) =
      filter (\<lambda>q. ck_path q \<notin> (ch_path \<circ> fst) ` set es \<union> paths) (repo_rows repo db) @ map (chunk_row_of repo (db_now db)) es"
  unfolding other_rows_def repo_rows_def write_chunks(1) [OF assms] delete_chunks_def filter_append filter_filter filter_map
  by (auto simp: comp_def intro!: filter_cong)

lemma finally_rmtree_run:
  "finally_rmtree x dir m w = (r, w') \<Longrightarrow> \<exists>w1. m w = (r, w1) \<and> ix_pool w' = ix_pool w1"
  by (auto simp: finally_rmtree_def split: prod.splits)

text \<open>C17. A full index that returns has replaced the repository's chunks by exactly those of the fetched tree, in
  order, whatever database faults were retried: the rows of other repositories are untouched, and the
  repository is recorded as done at the fetched commit with the number of its chunks.\<close>

theorem full_index_replaces:
  assumes run: "full_index x repo w = (Inr res, w')"
    and src: "on_source (fetch_tarball x repo (lit ''HEAD'')) w = (Inr src, w1)"
    and paths: "distinct (map (path_str \<circ> fst) (fs_tree src))"
  shows "map chunk_of_row (repo_rows repo (conn_db (ix_pool w'))) = chunk_repo (xi_word x) None (fs_tree src) \<and>
    other_rows repo (conn_db (ix_pool w')) = other_rows repo (conn_db (ix_pool w)) \<and>
    map_option (\<lambda>r. (rs_commit r, rs_status r, rs_error r, rs_chunk_count r)) (repo_state (conn_db (ix_pool w')) repo) =
      Some (Some (fs_sha src), lit ''done'', None, length (chunk_repo (xi_word x) None (fs_tree src)))"
proof -
  let ?cs = "chunk_repo (xi_word x) None (fs_tree src)"
  obtain es w2 ps w3 w4 where e: "embed_chunks x ?cs w1 = (Inr es, w2)"
      and ex: "on_pool (guarded (lit ''ingestion.indexer.existing_paths'') (existing_paths_sql repo)) w2 = (Inr ps, w3)"
      and wr: "ix_write repo es (ps - ch_path ` set ?cs) (fs_sha src) w3 = (Inr (), w4)"
      and w4: "ix_pool w' = ix_pool w4"
    using run src by (auto simp: full_index_def Let_def bind_io_Inr_iff then_io_def ret_def dest!: finally_rmtree_run)
  note es = embed_chunks_facts [OF e]
  have cs: "map fst es = ?cs" using es(2) by simp
  have dist: "distinct (map chunk_id (map fst es))" unfolding cs by (rule chunk_repo_facts(1) [OF paths])
  note w = ix_write_Inr [OF wr dist]
  note rows = write_chunks [OF dist conjunct1 [OF w]] and others = other_rows_write [OF dist conjunct1 [OF w]]
  have db: "conn_db (ix_pool w3) = conn_db (ix_pool w)" "ps = ck_path ` set (repo_rows repo (conn_db (ix_pool w)))"
    using existing_reads [OF ex] es(1) on_source_pool [OF src] by simp_all
  have touched: "(ch_path \<circ> fst) ` set es = ch_path ` set ?cs" by (simp add: cs [symmetric] image_comp)
  have "filter (\<lambda>q. ck_path q \<notin> (ch_path \<circ> fst) ` set es \<union> (ps - ch_path ` set ?cs)) (repo_rows repo (conn_db (ix_pool w3))) = []"
    unfolding touched by (auto simp: filter_empty_conv db)
  then have new: "repo_rows repo (conn_db (ix_pool w')) = map (chunk_row_of repo (db_now (conn_db (ix_pool w3)))) es"
    using others(2) w w4 by simp
  then have "map chunk_of_row (repo_rows repo (conn_db (ix_pool w'))) = ?cs"
    by (simp add: cs [symmetric] comp_def)
  moreover have "length (repo_rows repo (conn_db (ix_pool w'))) = length ?cs"
    by (simp add: new cs [symmetric])
  ultimately show ?thesis using rows(2) others(1) w w4 db(1) by simp
qed

text \<open>An incremental index keeps stale chunks: when a file that was modified yields no chunk any more
  (emptied, grown beyond the size limit or no longer decodable), its old rows stay in the index.\<close>

theorem incremental_keeps_stale_chunks:
  assumes run: "incremental_index x repo before after changed w = (Inr res, w')"
    and src: "on_source (fetch_tarball x repo after) w = (Inr src, w1)"
    and tree: "distinct (map (path_str \<circ> fst) (fs_tree src))"
    and p: "p \<in> to_reembed changed" "p \<notin> set (cg_removed changed)"
    and none: "p \<notin> ch_path ` set (chunk_repo (xi_word x) (Some (to_reembed changed)) (fs_tree src))"
  shows "filter (\<lambda>q. ck_path q = p) (repo_rows repo (conn_db (ix_pool w'))) =
    filter (\<lambda>q. ck_path q = p) (repo_rows repo (conn_db (ix_pool w)))"
proof -
  let ?cs = "chunk_repo (xi_word x) (Some (to_reembed changed)) (fs_tree src)"
  have "to_reembed changed \<noteq> {}" using p(1) by auto
  then obtain cs wa where f: "bind_io (on_source (fetch_tarball x repo after)) (\<lambda>src. finally_rmtree x (fs_dir src)
           (ret (chunk_repo (xi_word x) (Some (to_reembed changed)) (fs_tree src)))) w = (Inr cs, wa)"
      and rest: "bind_io (embed_chunks x cs) (\<lambda>embedded.
        then_io (ix_write repo embedded (set (cg_removed changed)) after)
          (ret \<lparr>ir_repo = repo, ir_sha = after, ir_chunk_count = length embedded,
             ir_files_embedded = card (to_reembed changed)\<rparr>)) wa = (Inr res, w')"
    using run by (auto simp: incremental_index_def bind_io_Inr_iff)
  have wa: "ix_pool wa = ix_pool w1" and cs0: "cs = ?cs"
    using f src by (auto simp: bind_io_def ret_def dest!: finally_rmtree_run)
  obtain es w2 where e: "embed_chunks x ?cs wa = (Inr es, w2)"
      and wr: "ix_write repo es (set (cg_removed changed)) after w2 = (Inr (), w')"
    using rest unfolding cs0 by (auto simp: bind_io_Inr_iff then_io_def ret_def)
  note es = embed_chunks_facts [OF e]
  have cs: "map fst es = ?cs" using es(2) by simp
  have dist: "distinct (map chunk_id (map fst es))" unfolding cs by (rule chunk_repo_facts(1) [OF tree])
  note w = ix_write_Inr [OF wr dist]
  have touched: "(ch_path \<circ> fst) ` set es = ch_path ` set ?cs" by (simp add: cs [symmetric] image_comp)
  have db: "conn_db (ix_pool w2) = conn_db (ix_pool w)" using es(1) wa on_source_pool [OF src] by simp
  have "filter (\<lambda>q. ck_path q = p) (map (chunk_row_of repo n) es) = []" for n
    using none unfolding touched [symmetric] by (auto simp: filter_empty_conv)
  moreover have "filter (\<lambda>q. ck_path q = p) (filter (\<lambda>q. ck_path q \<notin> ch_path ` set ?cs \<union> set (cg_removed changed)) rs) =
      filter (\<lambda>q. ck_path q = p) rs" for rs
    unfolding filter_filter using none p(2) by (intro filter_cong) auto
  ultimately show ?thesis using other_rows_write(2) [OF dist conjunct1 [OF w], of repo "set (cg_removed changed)" after "conn_db (ix_pool w2)"] w db
    unfolding touched by simp
qed


subsection \<open>A concrete indexer\<close>

definition sample_indexer :: "tree \<Rightarrow> (unit, unit) indexer" where
  "sample_indexer tr = \<lparr>xi_head = (\<lambda>repo ref. ret (lit ''c0ffee'')), xi_download = (\<lambda>repo ref. ret []),
     xi_mkdtemp = ret [lit ''tmp'', lit ''ingestion-1''], xi_members = (\<lambda>b. Inr [lit ''o-r-c0ffee/a.md'']),
     xi_extract = (\<lambda>b dir. ret [(lit ''o-r-c0ffee'', Some tr)]), xi_rmtree = (\<lambda>dir s. s),
     xi_embeddings = (\<lambda>q u. \<lparr>dur = 1, outcome = Inr (replicate 256 0), done_dep = u, cut_dep = u\<rparr>), xi_word = (\<lambda>_. True)\<rparr>"

definition sample_tree :: "pystr \<Rightarrow> tree" where
  "sample_tree s = [([lit ''a.md''], \<lparr>fe_is_file = True, fe_size = Some (length s), fe_text = Some s\<rparr>)]"

definition sample_ix :: "chunk_row list \<Rightarrow> (unit, unit) ix_world" where
  "sample_ix cs = \<lparr>ix_pool = (None, \<lparr>clock = 0, slept = [], dep = \<lparr>script = [], store = empty_db\<lparr>code_chunks := cs\<rparr>\<rparr>\<rparr>),
     ix_embeddings = (None, \<lparr>clock = 0, slept = [], dep = ()\<rparr>), ix_source = ()\<rparr>"

lemma guarded_sample: "script (dep w) = [] \<Longrightarrow> stmt (store (dep w)) = (Inr a, s) \<Longrightarrow>
   guarded name stmt (None, w) = (Inr a, (None, w\<lparr>dep := (dep w)\<lparr>store := s\<rparr>\<rparr>))"
  by (simp add: guarded_def guard_call_def retry_async_def retry_loop.simps guard_attempt_def with_timeout_def remote_op_def Let_def db_guard_def guard_defaults_def DEFAULT_ATTEMPTS_def DB_COMMAND_TIMEOUT_SECONDS_def)

lemma sample_fetch: "fetch_tarball (sample_indexer tr) repo ref () = (Inr \<lparr>fs_dir = [lit ''tmp'', lit ''ingestion-1''], fs_tree = tr, fs_sha = lit ''c0ffee''\<rparr>, ())"
  by (simp add: fetch_tarball_def sample_indexer_def safe_extract_def io_simps is_within_def resolve_member_def resolve_step_def py_startswith_def lit_def List.map_filter_def)

lemma sample_embed: "ix_embed (sample_indexer tr) s (sample_ix cs) = (Inr (replicate 256 0), (sample_ix cs)\<lparr>ix_embeddings := (None, \<lparr>clock = 1, slept = [], dep = ()\<rparr>)\<rparr>)"
  by (simp add: ix_embed_def zoom_def guard_call_def retry_async_def retry_loop.simps guard_attempt_def with_timeout_def sample_indexer_def sample_ix_def embed_guard_def guard_defaults_def LLM_TIMEOUT_SECONDS_def Let_def)

lemma sample_on_pool: "guarded name stmt (ix_pool w) = (r, c) \<Longrightarrow> on_pool (guarded name stmt) w = (r, w\<lparr>ix_pool := c\<rparr>)"
  by (simp add: on_pool_def zoom_def)

lemma sample_write:
  assumes "fits es"
  shows "\<exists>w'. ix_write repo es ps sha ((sample_ix cs)\<lparr>ix_embeddings := e\<rparr>) = (Inr (), w')"
proof -
  obtain s where "write_sql repo es ps sha (conn_db (ix_pool ((sample_ix cs)\<lparr>ix_embeddings := e\<rparr>))) = (Inr (), s)"
    using assms by (simp add: write_sql_def fits_def Let_def index_done_sql_def)
  then have "\<exists>c. guarded (lit ''ingestion.indexer.write'') (write_sql repo es ps sha) (ix_pool ((sample_ix cs)\<lparr>ix_embeddings := e\<rparr>)) = (Inr (), c)"
    using guarded_sample [of "snd (ix_pool (sample_ix cs))" "write_sql repo es ps sha" "()" s] by (simp add: sample_ix_def)
  then show ?thesis unfolding ix_write_def using sample_on_pool by blast
qed

lemma sample_existing:
  "\<exists>ps. on_pool (guarded name (existing_paths_sql repo)) ((sample_ix cs)\<lparr>ix_embeddings := e\<rparr>) = (Inr ps, (sample_ix cs)\<lparr>ix_embeddings := e\<rparr>)"
  using guarded_sample [of "snd (ix_pool (sample_ix cs))" "existing_paths_sql repo" _ "conn_db (ix_pool (sample_ix cs))" name]
  by (simp add: on_pool_def zoom_def existing_paths_sql_def sample_ix_def)

lemma sample_source: "on_source (fetch_tarball (sample_indexer tr) repo ref) (sample_ix cs) =
    (Inr \<lparr>fs_dir = [lit ''tmp'', lit ''ingestion-1''], fs_tree = tr, fs_sha = lit ''c0ffee''\<rparr>, sample_ix cs)"
  using sample_fetch [of tr repo ref] by (simp add: on_source_def zoom_def sample_ix_def)

lemma sample_full_runs:
  assumes "chunk_repo (\<lambda>_. True) None tr = [c]"
  shows "\<exists>res w'. full_index (sample_indexer tr) repo (sample_ix cs) = (Inr res, w')"
proof -
  let ?e = "(None, \<lparr>clock = 1, slept = [], dep = ()\<rparr>) :: breaker option \<times> unit rt"
  have up: "xi_word (sample_indexer tr) = (\<lambda>_. True)" by (simp add: sample_indexer_def)
  have emb: "embed_chunks (sample_indexer tr) [c] (sample_ix cs) = (Inr [(c, replicate 256 0)], (sample_ix cs)\<lparr>ix_embeddings := ?e\<rparr>)"
    by (simp add: embed_chunks_def bind_io_def sample_embed ret_def)
  obtain ps where ex: "on_pool (guarded (lit ''ingestion.indexer.existing_paths'') (existing_paths_sql repo)) ((sample_ix cs)\<lparr>ix_embeddings := ?e\<rparr>)
      = (Inr ps, (sample_ix cs)\<lparr>ix_embeddings := ?e\<rparr>)" using sample_existing by blast
  obtain w' where "ix_write repo [(c, replicate 256 0)] (ps - {ch_path c}) (lit ''c0ffee'') ((sample_ix cs)\<lparr>ix_embeddings := ?e\<rparr>) = (Inr (), w')"
    using sample_write [of "[(c, replicate 256 0)]"] by (fastforce simp: fits_def EMBEDDING_DIMENSIONS_def)
  then show ?thesis
    by (simp add: full_index_def bind_io_def then_io_def sample_source finally_rmtree_def Let_def up assms emb ex ret_def)
qed

lemma sample_chunks:
  "chunk_repo (\<lambda>_. True) None (sample_tree (lit ''x'')) =
     [\<lparr>ch_path = lit ''a.md'', ch_symbol = None, ch_index = 0, ch_content = lit ''x''\<rparr>]"
  "chunk_repo (\<lambda>_. True) (Some {lit ''a.md''}) (sample_tree []) = []"
  by (simp_all add: chunk_repo_def sample_tree_def chunk_entry_def should_skip_def is_vendored_def path_name_def path_suffix_def
      path_str_def VENDORED_DIR_NAMES_def LOCKFILE_NAMES_def BINARY_SUFFIXES_def MAX_FILE_BYTES_def ascii_lower_def chunk_file_def
      split_by_line_window_def window_step splitlines_keep_def blank_def py_strip_Nil_iff lit_def is_space_def Let_def)

theorem full_index_replaces_witness:
  "let w' = snd (full_index (sample_indexer (sample_tree (lit ''x''))) (lit ''o/r'') (sample_ix [sample_chunk ''old.py'' 0 ''y'' 0]))
    in map (\<lambda>r. (ck_path r, ck_content r)) (repo_rows (lit ''o/r'') (conn_db (ix_pool w'))) = [(lit ''a.md'', lit ''x'')]"
proof -
  let ?x = "sample_indexer (sample_tree (lit ''x''))" and ?w = "sample_ix [sample_chunk ''old.py'' 0 ''y'' 0]"
  obtain res w' where run: "full_index ?x (lit ''o/r'') ?w = (Inr res, w')"
    using sample_full_runs [OF sample_chunks(1)] by blast
  have up: "xi_word ?x = (\<lambda>_. True)" by (simp add: sample_indexer_def)
  have "map chunk_of_row (repo_rows (lit ''o/r'') (conn_db (ix_pool w'))) =
      [\<lparr>ch_path = lit ''a.md'', ch_symbol = None, ch_index = 0, ch_content = lit ''x''\<rparr>]"
  proof -
    have "distinct (map (path_str \<circ> fst) (sample_tree (lit ''x'')))" by (simp add: sample_tree_def)
    then show ?thesis using full_index_replaces [OF run sample_source] by (simp add: up sample_chunks(1))
  qed
  then have "map (\<lambda>c. (ch_path c, ch_content c)) (map chunk_of_row (repo_rows (lit ''o/r'') (conn_db (ix_pool w')))) = [(lit ''a.md'', lit ''x'')]"
    by simp
  then show ?thesis by (simp add: run Let_def comp_def chunk_of_row_def)
qed

theorem incremental_keeps_stale_chunks_witness:
  "let changed = \<lparr>cg_added = [], cg_modified = [lit ''a.md''], cg_removed = []\<rparr>;
       w' = snd (incremental_index (sample_indexer (sample_tree [])) (lit ''o/r'') [] (lit ''c0ffee'') changed
              (sample_ix [sample_chunk ''a.md'' 0 ''old text'' 0]))
    in filter (\<lambda>q. ck_path q = lit ''a.md'') (repo_rows (lit ''o/r'') (conn_db (ix_pool w'))) = [sample_chunk ''a.md'' 0 ''old text'' 0]"
proof -
  let ?x = "sample_indexer (sample_tree [])" and ?w = "sample_ix [sample_chunk ''a.md'' 0 ''old text'' 0]"
  let ?c = "\<lparr>cg_added = [], cg_modified = [lit ''a.md''], cg_removed = []\<rparr>"
  have up: "xi_word ?x = (\<lambda>_. True)" by (simp add: sample_indexer_def)
  have re: "to_reembed ?c = {lit ''a.md''}" by (simp add: to_reembed_def)
  obtain w' where "ix_write (lit ''o/r'') [] {} (lit ''c0ffee'') ?w = (Inr (), w')"
    using sample_write [where es = "[]" and ps = "{}" and repo = "lit ''o/r''" and sha = "lit ''c0ffee''" and e = "ix_embeddings ?w"] by (auto simp: fits_def sample_ix_def)
  then obtain res w2 where run: "incremental_index ?x (lit ''o/r'') [] (lit ''c0ffee'') ?c ?w = (Inr res, w2)"
    by (simp add: incremental_index_def re bind_io_def then_io_def sample_source finally_rmtree_def up sample_chunks(2)
        embed_chunks_def ret_def) (simp add: sample_indexer_def sample_ix_def ret_def)
  have "filter (\<lambda>q. ck_path q = lit ''a.md'') (repo_rows (lit ''o/r'') (conn_db (ix_pool w2))) =
      filter (\<lambda>q. ck_path q = lit ''a.md'') (repo_rows (lit ''o/r'') (conn_db (ix_pool ?w)))"
    by (rule incremental_keeps_stale_chunks [OF run sample_source])
      (simp_all add: re up sample_chunks(2), simp_all add: sample_tree_def)
  moreover have "repo_rows (lit ''o/r'') (conn_db (ix_pool ?w)) = [sample_chunk ''a.md'' 0 ''old text'' 0]"
    by (simp add: repo_rows_def sample_ix_def sample_chunk_def)
  moreover have "ck_path (sample_chunk ''a.md'' 0 ''old text'' 0) = lit ''a.md''" by (simp add: sample_chunk_def)
  ultimately show ?thesis unfolding Let_def run snd_conv by simp
qed

end
