(* ===== verification/Observability.thy ===== *)
theory Observability
  imports Database
begin

text \<open>
  \<open>observability/events.py\<close> (the append-only events spine), \<open>observability/tracing.py\<close> (the trace of a
  review), and \<open>economics/\<close>: token prices, the cost ledger and the daily budget. \<open>num106\<close> and \<open>num43\<close>
  are the roundings of the \<open>NUMERIC(10,6)\<close> and \<open>NUMERIC(4,3)\<close> columns.
\<close>

subsection \<open>economics/pricing.py\<close>

definition PRICE_PER_1M :: "(pystr \<times> rat \<times> rat) list" where
  "PRICE_PER_1M =
     [(lit ''gpt-5.4-mini'', fl (15 / 100), fl (60 / 100)),
      (lit ''gpt-5.4'', fl (5 / 2), 10),
      (lit ''text-embedding-3-small'', fl (2 / 100), 0)]"

definition DEFAULT_PRICE :: "rat \<times> rat" where
  "DEFAULT_PRICE = (1 / 2, 3 / 2)"

definition cost_usd :: "pystr \<Rightarrow> int \<Rightarrow> int \<Rightarrow> rat" where
  "cost_usd m tokens_in tokens_out =
     (case (case map_of PRICE_PER_1M m of None \<Rightarrow> DEFAULT_PRICE | Some p \<Rightarrow> p) of (price_in, price_out) \<Rightarrow>
        float_div (float_add (float_mul (fl (of_int tokens_in)) price_in)
                             (float_mul (fl (of_int tokens_out)) price_out)) 1000000)"

lemma price_nonneg:
  "map_of PRICE_PER_1M m = Some (p, q) \<Longrightarrow> 0 \<le> p \<and> 0 \<le> q"
  by (auto simp: PRICE_PER_1M_def intro: fl_nonneg split: if_splits)

lemma cost_usd_nonneg:
  assumes "0 \<le> i" "0 \<le> out"
  shows "0 \<le> cost_usd m i out"
proof -
  obtain p q where pq: "(case map_of PRICE_PER_1M m of None \<Rightarrow> DEFAULT_PRICE | Some p \<Rightarrow> p) = (p, q)"
    by (metis surj_pair)
  then have "0 \<le> p" "0 \<le> q" using price_nonneg [of m p q]
    by (auto simp: DEFAULT_PRICE_def split: option.splits)
  then show ?thesis using assms
    by (auto simp: cost_usd_def pq float_div_def float_add_def float_mul_def
        intro!: fl_nonneg divide_nonneg_nonneg add_nonneg_nonneg mult_nonneg_nonneg)
qed

subsection \<open>observability/events.py\<close>

definition SPAN_START :: pystr where "SPAN_START = lit ''span.start''"
definition SPAN_END :: pystr where "SPAN_END = lit ''span.end''"
definition LLM_CALL :: pystr where "LLM_CALL = lit ''llm.call''"
definition TOOL_CALL :: pystr where "TOOL_CALL = lit ''tool.call''"
definition DECISION :: pystr where "DECISION = lit ''decision''"

lemmas event_type_defs = SPAN_START_def SPAN_END_def LLM_CALL_def TOOL_CALL_def DECISION_def

record emit_args =
  em_review_id :: uuid
  em_agent :: pystr
  em_type :: pystr
  em_span :: "uuid option"
  em_parent :: "uuid option"
  em_model :: "pystr option"
  em_tokens_in :: "int option"
  em_tokens_out :: "int option"
  em_cost :: "rat option"
  em_latency_ms :: "int option"
  em_outcome :: "pystr option"
  em_confidence :: "rat option"
  em_payload :: "(pystr \<times> json) list option"

text \<open>The keyword defaults.\<close>

definition event :: "uuid \<Rightarrow> pystr \<Rightarrow> pystr \<Rightarrow> emit_args" where
  "event i agent ty = \<lparr>em_review_id = i, em_agent = agent, em_type = ty, em_span = None, em_parent = None,
     em_model = None, em_tokens_in = None, em_tokens_out = None, em_cost = None, em_latency_ms = None,
     em_outcome = None, em_confidence = None, em_payload = None\<rparr>"

definition stamped_cost :: "emit_args \<Rightarrow> rat option" where
  "stamped_cost a = (case em_cost a of Some c \<Rightarrow> Some c
     | None \<Rightarrow> (if em_type a = LLM_CALL then
         (case em_model a of None \<Rightarrow> None
          | Some m \<Rightarrow> Some (cost_usd m (case em_tokens_in a of None \<Rightarrow> 0 | Some n \<Rightarrow> n)
                                       (case em_tokens_out a of None \<Rightarrow> 0 | Some n \<Rightarrow> n)))
       else None))"

definition event_row_of :: "(rat \<Rightarrow> rat) \<Rightarrow> (rat \<Rightarrow> rat) \<Rightarrow> emit_args \<Rightarrow> tiger_db \<Rightarrow> event_row" where
  "event_row_of num106 num43 a db =
     \<lparr>ev_ts = db_now db, ev_review_id = em_review_id a, ev_agent = em_agent a,
      ev_span = (case em_span a of Some s \<Rightarrow> s | None \<Rightarrow> next_uuid db), ev_parent = em_parent a,
      ev_type = em_type a, ev_model = em_model a, ev_tokens_in = em_tokens_in a,
      ev_tokens_out = em_tokens_out a, ev_cost = map_option num106 (stamped_cost a),
      ev_latency_ms = em_latency_ms a, ev_outcome = em_outcome a,
      ev_confidence = map_option num43 (em_confidence a), ev_payload = em_payload a\<rparr>"

definition emit_sql :: "(rat \<Rightarrow> rat) \<Rightarrow> (rat \<Rightarrow> rat) \<Rightarrow> emit_args \<Rightarrow> (tiger_db, unit) stmt" where
  "emit_sql num106 num43 a db =
     (Inr (), db\<lparr>agent_events := agent_events db @ [event_row_of num106 num43 a db],
                 next_uuid := (if em_span a = None then Suc (next_uuid db) else next_uuid db)\<rparr>)"

text \<open>\<open>AgentEventSink.emit\<close> runs on the bare pool; \<open>NullEventSink.emit\<close> does nothing.\<close>

definition sink_emit :: "(rat \<Rightarrow> rat) \<Rightarrow> (rat \<Rightarrow> rat) \<Rightarrow> emit_args \<Rightarrow> (tiger_db conn, unit) io" where
  "sink_emit num106 num43 a = unguarded (emit_sql num106 num43 a)"

definition null_emit :: "emit_args \<Rightarrow> ('w, unit) io" where
  "null_emit a = ret ()"

lemma wf_emit: "wf_db db \<Longrightarrow> wf_db (snd (emit_sql num106 num43 a db))"
  by (auto simp: emit_sql_def wf_db_def less_Suc_eq)

subsection \<open>The contract of an event sink\<close>

text \<open>An emit appends at most one row, its own, and leaves the rows written before it alone.\<close>

locale event_sink =
  fixes emit :: "emit_args \<Rightarrow> ('w, unit) io"
    and log :: "'w \<Rightarrow> event_row list"
  assumes emit_appends: "log (snd (emit a w)) = log w \<or>
    (\<exists>r. log (snd (emit a w)) = log w @ [r] \<and> ev_review_id r = em_review_id a \<and>
      ev_agent r = em_agent a \<and> ev_type r = em_type a \<and> ev_outcome r = em_outcome a)"
begin

text \<open>The audit trail: whatever is emitted later, the log so far stays a prefix of the log, and a
  sequence of emits adds events of those it was given only, in their order.\<close>

lemma for_emit_appends:
  "\<exists>rs. log (snd (for_io as emit w)) = log w @ rs \<and>
     set (map (\<lambda>r. (ev_review_id r, ev_agent r, ev_type r)) rs) \<subseteq>
     set (map (\<lambda>a. (em_review_id a, em_agent a, em_type a)) as) \<and> length rs \<le> length as"
proof (induction as arbitrary: w)
  case Nil
  show ?case by (intro exI [of _ "[]"]) (simp add: ret_def)
next
  case (Cons a as)
  obtain r w' where e: "emit a w = (r, w')" by (cases "emit a w")
  then obtain s where s: "log w' = log w @ s" "length s \<le> 1"
    "\<forall>x \<in> set s. (ev_review_id x, ev_agent x, ev_type x) = (em_review_id a, em_agent a, em_type a)"
    using emit_appends [of a w] by (elim disjE exE) (force intro: that)+
  show ?case
  proof (cases r)
    case (Inl x)
    with e have "snd (for_io (a # as) emit w) = w'" by (simp add: then_io_def bind_io_def)
    with s show ?thesis by (intro exI [of _ s]) auto
  next
    case (Inr u)
    with e have "snd (for_io (a # as) emit w) = snd (for_io as emit w')" by (simp add: then_io_def bind_io_def)
    moreover obtain rs where "log (snd (for_io as emit w')) = log w' @ rs"
      "set (map (\<lambda>r. (ev_review_id r, ev_agent r, ev_type r)) rs) \<subseteq>
       set (map (\<lambda>a. (em_review_id a, em_agent a, em_type a)) as)" "length rs \<le> length as"
      using Cons.IH by blast
    ultimately show ?thesis using s by (intro exI [of _ "s @ rs"]) auto
  qed
qed

end

lemma unguarded_db_cases:
  "conn_db (snd (unguarded stmt c)) = conn_db c \<or> conn_db (snd (unguarded stmt c)) = snd (stmt (conn_db c))"
  using unguarded_once(1) [of stmt c] by (metis prod.collapse)

interpretation tiger_sink: event_sink "sink_emit num106 num43" "\<lambda>c. agent_events (conn_db c)" for num106 num43
proof unfold_locales
  show "agent_events (conn_db (snd (sink_emit num106 num43 a c))) = agent_events (conn_db c) \<or>
    (\<exists>r. agent_events (conn_db (snd (sink_emit num106 num43 a c))) = agent_events (conn_db c) @ [r] \<and>
      ev_review_id r = em_review_id a \<and> ev_agent r = em_agent a \<and> ev_type r = em_type a \<and>
      ev_outcome r = em_outcome a)" for a c
    using unguarded_db_cases [of "emit_sql num106 num43 a" c]
    by (auto simp: sink_emit_def emit_sql_def event_row_of_def)
qed

interpretation null_sink: event_sink null_emit log for log :: "'w \<Rightarrow> event_row list"
  by unfold_locales (simp add: null_emit_def ret_def)

subsection \<open>observability/tracing.py\<close>

text \<open>The rows with the same time and type come in the order they were written, one of those the
  database may choose; on the event vocabulary the collation agrees with code points.\<close>

definition get_trace :: "uuid \<Rightarrow> (tiger_db, event_row list) stmt" where
  "get_trace i db = (Inr (sort_key (\<lambda>r. (ev_ts r, ev_type r))
     (filter (\<lambda>r. ev_review_id r = i) (agent_events db))), db)"

text \<open>\<open>sum\<close> over floats, with the Neumaier compensation of Python 3.12.\<close>

fun float_sum :: "rat \<Rightarrow> rat \<Rightarrow> rat list \<Rightarrow> rat" where
  "float_sum s c [] = (if c = 0 then s else float_add s c)"
| "float_sum s c (x # xs) =
     (let t = float_add s x
      in float_sum t (float_add c (if \<bar>x\<bar> \<le> \<bar>s\<bar> then float_add (float_sub s t) x
                                   else float_add (float_sub x t) s)) xs)"

record trace_roll_up =
  tr_agents :: "pystr list"
  tr_event_types :: "pystr list"
  tr_llm_calls :: nat
  tr_total_cost :: rat

definition trace_summary :: "event_row list \<Rightarrow> trace_roll_up" where
  "trace_summary rows =
     \<lparr>tr_agents = sorted_set (map ev_agent rows), tr_event_types = sorted_set (map ev_type rows),
      tr_llm_calls = length (filter (\<lambda>r. ev_type r = LLM_CALL) rows),
      tr_total_cost = float_sum 0 0 (List.map_filter (\<lambda>r. map_option fl (ev_cost r)) rows)\<rparr>"

subsection \<open>economics/cost_repository.py\<close>

definition cost_conn :: "tiger_db remote rt \<Rightarrow> tiger_db conn" where
  "cost_conn w = (Some (db_breaker (lit ''tiger-cost'')), w)"

text \<open>Midnight UTC of the day of an instant; instants count seconds since the epoch.\<close>

definition utc_day :: "rat \<Rightarrow> rat" where
  "utc_day t = 86400 * of_int \<lfloor>t / 86400\<rfloor>"

definition sum_cost :: "(event_row \<Rightarrow> bool) \<Rightarrow> tiger_db \<Rightarrow> rat" where
  "sum_cost p db = fl (sum_list (List.map_filter ev_cost (filter p (agent_events db))))"

definition spend_today_sql :: "(tiger_db, rat) stmt" where
  "spend_today_sql db = (Inr (sum_cost (\<lambda>r. utc_day (db_now db) \<le> ev_ts r) db), db)"

definition spend_review_sql :: "uuid \<Rightarrow> (tiger_db, rat) stmt" where
  "spend_review_sql i db = (Inr (sum_cost (\<lambda>r. ev_review_id r = i) db), db)"

definition spend_today_usd :: "(tiger_db conn, rat) io" where
  "spend_today_usd = guarded (lit ''cost_repository.spend_today_usd'') spend_today_sql"

definition spend_for_review_usd :: "uuid \<Rightarrow> (tiger_db conn, rat) io" where
  "spend_for_review_usd i = guarded (lit ''cost_repository.spend_for_review_usd'') (spend_review_sql i)"

subsection \<open>economics/budget.py\<close>

definition DEFAULT_CAP_USD :: rat where "DEFAULT_CAP_USD = 25"

text \<open>\<open>from_env\<close>: the explicit cap, the environment variable, or the default. \<open>parse\<close> is \<open>float(_)\<close>.\<close>

definition budget_from_env :: "(pystr \<Rightarrow> exn + rat) \<Rightarrow> pystr option \<Rightarrow> rat option \<Rightarrow> exn + rat" where
  "budget_from_env parse env cap = (case cap of Some c \<Rightarrow> Inr c
     | None \<Rightarrow> (case env of None \<Rightarrow> Inr DEFAULT_CAP_USD
       | Some raw \<Rightarrow> if raw = [] then Inr DEFAULT_CAP_USD else parse raw))"

text \<open>\<open>BudgetGuard.check\<close> with the ledger's reading as an effect; the exception carries what its message
  is formatted from.\<close>

definition budget_check :: "rat \<Rightarrow> ('w, rat) io \<Rightarrow> pystr \<Rightarrow> ('w, unit) io" where
  "budget_check cap spend_today agent =
     bind_io spend_today (\<lambda>spend. if cap \<le> spend then raise (BudgetExceeded cap spend agent) else ret ())"

lemma spend_today_reads:
  assumes "spend_today_usd c = (r, c')"
  shows "conn_db c' = conn_db c"
    and "r = Inr s \<Longrightarrow> s = sum_cost (\<lambda>e. utc_day (db_now (conn_db c)) \<le> ev_ts e) (conn_db c)"
proof -
  have "idempotent_stmt spend_today_sql"
    by (auto simp: idempotent_stmt_def spend_today_sql_def)
  from guarded_idempotent [OF this assms [unfolded spend_today_usd_def]]
  show "conn_db c' = conn_db c" and "r = Inr s \<Longrightarrow>
      s = sum_cost (\<lambda>e. utc_day (db_now (conn_db c)) \<le> ev_ts e) (conn_db c)"
    by (auto simp: spend_today_sql_def)
qed

text \<open>The cap is a post-hoc one: a check passes exactly when it could read the ledger and the spend
  of the day so far is below the cap.\<close>

lemma budget_check_passes:
  assumes "budget_check cap spend_today_usd agent c = (Inr (), c')"
  shows "sum_cost (\<lambda>e. utc_day (db_now (conn_db c)) \<le> ev_ts e) (conn_db c) < cap"
    and "conn_db c' = conn_db c"
proof -
  from assms obtain s c1 where s: "spend_today_usd c = (Inr s, c1)" "\<not> cap \<le> s" "c' = c1"
    by (auto simp: budget_check_def bind_io_Inr_iff raise_def ret_def split: if_splits)
  then show "sum_cost (\<lambda>e. utc_day (db_now (conn_db c)) \<le> ev_ts e) (conn_db c) < cap"
    and "conn_db c' = conn_db c"
    using spend_today_reads [OF s(1)] by auto
qed

end
