(* ===== verification/BaseAgent.thy ===== *)
theory BaseAgent
  imports Observability ContextRetriever InjectionGuard "HOL-Library.List_Lexorder"
begin

text \<open>
  \<open>agents/base_agent.py\<close>, \<open>agents/llm_client.py\<close>, \<open>prompts/registry.py\<close>: a specialist's prompt, its call of
  the model behind the shared breaker, and \<open>SpecialistAgent.review\<close> over the effects it uses.
  \<open>agent_env\<close> is the contract of those effects: only an emit writes the events spine. It is interpreted on
  the pool, the retriever, the model and the cost ledger of \<open>agent_world\<close>. Each remote service of that
  world carries the time spent in it; the process's clock is their sum.
\<close>

subsection \<open>prompts/registry.py\<close>

record versioned_prompt =
  vp_name :: pystr
  vp_text :: pystr
  vp_version :: pystr

text \<open>\<open>sha\<close> is the hexadecimal SHA-256 of the UTF-8 text, \<open>read\<close> the contents of a file of the directory.\<close>

definition prompt_get :: "(pystr \<Rightarrow> pystr) \<Rightarrow> (pystr \<Rightarrow> exn + pystr) \<Rightarrow> pystr \<Rightarrow> exn + versioned_prompt" where
  "prompt_get sha read name = (case read (name @ lit ''.md'') of Inl e \<Rightarrow> Inl e
     | Inr s \<Rightarrow> Inr \<lparr>vp_name = name, vp_text = py_strip s, vp_version = take 12 (sha (py_strip s))\<rparr>)"

text \<open>\<open>stems\<close> are the stems of the directory's \<open>*.md\<close> files.\<close>

definition all_prompts :: "(pystr \<Rightarrow> pystr) \<Rightarrow> (pystr \<Rightarrow> exn + pystr) \<Rightarrow> pystr list \<Rightarrow> exn + versioned_prompt list" where
  "all_prompts sha read stems =
     map_result (prompt_get sha read) (filter (\<lambda>n. n \<noteq> lit ''REGISTRY'') (sort_key (\<lambda>n. n @ lit ''.md'') stems))"

subsection \<open>The prompt\<close>

record diff_context =
  dc_repo :: pystr
  dc_number :: int
  dc_diff :: pystr

definition margin12 :: pystr where "margin12 = replicate 12 32"

definition context_block :: "(pystr \<Rightarrow> pystr \<Rightarrow> pystr) \<Rightarrow> retrieved_chunk list \<Rightarrow> pystr" where
  "context_block wr grounding = (if grounding \<noteq> []
     then py_join [10, 10] (map (\<lambda>c. wr (lit ''CHUNK '' @ rc_path c) (rc_content c)) grounding)
     else lit ''(no related codebase context retrieved)'')"

definition prompt_template :: "diff_context \<Rightarrow> pystr \<Rightarrow> pystr \<Rightarrow> pystr" where
  "prompt_template d diff_block ctx_block =
     [10] @ margin12 @ lit ''Repository: '' @ dc_repo d @
     [10] @ margin12 @ lit ''Pull request: #'' @ dec_int (dc_number d) @
     [10, 10] @ margin12 @ lit ''## Diff under review'' @
     [10] @ margin12 @ diff_block @
     [10, 10] @ margin12 @ lit ''## Retrieved codebase context (grounding '' @ [8212] @ lit '' use this, don'' @ [39] @ lit ''t guess)'' @
     [10] @ margin12 @ ctx_block @
     [10] @ margin12"

definition build_prompt :: "(pystr \<Rightarrow> pystr \<Rightarrow> pystr) \<Rightarrow> diff_context \<Rightarrow> retrieved_chunk list \<Rightarrow> pystr" where
  "build_prompt wr d grounding =
     py_strip (py_dedent (prompt_template d (wr (lit ''PR DIFF'') (dc_diff d)) (context_block wr grounding)))"

subsection \<open>agents/llm_client.py\<close>

record completion =
  cp_usage :: "(int option \<times> int option) option"
  cp_choices :: "finding_draft list option list"

definition usage_of :: "completion \<Rightarrow> int \<times> int" where
  "usage_of c = (case cp_usage c of None \<Rightarrow> (0, 0)
     | Some (p, q) \<Rightarrow> (case p of None \<Rightarrow> 0 | Some n \<Rightarrow> n, case q of None \<Rightarrow> 0 | Some n \<Rightarrow> n))"

definition chat_guard :: guard_cfg where
  "chat_guard = guard_defaults\<lparr>g_attempts := 1, g_timeout := Some LLM_TIMEOUT_SECONDS\<rparr>"

definition chat_breaker :: breaker where
  "chat_breaker = make_breaker (lit ''openai-chat'') DEFAULT_FAILURE_THRESHOLD DEFAULT_RESET_AFTER_SECONDS"

record llm_request =
  lr_model :: pystr
  lr_system :: pystr
  lr_user :: pystr
  lr_temperature :: rat

definition guarded_parse :: "(llm_request \<Rightarrow> ('c, completion) op) \<Rightarrow> llm_request
    \<Rightarrow> (breaker option \<times> 'c rt, completion) io" where
  "guarded_parse llm q = guard_call chat_guard (llm q) (lit ''openai.chat.completions.parse'')"

subsection \<open>SpecialistAgent\<close>

record 'w agent =
  ag_type :: agent_type
  ag_system_prompt :: pystr
  ag_version :: "pystr option"
  ag_model :: pystr
  ag_k :: int
  ag_hardening :: pystr
  ag_wrap :: "pystr \<Rightarrow> pystr \<Rightarrow> pystr"
  ag_budget :: "(pystr \<Rightarrow> ('w, unit) io) option"
  ag_emit :: "emit_args \<Rightarrow> ('w, unit) io"
  ag_retrieve :: "pystr \<Rightarrow> pystr \<Rightarrow> int \<Rightarrow> ('w, retrieved_chunk list) io"
  ag_parse :: "llm_request \<Rightarrow> ('w, completion) io"
  ag_clock :: "'w \<Rightarrow> rat"

definition parse_completion :: "'w agent \<Rightarrow> diff_context \<Rightarrow> retrieved_chunk list \<Rightarrow> ('w, completion) io" where
  "parse_completion a d grounding = ag_parse a
     \<lparr>lr_model = ag_model a, lr_system = ag_system_prompt a @ [10, 10] @ ag_hardening a,
      lr_user = build_prompt (ag_wrap a) d grounding, lr_temperature = 0\<rparr>"

definition agent_retrieve :: "'w agent \<Rightarrow> diff_context \<Rightarrow> ('w, retrieved_chunk list) io" where
  "agent_retrieve a d = ag_retrieve a (dc_repo d) (dc_diff d) (ag_k a)"

text \<open>\<open>completion.choices[0].message.parsed\<close>; \<open>None\<close> is a refusal.\<close>

definition first_parsed :: "completion \<Rightarrow> exn + finding_draft list option" where
  "first_parsed c = (case cp_choices c of [] \<Rightarrow> Inl (OtherError (lit ''list index out of range'')) | p # ps \<Rightarrow> Inr p)"

definition stamp :: "agent_type \<Rightarrow> finding_draft list \<Rightarrow> exn + finding list" where
  "stamp ty ds = map_result (\<lambda>d. from_draft d ty) ds"

definition call_llm :: "'w agent \<Rightarrow> diff_context \<Rightarrow> retrieved_chunk list \<Rightarrow> ('w, finding list) io" where
  "call_llm a d grounding =
     bind_io (parse_completion a d grounding) (\<lambda>c.
     bind_io (of_result (first_parsed c)) (\<lambda>p.
       case p of None \<Rightarrow> ret [] | Some ds \<Rightarrow> of_result (stamp (ag_type a) ds)))"

text \<open>\<open>int((perf_counter() - started) * 1000)\<close>.\<close>

definition latency_ms :: "rat \<Rightarrow> rat \<Rightarrow> int" where
  "latency_ms started now = (let x = float_mul (float_sub now started) 1000 in if x < 0 then - \<lfloor>- x\<rfloor> else \<lfloor>x\<rfloor>)"

definition clock_now :: "'w agent \<Rightarrow> ('w, rat) io" where
  "clock_now a w = (Inr (ag_clock a w), w)"

definition start_event :: "'w agent \<Rightarrow> uuid \<Rightarrow> emit_args" where
  "start_event a i = (event i (agent_value (ag_type a)) SPAN_START)\<lparr>em_payload :=
     (case ag_version a of None \<Rightarrow> None | Some v \<Rightarrow> if v = [] then None else Some [(lit ''prompt_version'', JStr v)])\<rparr>"

definition tool_event :: "'w agent \<Rightarrow> uuid \<Rightarrow> nat \<Rightarrow> int \<Rightarrow> emit_args" where
  "tool_event a i hits ms = (event i (agent_value (ag_type a)) TOOL_CALL)\<lparr>em_outcome := Some (lit ''ok''),
     em_latency_ms := Some ms, em_payload := Some [(lit ''tool'', JStr (lit ''context_retriever'')),
       (lit ''k'', JInt (ag_k a)), (lit ''hits'', JInt (int hits))]\<rparr>"

definition llm_event :: "'w agent \<Rightarrow> uuid \<Rightarrow> int \<times> int \<Rightarrow> int \<Rightarrow> emit_args" where
  "llm_event a i usage ms = (event i (agent_value (ag_type a)) LLM_CALL)\<lparr>em_model := Some (ag_model a),
     em_tokens_in := Some (fst usage), em_tokens_out := Some (snd usage), em_outcome := Some (lit ''ok''),
     em_latency_ms := Some ms\<rparr>"

definition end_event :: "'w agent \<Rightarrow> uuid \<Rightarrow> pystr \<Rightarrow> int \<Rightarrow> emit_args" where
  "end_event a i out ms = (event i (agent_value (ag_type a)) SPAN_END)\<lparr>em_outcome := Some out,
     em_latency_ms := Some ms\<rparr>"

text \<open>The \<open>try\<close> block: the outcome of the span and the findings.\<close>

definition span_body :: "'w agent \<Rightarrow> diff_context \<Rightarrow> uuid \<Rightarrow> ('w, pystr \<times> finding list) io" where
  "span_body a d i =
     bind_io (clock_now a) (\<lambda>t1.
     bind_io (agent_retrieve a d) (\<lambda>grounding.
     bind_io (clock_now a) (\<lambda>t2.
     bind_io (ag_emit a (tool_event a i (length grounding) (latency_ms t1 t2))) (\<lambda>_.
     bind_io (clock_now a) (\<lambda>t3.
     bind_io (parse_completion a d grounding) (\<lambda>c.
     bind_io (clock_now a) (\<lambda>t4.
     bind_io (ag_emit a (llm_event a i (usage_of c) (latency_ms t3 t4))) (\<lambda>_.
     bind_io (of_result (first_parsed c)) (\<lambda>p.
       case p of None \<Rightarrow> ret (lit ''empty'', [])
       | Some ds \<Rightarrow> bind_io (of_result (stamp (ag_type a) ds)) (\<lambda>fs. ret (lit ''ok'', fs)))))))))))"

text \<open>The \<open>except\<close> and \<open>finally\<close> clauses around it.\<close>

definition in_span :: "'w agent \<Rightarrow> uuid \<Rightarrow> rat \<Rightarrow> ('w, pystr \<times> 'b) io \<Rightarrow> ('w, 'b) io" where
  "in_span a i t0 m w = (case m w of
     (Inl e, w1) \<Rightarrow> (case ag_emit a (end_event a i (lit ''error'') (latency_ms t0 (ag_clock a w1))) w1 of
        (Inl e2, w2) \<Rightarrow> (Inl e2, w2) | (Inr _, w2) \<Rightarrow> (Inl e, w2))
   | (Inr (out, b), w1) \<Rightarrow> (case ag_emit a (end_event a i out (latency_ms t0 (ag_clock a w1))) w1 of
        (Inl e2, w2) \<Rightarrow> (Inl e2, w2) | (Inr _, w2) \<Rightarrow> (Inr b, w2)))"

definition review :: "'w agent \<Rightarrow> diff_context \<Rightarrow> uuid option \<Rightarrow> ('w, finding list) io" where
  "review a d review_id = (case review_id of
     None \<Rightarrow> bind_io (agent_retrieve a d) (call_llm a d)
   | Some i \<Rightarrow>
       bind_io (case ag_budget a of None \<Rightarrow> ret () | Some check \<Rightarrow> check (agent_value (ag_type a))) (\<lambda>_.
       bind_io (ag_emit a (start_event a i)) (\<lambda>_.
       bind_io (clock_now a) (\<lambda>t0. in_span a i t0 (span_body a d i)))))"

subsection \<open>What the prompt keeps\<close>

lemma strip_contains:
  assumes "c \<in> set a" "\<not> is_space c" "d \<in> set b" "\<not> is_space d"
  shows "py_contains (py_strip (a @ l @ b)) l"
proof -
  have "py_lstrip (a @ l @ b) = py_lstrip a @ l @ b"
    unfolding py_lstrip_def using assms(1,2) by (rule dropWhile_append1)
  moreover have "py_rstrip ((py_lstrip a @ l) @ b) = (py_lstrip a @ l) @ py_rstrip b"
    using dropWhile_append1 [of d "rev b" is_space "rev (py_lstrip a @ l)"] assms(3,4) by (simp add: py_rstrip_def)
  ultimately have "py_strip (a @ l @ b) = py_lstrip a @ l @ py_rstrip b" by (simp add: py_strip_def)
  then show ?thesis unfolding py_contains_iff by blast
qed

lemma py_join_append: "xs \<noteq> [] \<Longrightarrow> ys \<noteq> [] \<Longrightarrow> py_join sep (xs @ ys) = py_join sep xs @ sep @ py_join sep ys"
proof (induction sep xs rule: py_join.induct)
  case (2 sep s)
  then show ?case by (cases ys) simp_all
qed simp_all

definition clear_lines :: "pystr \<Rightarrow> pystr" where
  "clear_lines s = py_join [10] (map clear_blank (split_on 10 s))"

lemma clear_lines_append: "clear_lines (a @ 10 # b) = clear_lines a @ 10 # clear_lines b"
  by (simp add: clear_lines_def split_on_append py_join_append)

lemma clear_lines_line: "l \<in> set (split_on 10 s) \<Longrightarrow> \<not> list_all is_blank l \<Longrightarrow> \<exists>a b. clear_lines s = a @ l @ b"
  unfolding clear_lines_def by (rule py_join_part) (force simp: clear_blank_def)

lemma set_py_join: "set (py_join sep ss) \<subseteq> \<Union> (set ` set ss) \<union> set sep"
  by (induction sep ss rule: py_join.induct) auto

lemma clear_lines_char:
  assumes "c \<in> set s" "\<not> is_space c"
  shows "c \<in> set (clear_lines s)"
proof -
  have nb: "\<not> is_blank c" "c \<noteq> 10" using assms(2) by (auto simp: is_blank_def is_space_def)
  have "c \<in> set (py_join [10] (split_on 10 s))" using assms(1) by (simp add: join_split)
  then obtain l where l: "l \<in> set (split_on 10 s)" "c \<in> set l" using set_py_join nb(2) by fastforce
  then have "\<not> list_all is_blank l" using nb(1) by (auto simp: list_all_iff)
  then show ?thesis using clear_lines_line [OF l(1)] l(2) by auto
qed

text \<open>A line that begins with another character than a blank keeps the margin of the whole text.\<close>

lemma dedent_unindented:
  assumes "s = a @ 10 # c # b" "\<not> is_blank c" "c \<noteq> 10"
  shows "py_dedent s = clear_lines s"
proof -
  obtain l ls where b: "split_on 10 b = l # ls" by (cases "split_on 10 b") auto
  have line: "c # l \<in> set (split_on 10 s)" using b assms(3) by (simp add: assms(1) split_on_append)
  have "\<not> list_all is_blank (c # l)" using assms(2) by simp
  then have "margin_of (map clear_blank (split_on 10 s)) = []"
    using line assms(2) by (intro margin_Nil [of "c # l"]) (force simp: clear_blank_def indent_of_def)+
  then show ?thesis by (simp add: py_dedent_def clear_lines_def Let_def py_removeprefix_def py_startswith_def)
qed

lemma prompt_parts:
  fixes d :: diff_context
  defines "pr \<equiv> margin12 @ lit ''Pull request: #'' @ dec_int (dc_number d)"
  shows "\<exists>pre mid post. build_prompt (wrap up tag) d grounding =
      py_strip (pre @ 10 # clear_lines pr @ 10 # mid @ 10 # clear_lines (gr_text (sanitize up (dc_diff d))) @ 10 # post) \<and>
    82 \<in> set pre \<and> open_mark \<in> set post"
proof -
  let ?wr = "wrap up tag" and ?x = "gr_text (sanitize up (dc_diff d))"
  let ?a0 = "[10] @ margin12 @ lit ''Repository: '' @ dc_repo d"
  let ?a2 = "[10] @ margin12 @ lit ''## Diff under review'' @ [10] @ margin12 @ [open_mark] @ lit ''UNTRUSTED:'' @
      tag @ lit '' '' @ lit ''PR DIFF'' @ [close_mark]"
  let ?b = "lit ''/UNTRUSTED:'' @ tag @ [close_mark] @ [10, 10] @ margin12 @
      lit ''## Retrieved codebase context (grounding '' @ [8212] @ lit '' use this, don'' @ [39] @ lit ''t guess)'' @
      [10] @ margin12 @ context_block ?wr grounding @ [10] @ margin12"
  let ?t = "prompt_template d (?wr (lit ''PR DIFF'') (dc_diff d)) (context_block ?wr grounding)"
  have t: "?t = ?a0 @ 10 # pr @ 10 # ?a2 @ 10 # ?x @ 10 # open_mark # ?b"
    by (simp add: prompt_template_def wrap_def pr_def)
  have "py_dedent ?t = clear_lines ?t"
    by (rule dedent_unindented [of _ "?a0 @ 10 # pr @ 10 # ?a2 @ 10 # ?x" open_mark ?b])
      (simp_all add: t is_blank_def open_mark_def)
  then have "build_prompt ?wr d grounding = py_strip (clear_lines ?a0 @ 10 # clear_lines pr @ 10 #
      clear_lines ?a2 @ 10 # clear_lines ?x @ 10 # clear_lines (open_mark # ?b))"
    unfolding build_prompt_def t by (simp only: clear_lines_append)
  moreover have "82 \<in> set (clear_lines ?a0)" by (rule clear_lines_char) (simp_all add: lit_def is_space_def)
  moreover have "open_mark \<in> set (clear_lines (open_mark # ?b))"
    by (rule clear_lines_char) (simp_all add: is_space_def open_mark_def)
  ultimately show ?thesis by blast
qed

lemma clear_pr_line:
  fixes d :: diff_context
  defines "pr \<equiv> margin12 @ lit ''Pull request: #'' @ dec_int (dc_number d)"
  shows "clear_lines pr = pr"
proof -
  have nl: "10 \<notin> set pr"
    using dec_nat_digits [of 10] by (auto simp: pr_def margin12_def lit_def dec_int_def)
  show ?thesis
    by (simp add: clear_lines_def split_on_none [OF nl] clear_blank_def) (simp add: pr_def lit_def is_blank_def)
qed

text \<open>C34. The prompt shows the diff: with the guard's own wrapping, every line of the sanitized diff that is
  not blank stands in the prompt, whatever the retrieved chunks are. The closing sentinel has no
  indentation, so \<open>dedent\<close> removes none and the template's own twelve spaces stay in the prompt.\<close>

theorem prompt_keeps_diff:
  "list_all (\<lambda>l. py_contains (build_prompt (wrap up tag) d grounding) l)
     ((margin12 @ lit ''Pull request: #'' @ dec_int (dc_number d)) #
      filter (\<lambda>l. \<not> list_all is_blank l) (split_on 10 (gr_text (sanitize up (dc_diff d)))))"
proof -
  let ?a1 = "margin12 @ lit ''Pull request: #'' @ dec_int (dc_number d)" and ?x = "gr_text (sanitize up (dc_diff d))"
  let ?p = "build_prompt (wrap up tag) d grounding"
  obtain pre mid post where prompt: "?p = py_strip (pre @ 10 # clear_lines ?a1 @ 10 # mid @ 10 # clear_lines ?x @ 10 # post)"
    and R: "82 \<in> set pre" and E: "open_mark \<in> set post"
    using prompt_parts [of up tag d grounding] by blast
  have in_prompt: "py_contains ?p l" if "clear_lines ?a1 = u @ l @ v \<or> clear_lines ?x = u @ l @ v" for u l v
    using that
  proof
    assume "clear_lines ?a1 = u @ l @ v"
    then show ?thesis unfolding prompt
      using strip_contains [of 82 "pre @ 10 # u" open_mark "v @ 10 # mid @ 10 # clear_lines ?x @ 10 # post" l] R E
      by (simp add: is_space_def open_mark_def)
  next
    assume "clear_lines ?x = u @ l @ v"
    then show ?thesis unfolding prompt
      using strip_contains [of 82 "pre @ 10 # clear_lines ?a1 @ 10 # mid @ 10 # u" open_mark "v @ 10 # post" l] R E
      by (simp add: is_space_def open_mark_def)
  qed
  have "py_contains ?p ?a1" by (intro in_prompt [of "[]" _ "[]"]) (simp add: clear_pr_line)
  moreover have "py_contains ?p l" if "l \<in> set (split_on 10 ?x)" "\<not> list_all is_blank l" for l
    using clear_lines_line [OF that] in_prompt by blast
  ultimately show ?thesis by (auto simp: list_all_iff)
qed

subsection \<open>The contract of an agent's effects\<close>

text \<open>An emit that returns has written its row, one that raises has written it or nothing, and no other
  effect writes the events spine.\<close>

definition row_is :: "emit_args \<Rightarrow> event_row \<Rightarrow> bool" where
  "row_is a r \<longleftrightarrow> ev_review_id r = em_review_id a \<and> ev_agent r = em_agent a \<and> ev_type r = em_type a \<and>
     ev_outcome r = em_outcome a"

definition signature :: "event_row \<Rightarrow> pystr \<times> pystr option" where
  "signature r = (ev_type r, ev_outcome r)"

definition row_by :: "uuid \<Rightarrow> pystr \<Rightarrow> event_row \<Rightarrow> bool" where
  "row_by i name x \<longleftrightarrow> ev_review_id x = i \<and> ev_agent x = name"

text \<open>The rows of a complete span.\<close>

definition span_of :: "pystr \<Rightarrow> (pystr \<times> pystr option) list" where
  "span_of out = [(SPAN_START, None), (TOOL_CALL, Some (lit ''ok'')), (LLM_CALL, Some (lit ''ok'')), (SPAN_END, Some out)]"

locale agent_env =
  fixes a :: "'w agent" and log :: "'w \<Rightarrow> event_row list"
  assumes emit_writes: "ag_emit a e w = (r, w') \<Longrightarrow>
      (\<exists>x. log w' = log w @ [x] \<and> row_is e x) \<or> (log w' = log w \<and> r \<noteq> Inr ())"
    and budget_quiet: "ag_budget a = Some check \<Longrightarrow> log (snd (check name w)) = log w"
    and retrieve_quiet: "log (snd (ag_retrieve a repo query k w)) = log w"
    and parse_quiet: "log (snd (ag_parse a q w)) = log w"
begin

text \<open>\<open>writes i m ts\<close>: on returning, \<open>m\<close> has written rows of this agent and the review \<open>i\<close> whose types and
  outcomes are \<open>ts\<close>; on raising, some of those, in order.\<close>

definition writes :: "uuid \<Rightarrow> ('w, 'b) io \<Rightarrow> (pystr \<times> pystr option) list \<Rightarrow> bool" where
  "writes i m ts \<longleftrightarrow> (\<forall>w r w'. m w = (r, w') \<longrightarrow> (\<exists>rs. log w' = log w @ rs \<and> list_all (row_by i (agent_value (ag_type a))) rs \<and>
     subseq (map signature rs) ts \<and> ((\<exists>v. r = Inr v) \<longrightarrow> map signature rs = ts)))"

lemma writesE:
  assumes "writes i m ts" "m w = (r, w')"
  obtains rs where "log w' = log w @ rs" "list_all (row_by i (agent_value (ag_type a))) rs" "subseq (map signature rs) ts"
    "(\<exists>v. r = Inr v) \<longrightarrow> map signature rs = ts"
proof -
  from assms(1) [unfolded writes_def, rule_format, OF assms(2)] show thesis by (elim exE conjE) (rule that)
qed

lemma quiet_writes: "(\<And>w. log (snd (m w)) = log w) \<Longrightarrow> writes i m []"
  unfolding writes_def by (intro allI impI exI [of _ "[]"]) (metis append_Nil2 list.map_disc_iff list.pred_inject(1) list_emb_Nil snd_conv list.simps(8))

lemma emit_writes_row:
  assumes "em_review_id e = i" "em_agent e = agent_value (ag_type a)"
  shows "writes i (ag_emit a e) [(em_type e, em_outcome e)]"
  unfolding writes_def
proof (intro allI impI)
  fix w r w' assume "ag_emit a e w = (r, w')"
  from emit_writes [OF this] show "\<exists>rs. log w' = log w @ rs \<and> list_all (row_by i (agent_value (ag_type a))) rs \<and>
     subseq (map signature rs) [(em_type e, em_outcome e)] \<and>
     ((\<exists>v. r = Inr v) \<longrightarrow> map signature rs = [(em_type e, em_outcome e)])"
  proof (elim disjE exE conjE)
    fix x assume "log w' = log w @ [x]" "row_is e x"
    with assms show ?thesis by (intro exI [of _ "[x]"]) (simp add: row_by_def row_is_def signature_def)
  next
    assume "log w' = log w" "r \<noteq> Inr ()"
    then show ?thesis by (intro exI [of _ "[]"]) auto
  qed
qed

lemma writes_bind:
  assumes m: "writes i m ts" and f: "\<And>v. writes i (f v) us"
  shows "writes i (bind_io m f) (ts @ us)"
  unfolding writes_def
proof (intro allI impI)
  fix w r w' assume run: "bind_io m f w = (r, w')"
  obtain q w1 where q: "m w = (q, w1)" by (cases "m w")
  obtain rs where rs: "log w1 = log w @ rs" "list_all (row_by i (agent_value (ag_type a))) rs" "subseq (map signature rs) ts"
      "(\<exists>v. q = Inr v) \<longrightarrow> map signature rs = ts"
    using writesE [OF m q] by blast
  show "\<exists>rs. log w' = log w @ rs \<and> list_all (row_by i (agent_value (ag_type a))) rs \<and> subseq (map signature rs) (ts @ us) \<and>
      ((\<exists>v. r = Inr v) \<longrightarrow> map signature rs = ts @ us)"
  proof (cases q)
    case (Inl e)
    then show ?thesis using run q rs by (intro exI [of _ rs]) (auto simp: bind_io_def)
  next
    case (Inr v)
    then have "f v w1 = (r, w')" using run q by (simp add: bind_io_def)
    from writesE [OF f this] obtain rs' where rs': "log w' = log w1 @ rs'" "list_all (row_by i (agent_value (ag_type a))) rs'"
        "subseq (map signature rs') us" "(\<exists>v. r = Inr v) \<longrightarrow> map signature rs' = us" by blast
    with rs Inr show ?thesis by (intro exI [of _ "rs @ rs'"]) (auto intro: list_emb_append_mono)
  qed
qed

lemma writes_quiet_bind: "writes i m [] \<Longrightarrow> (\<And>v. writes i (f v) us) \<Longrightarrow> writes i (bind_io m f) us"
  using writes_bind [of i m "[]" f us] by simp

lemma writes_emit_bind:
  assumes "em_review_id e = i" "em_agent e = agent_value (ag_type a)" "ts = (em_type e, em_outcome e) # us"
    and "writes i k us"
  shows "writes i (bind_io (ag_emit a e) (\<lambda>_. k)) ts"
  using writes_bind [OF emit_writes_row [OF assms(1,2)], of "\<lambda>_. k" us] assms(3,4) by simp

lemma quiet_steps:
  "writes i (clock_now a) []" "writes i (agent_retrieve a d) []" "writes i (parse_completion a d g) []"
  "writes i (of_result x) []" "writes i (ret v) []"
  by (rule quiet_writes, simp add: clock_now_def agent_retrieve_def parse_completion_def of_result_def ret_def
      retrieve_quiet parse_quiet)+

lemmas event_defs = start_event_def tool_event_def llm_event_def end_event_def event_def

lemma body_writes: "writes i (span_body a d i) [(TOOL_CALL, Some (lit ''ok'')), (LLM_CALL, Some (lit ''ok''))]"
proof -
  have tail: "writes i (case p of None \<Rightarrow> ret (lit ''empty'', [])
      | Some ds \<Rightarrow> bind_io (of_result (stamp (ag_type a) ds)) (\<lambda>fs. ret (lit ''ok'', fs))) []" for p
    by (cases p) (auto intro!: writes_quiet_bind quiet_steps)
  show ?thesis unfolding span_body_def
    by (rule writes_quiet_bind writes_emit_bind quiet_steps tail | simp add: event_defs)+
qed

lemma body_outcome:
  "span_body a d i w = (Inr (out, fs), w') \<Longrightarrow> out = lit ''ok'' \<or> out = lit ''empty'' \<and> fs = []"
  by (auto simp: span_body_def bind_io_Inr_iff ret_def split: option.splits)

text \<open>What is in the log after \<open>in_span\<close> around the body.\<close>

lemma in_span_trace:
  assumes run: "in_span a i t0 (span_body a d i) w = (r, w')"
  shows "\<exists>rs out. log w' = log w @ rs \<and> list_all (row_by i (agent_value (ag_type a))) rs \<and> out \<in> {lit ''ok'', lit ''empty'', lit ''error''} \<and>
    subseq (map signature rs) (tl (span_of out)) \<and>
    (\<forall>fs. r = Inr fs \<longrightarrow> map signature rs = tl (span_of out) \<and> (out = lit ''ok'' \<or> out = lit ''empty'' \<and> fs = []))"
proof -
  obtain q w1 where q: "span_body a d i w = (q, w1)" by (cases "span_body a d i w")
  define out where "out = (case q of Inl e \<Rightarrow> lit ''error'' | Inr (out, b) \<Rightarrow> out)"
  obtain e w2 where e: "ag_emit a (end_event a i out (latency_ms t0 (ag_clock a w1))) w1 = (e, w2)" by (metis surj_pair)
  have w': "w' = w2" and r: "\<And>fs. r = Inr fs \<Longrightarrow> q = Inr (out, fs) \<and> (\<exists>v. e = Inr v)"
    using run q e by (auto simp: in_span_def out_def split: sum.splits prod.splits)
  obtain rs where rs: "log w1 = log w @ rs" "list_all (row_by i (agent_value (ag_type a))) rs"
      "subseq (map signature rs) [(TOOL_CALL, Some (lit ''ok'')), (LLM_CALL, Some (lit ''ok''))]"
      "(\<exists>v. q = Inr v) \<longrightarrow> map signature rs = [(TOOL_CALL, Some (lit ''ok'')), (LLM_CALL, Some (lit ''ok''))]"
    using writesE [OF body_writes q] by blast
  have "writes i (ag_emit a (end_event a i out (latency_ms t0 (ag_clock a w1)))) [(SPAN_END, Some out)]"
    using emit_writes_row [of "end_event a i out (latency_ms t0 (ag_clock a w1))" i] by (simp add: event_defs)
  from writesE [OF this e] obtain rs' where rs': "log w2 = log w1 @ rs'" "list_all (row_by i (agent_value (ag_type a))) rs'"
      "subseq (map signature rs') [(SPAN_END, Some out)]" "(\<exists>v. e = Inr v) \<longrightarrow> map signature rs' = [(SPAN_END, Some out)]"
    by blast
  have "subseq (map signature rs @ map signature rs') ([(TOOL_CALL, Some (lit ''ok'')), (LLM_CALL, Some (lit ''ok''))] @ [(SPAN_END, Some out)])"
    using rs(3) rs'(3) by (rule list_emb_append_mono)
  moreover have "out \<in> {lit ''ok'', lit ''empty'', lit ''error''}"
    using body_outcome [of d i w] q by (auto simp: out_def split: sum.splits)
  moreover have "out = lit ''ok'' \<or> out = lit ''empty'' \<and> fs = []" if "r = Inr fs" for fs
    using body_outcome [of d i w out fs w1] q r [OF that] by auto
  ultimately show ?thesis
    using rs rs' r w' by (intro exI [of _ "rs @ rs'"] exI [of _ out]) (auto simp: span_of_def)
qed

lemma review_trace:
  assumes run: "review a d (Some i) w = (r, w')"
  shows "\<exists>rs out. log w' = log w @ rs \<and> list_all (row_by i (agent_value (ag_type a))) rs \<and> out \<in> {lit ''ok'', lit ''empty'', lit ''error''} \<and>
    subseq (map signature rs) (span_of out) \<and>
    (\<forall>fs. r = Inr fs \<longrightarrow> map signature rs = span_of out \<and> (out = lit ''ok'' \<or> out = lit ''empty'' \<and> fs = []))"
proof -
  let ?check = "case ag_budget a of None \<Rightarrow> ret () | Some check \<Rightarrow> check (agent_value (ag_type a))"
  have "writes i ?check []"
    by (rule quiet_writes) (auto simp: ret_def budget_quiet split: option.split)
  moreover have "writes i (ag_emit a (start_event a i)) [(SPAN_START, None)]"
    using emit_writes_row [of "start_event a i" i] by (simp add: event_defs)
  ultimately have w: "writes i (bind_io ?check (\<lambda>_. ag_emit a (start_event a i))) [(SPAN_START, None)]"
    by (rule writes_quiet_bind)
  obtain q w1 where q: "bind_io ?check (\<lambda>_. ag_emit a (start_event a i)) w = (q, w1)" by (metis surj_pair)
  from writesE [OF w q] obtain rs where rs: "log w1 = log w @ rs" "list_all (row_by i (agent_value (ag_type a))) rs"
      "subseq (map signature rs) [(SPAN_START, None)]" "(\<exists>v. q = Inr v) \<longrightarrow> map signature rs = [(SPAN_START, None)]"
    by blast
  have rev: "review a d (Some i) w =
      bind_io (bind_io ?check (\<lambda>_. ag_emit a (start_event a i))) (\<lambda>_. bind_io (clock_now a) (\<lambda>t0. in_span a i t0 (span_body a d i))) w"
    by (simp add: review_def bind_assoc)
  show ?thesis
  proof (cases q)
    case (Inl e)
    then have "r = Inl e" "w' = w1" using run q unfolding rev by (auto simp: bind_io_def)
    moreover have "subseq (map signature rs) (span_of (lit ''error''))"
      by (rule subseq_order.trans [OF rs(3)]) (simp add: span_of_def subseq_singleton_left)
    ultimately show ?thesis using rs by (intro exI [of _ rs] exI [of _ "lit ''error''"]) auto
  next
    case (Inr v)
    then have "in_span a i (ag_clock a w1) (span_body a d i) w1 = (r, w')"
      using run q unfolding rev by (simp add: bind_io_def clock_now_def)
    from in_span_trace [OF this] obtain rs' out where rs': "log w' = log w1 @ rs'" "list_all (row_by i (agent_value (ag_type a))) rs'"
        "out \<in> {lit ''ok'', lit ''empty'', lit ''error''}" "subseq (map signature rs') (tl (span_of out))"
        "\<forall>fs. r = Inr fs \<longrightarrow> map signature rs' = tl (span_of out) \<and> (out = lit ''ok'' \<or> out = lit ''empty'' \<and> fs = [])"
      by blast
    have "map signature rs = [(SPAN_START, None)]" using rs(4) Inr by simp
    then show ?thesis using rs(1,2) rs' by (intro exI [of _ "rs @ rs'"] exI [of _ out]) (auto simp: span_of_def)
  qed
qed

end

subsection \<open>The specialists on the production services\<close>

definition DEFAULT_MODEL :: pystr where "DEFAULT_MODEL = lit ''gpt-5.4-mini''"
definition DEFAULT_GROUNDING_K :: int where "DEFAULT_GROUNDING_K = 5"

record ('e, 'c) agent_world =
  aw_pool :: "tiger_db remote rt"
  aw_retrieval :: "breaker option"
  aw_cost :: "breaker option"
  aw_embed :: "breaker option \<times> 'e rt"
  aw_chat :: "breaker option \<times> 'c rt"

record ('e, 'c) agent_setup =
  as_num106 :: "rat \<Rightarrow> rat"
  as_num43 :: "rat \<Rightarrow> rat"
  as_embeddings :: "pystr \<Rightarrow> ('e, rat list) op"
  as_ranking :: ranking
  as_llm :: "llm_request \<Rightarrow> ('c, completion) op"
  as_cap :: "rat option"
  as_word :: "nat \<Rightarrow> bool"
  as_tag :: pystr

definition world_emit :: "('e, 'c) agent_setup \<Rightarrow> emit_args \<Rightarrow> (('e, 'c) agent_world, unit) io" where
  "world_emit s e = zoom (\<lambda>w. (None, aw_pool w)) (\<lambda>c w. w\<lparr>aw_pool := snd c\<rparr>)
     (sink_emit (as_num106 s) (as_num43 s) e)"

definition world_spend :: "(('e, 'c) agent_world, rat) io" where
  "world_spend = zoom (\<lambda>w. (aw_cost w, aw_pool w)) (\<lambda>c w. w\<lparr>aw_cost := fst c, aw_pool := snd c\<rparr>) spend_today_usd"

definition world_retrieve :: "('e, 'c) agent_setup \<Rightarrow> pystr \<Rightarrow> pystr \<Rightarrow> int
    \<Rightarrow> (('e, 'c) agent_world, retrieved_chunk list) io" where
  "world_retrieve s repo query k = zoom (\<lambda>w. \<lparr>rt_embed = aw_embed w, rt_pool = (aw_retrieval w, aw_pool w)\<rparr>)
     (\<lambda>c w. w\<lparr>aw_embed := rt_embed c, aw_retrieval := fst (rt_pool c), aw_pool := snd (rt_pool c)\<rparr>)
     (retrieve (as_embeddings s) (as_ranking s) repo query k)"

text \<open>\<open>SpecialistAgent.__init__\<close> with an event sink, the default guard, model and \<open>k\<close>, and a budget guard
  when a cap is given.\<close>

definition specialist :: "('e, 'c) agent_setup \<Rightarrow> agent_type \<Rightarrow> versioned_prompt \<Rightarrow> ('e, 'c) agent_world agent" where
  "specialist s ty vp =
     \<lparr>ag_type = ty, ag_system_prompt = vp_text vp, ag_version = Some (vp_version vp), ag_model = DEFAULT_MODEL,
      ag_k = DEFAULT_GROUNDING_K, ag_hardening = hardening_clause (as_tag s), ag_wrap = wrap (as_word s) (as_tag s),
      ag_budget = map_option (\<lambda>cap. budget_check cap world_spend) (as_cap s), ag_emit = world_emit s,
      ag_retrieve = world_retrieve s,
      ag_parse = (\<lambda>q. zoom aw_chat (\<lambda>c w. w\<lparr>aw_chat := c\<rparr>) (guarded_parse (as_llm s) q)),
      ag_clock = (\<lambda>w. clock (aw_pool w) + clock (snd (aw_embed w)) + clock (snd (aw_chat w)))\<rparr>"

text \<open>\<open>agents/specialists/\<close>: each specialist is a type and the prompt of its name.\<close>

definition agent_from_registry :: "(pystr \<Rightarrow> pystr) \<Rightarrow> (pystr \<Rightarrow> exn + pystr) \<Rightarrow> ('e, 'c) agent_setup \<Rightarrow> agent_type \<Rightarrow> string
    \<Rightarrow> exn + ('e, 'c) agent_world agent" where
  "agent_from_registry sha read s ty name =
     (case prompt_get sha read (lit name) of Inl e \<Rightarrow> Inl e | Inr vp \<Rightarrow> Inr (specialist s ty vp))"

definition SecurityAgent :: "(pystr \<Rightarrow> pystr) \<Rightarrow> (pystr \<Rightarrow> exn + pystr) \<Rightarrow> ('e, 'c) agent_setup \<Rightarrow> exn + ('e, 'c) agent_world agent" where
  "SecurityAgent sha read s = agent_from_registry sha read s SECURITY ''security''"

definition QualityAgent :: "(pystr \<Rightarrow> pystr) \<Rightarrow> (pystr \<Rightarrow> exn + pystr) \<Rightarrow> ('e, 'c) agent_setup \<Rightarrow> exn + ('e, 'c) agent_world agent" where
  "QualityAgent sha read s = agent_from_registry sha read s QUALITY ''quality''"

definition TestsAgent :: "(pystr \<Rightarrow> pystr) \<Rightarrow> (pystr \<Rightarrow> exn + pystr) \<Rightarrow> ('e, 'c) agent_setup \<Rightarrow> exn + ('e, 'c) agent_world agent" where
  "TestsAgent sha read s = agent_from_registry sha read s TESTS ''tests''"

definition DocsAgent :: "(pystr \<Rightarrow> pystr) \<Rightarrow> (pystr \<Rightarrow> exn + pystr) \<Rightarrow> ('e, 'c) agent_setup \<Rightarrow> exn + ('e, 'c) agent_world agent" where
  "DocsAgent sha read s = agent_from_registry sha read s DOCS ''docs''"

abbreviation world_events :: "('e, 'c) agent_world \<Rightarrow> event_row list" where
  "world_events w \<equiv> agent_events (store (dep (aw_pool w)))"

lemma zoom_run:
  "zoom get put m w = (r, w') \<longleftrightarrow> (\<exists>s. m (get w) = (r, s) \<and> w' = put s w)"
  by (auto simp: zoom_def split: prod.splits)

lemma idem_hybrid: "idempotent_stmt (hybrid_sql rk q repo k query)"
  by (auto simp: idempotent_stmt_def hybrid_sql_def split: if_splits)

lemma snd_hybrid: "snd (hybrid_sql rk q repo k query db) = db"
  by (simp add: hybrid_sql_def)

lemma retrieve_reads:
  assumes "retrieve api rk repo query k w = (r, w')"
  shows "conn_db (rt_pool w') = conn_db (rt_pool w)"
proof -
  obtain q w1 where q: "embed api query w = (q, w1)" by (cases "embed api query w")
  then have pool: "rt_pool w1 = rt_pool w" unfolding embed_def zoom_run by auto
  show ?thesis
  proof (cases q)
    case (Inl e)
    then show ?thesis using assms q pool by (simp add: retrieve_def bind_io_def)
  next
    case (Inr v)
    then obtain c where "guarded (lit ''context_retriever.retrieve'') (hybrid_sql rk v repo k (or_space (take 2000 query)))
        (rt_pool w1) = (r, c)" "w' = w1\<lparr>rt_pool := c\<rparr>"
      using assms q by (auto simp: retrieve_def bind_io_def zoom_run)
    with guarded_idempotent(1) [OF idem_hybrid this(1)] show ?thesis by (simp add: snd_hybrid pool)
  qed
qed

interpretation production: agent_env "specialist s ty vp" world_events
  for s :: "('e, 'c) agent_setup" and ty vp
proof unfold_locales
  fix e :: emit_args and w w' :: "('e, 'c) agent_world" and r
  assume "ag_emit (specialist s ty vp) e w = (r, w')"
  then obtain c where c: "unguarded (emit_sql (as_num106 s) (as_num43 s) e) (None, aw_pool w) = (r, c)"
      and w': "w' = w\<lparr>aw_pool := snd c\<rparr>"
    by (auto simp: specialist_def world_emit_def zoom_run sink_emit_def)
  have one: "agent_events (snd (emit_sql n m e db)) = agent_events db @ [event_row_of n m e db]"
    and row: "row_is e (event_row_of n m e db)" for n m db
    by (simp_all add: emit_sql_def row_is_def event_row_of_def)
  from unguarded_once(1) [OF c] show "(\<exists>x. world_events w' = world_events w @ [x] \<and> row_is e x) \<or>
      world_events w' = world_events w \<and> r \<noteq> Inr ()"
  proof
    assume "conn_db c = conn_db (None, aw_pool w)"
    moreover have "r \<noteq> Inr ()"
      using unguarded_once(2) [OF c, of "()"] one [of _ _ "conn_db (None, aw_pool w)"] calculation
      by (metis append_self_conv not_Cons_self2 snd_conv)
    ultimately show ?thesis by (simp add: w')
  qed (simp add: w' one row)
next
  fix check name and w :: "('e, 'c) agent_world"
  assume "ag_budget (specialist s ty vp) = Some check"
  then obtain cap where check: "check = budget_check cap world_spend" by (auto simp: specialist_def)
  obtain q w1 where q: "world_spend w = (q, w1)" by (cases "world_spend w")
  then have "world_events w1 = world_events w"
    unfolding world_spend_def zoom_run using spend_today_reads(1) by fastforce
  moreover have "snd (check name w) = w1" using q by (cases q) (simp_all add: check budget_check_def bind_io_def raise_def ret_def)
  ultimately show "world_events (snd (check name w)) = world_events w" by simp
next
  show "world_events (snd (ag_retrieve (specialist s ty vp) repo query k w)) = world_events w" for repo query k and w :: "('e, 'c) agent_world"
  proof -
    obtain r c where "retrieve (as_embeddings s) (as_ranking s) repo query k
        \<lparr>rt_embed = aw_embed w, rt_pool = (aw_retrieval w, aw_pool w)\<rparr> = (r, c)" by (metis surj_pair)
    with retrieve_reads [OF this] show ?thesis by (simp add: specialist_def world_retrieve_def zoom_def)
  qed
next
  show "world_events (snd (ag_parse (specialist s ty vp) q w)) = world_events w" for q and w :: "('e, 'c) agent_world"
    by (simp add: specialist_def zoom_def split: prod.split)
qed

subsection \<open>What a review leaves behind\<close>

lemma review_stamped:
  assumes "review a d (Some i) w = (Inr fs, w')"
  shows "list_all (\<lambda>f. f_agent f = ag_type a \<and> valid_finding f) fs"
proof -
  obtain t0 w1 where "in_span a i t0 (span_body a d i) w1 = (Inr fs, w')"
    using assms by (auto simp: review_def bind_io_Inr_iff)
  then obtain out w2 where "span_body a d i w1 = (Inr (out, fs), w2)"
    by (auto simp: in_span_def split: sum.splits prod.splits)
  then have "fs = [] \<or> (\<exists>ds. stamp (ag_type a) ds = Inr fs)"
    by (auto simp: span_body_def bind_io_Inr_iff ret_def of_result_def split: option.splits)
  then show ?thesis by (auto simp: stamp_def list_all_iff dest: map_result_set from_draft_Inr)
qed

text \<open>C16. The trace of a traced review, whatever fails: the rows it adds to the events spine are the
  review's own, in the order start, retrieval, model call, end; a review that returns has written all
  four, the end row saying \<open>empty\<close> only when there are no findings, and its findings are valid and
  carry the specialist's type. A failing one has written some of them in that order.\<close>

theorem agent_span_trace:
  "case review (specialist s ty vp) d (Some i) w of (r, w') \<Rightarrow>
     \<exists>rs out. world_events w' = world_events w @ rs \<and> list_all (row_by i (agent_value ty)) rs \<and>
       out \<in> {lit ''ok'', lit ''empty'', lit ''error''} \<and> subseq (map signature rs) (span_of out) \<and>
       (case r of Inl e \<Rightarrow> True
        | Inr fs \<Rightarrow> map signature rs = span_of out \<and> (out = lit ''ok'' \<or> out = lit ''empty'' \<and> fs = []) \<and>
            list_all (\<lambda>f. f_agent f = ty \<and> valid_finding f) fs)"
proof -
  obtain r w' where run: "review (specialist s ty vp) d (Some i) w = (r, w')" by (metis surj_pair)
  have ty: "ag_type (specialist s ty vp) = ty" by (simp add: specialist_def)
  from production.review_trace [OF run] obtain rs out where rs: "world_events w' = world_events w @ rs"
      "list_all (row_by i (agent_value ty)) rs" "out \<in> {lit ''ok'', lit ''empty'', lit ''error''}"
      "subseq (map signature rs) (span_of out)"
      "\<forall>fs. r = Inr fs \<longrightarrow> map signature rs = span_of out \<and> (out = lit ''ok'' \<or> out = lit ''empty'' \<and> fs = [])"
    unfolding ty by blast
  show ?thesis unfolding run prod.case
    by (intro exI [of _ rs] exI [of _ out] conjI rs(1-4))
      (use rs(5) review_stamped run ty in \<open>fastforce split: sum.split\<close>)
qed


definition sample_setup :: "rat option \<Rightarrow> (unit, unit) agent_setup" where
  "sample_setup cap = \<lparr>as_num106 = id, as_num43 = id,
     as_embeddings = (\<lambda>q u. \<lparr>dur = 1, outcome = Inr [0], done_dep = u, cut_dep = u\<rparr>), as_ranking = sample_ranking,
     as_llm = (\<lambda>q u. \<lparr>dur = 1, outcome = Inr \<lparr>cp_usage = None, cp_choices = [Some []]\<rparr>, done_dep = u, cut_dep = u\<rparr>),
     as_cap = cap, as_word = (\<lambda>_. True), as_tag = lit ''0fc3''\<rparr>"

definition spent_event :: "rat \<Rightarrow> event_row" where
  "spent_event c = event_row_of id id ((event 0 (lit ''security'') LLM_CALL)\<lparr>em_cost := Some c\<rparr>) empty_db"

definition sample_agent_world :: "event_row list \<Rightarrow> (unit, unit) agent_world" where
  "sample_agent_world es = \<lparr>aw_pool = \<lparr>clock = 0, slept = [], dep = \<lparr>script = [], store = empty_db\<lparr>agent_events := es\<rparr>\<rparr>\<rparr>,
     aw_retrieval = None, aw_cost = None, aw_embed = (None, \<lparr>clock = 0, slept = [], dep = ()\<rparr>),
     aw_chat = (None, \<lparr>clock = 0, slept = [], dep = ()\<rparr>)\<rparr>"


end
