(* ===== verification/Evaluation.thy ===== *)
theory Evaluation
  imports BaseAgent "HOL-Library.Multiset"
begin

text \<open>
  \<open>evaluation/\<close>: golden cases, the deterministic scorer, the regression gate, the live runner and the
  non-blocking judge. \<open>lower\<close> is \<open>str.lower\<close>; reading YAML and JSON, the command line and the clock are
  parameters. The runner works on the services of \<open>agent_world\<close>.
\<close>

subsection \<open>golden_dataset.py\<close>

record repo_file =
  rf_path :: pystr
  rf_content :: pystr

record expected_finding =
  xf_agent :: agent_type
  xf_file :: pystr
  xf_line :: "int option"
  xf_tolerance :: int
  xf_category :: "pystr option"
  xf_rationale :: "pystr option"
  xf_note :: "pystr option"

record golden_case =
  gc_id :: pystr
  gc_context :: "repo_file list"
  gc_diff :: pystr
  gc_expected :: "expected_finding list"
  gc_max :: "(agent_type \<times> int) list"

definition show_line :: "int option \<Rightarrow> pystr" where
  "show_line l = (case l of None \<Rightarrow> lit ''None'' | Some n \<Rightarrow> dec_int n)"

definition case_label :: "expected_finding \<Rightarrow> pystr" where
  "case_label e = (case xf_note e of Some n \<Rightarrow> if n \<noteq> [] then n
       else agent_value (xf_agent e) @ lit '':'' @ xf_file e @ lit '':'' @ show_line (xf_line e)
     | None \<Rightarrow> agent_value (xf_agent e) @ lit '':'' @ xf_file e @ lit '':'' @ show_line (xf_line e))"

text \<open>\<open>files\<close> are the directory's \<open>*.yaml\<close> files with their contents, \<open>parse\<close> loads and validates one.\<close>

definition load_golden_cases :: "(pystr \<Rightarrow> exn + golden_case) \<Rightarrow> pystr \<Rightarrow> (pystr \<times> pystr) list \<Rightarrow> exn + golden_case list" where
  "load_golden_cases parse dir files =
     (if files = [] then Inl (FileNotFoundError (lit ''no golden cases found under '' @ dir))
      else map_result (\<lambda>f. parse (snd f)) (sort_key fst files))"

subsection \<open>scorer.py\<close>

definition matches_finding :: "(pystr \<Rightarrow> pystr) \<Rightarrow> expected_finding \<Rightarrow> finding \<Rightarrow> bool" where
  "matches_finding lower e f \<longleftrightarrow>
     (if f_agent f \<noteq> xf_agent e then False
      else if f_file f \<noteq> xf_file e then False
      else if (case (xf_line e, f_line f) of (Some a, Some b) \<Rightarrow> xf_tolerance e < \<bar>b - a\<bar> | _ \<Rightarrow> False) then False
      else if (case xf_category e of None \<Rightarrow> False | Some c \<Rightarrow> \<not> py_contains (lower (f_category f)) (lower c)) then False
      else if (case xf_rationale e of None \<Rightarrow> False
                | Some c \<Rightarrow> \<not> py_contains (lower (f_title f @ [10] @ f_rationale f)) (lower c)) then False
      else True)"

record case_score =
  cs_id :: pystr
  cs_expected :: nat
  cs_matched :: nat
  cs_missed :: "pystr list"
  cs_false_positives :: int
  cs_by_agent :: "(pystr \<times> nat) list"

definition recall :: "case_score \<Rightarrow> rat" where
  "recall c = (if cs_expected c = 0 then 1 else float_div (of_nat (cs_matched c)) (of_nat (cs_expected c)))"

definition mean_recall :: "case_score list \<Rightarrow> rat" where
  "mean_recall cs = (if cs = [] then 1 else float_div (float_sum 0 0 (map recall cs)) (of_nat (length cs)))"

definition total_false_positives :: "case_score list \<Rightarrow> int" where
  "total_false_positives cs = sum_list (map cs_false_positives cs)"

text \<open>The loop over the expected findings: the findings that remain, those hit, and the missed ones.\<close>

primrec match_loop :: "(expected_finding \<Rightarrow> finding \<Rightarrow> bool) \<Rightarrow> expected_finding list \<Rightarrow> finding list
    \<Rightarrow> (expected_finding \<times> finding) list \<times> expected_finding list" where
  "match_loop m [] remaining = ([], [])"
| "match_loop m (e # es) remaining = (case find (m e) remaining of
     None \<Rightarrow> (case match_loop m es remaining of (hits, missed) \<Rightarrow> (hits, e # missed))
   | Some f \<Rightarrow> (case match_loop m es (remove1 f remaining) of (hits, missed) \<Rightarrow> ((e, f) # hits, missed)))"

definition count_agents :: "finding list \<Rightarrow> (pystr \<times> nat) list" where
  "count_agents fs = map (\<lambda>(a, l). (a, length l)) (group_by (\<lambda>f. agent_value (f_agent f)) fs)"

definition false_positives :: "(agent_type \<times> int) list \<Rightarrow> (pystr \<times> nat) list \<Rightarrow> int" where
  "false_positives caps counts = sum_list (map (\<lambda>(a, cap).
     max 0 (int (case map_of counts (agent_value a) of None \<Rightarrow> 0 | Some n \<Rightarrow> n) - cap)) caps)"

definition score_case :: "(pystr \<Rightarrow> pystr) \<Rightarrow> golden_case \<Rightarrow> finding list \<Rightarrow> case_score" where
  "score_case lower c actual = (case match_loop (matches_finding lower) (gc_expected c) actual of (hits, missed) \<Rightarrow>
     \<lparr>cs_id = gc_id c, cs_expected = length (gc_expected c), cs_matched = length hits,
      cs_missed = map case_label missed, cs_false_positives = false_positives (gc_max c) (count_agents actual),
      cs_by_agent = count_agents actual\<rparr>)"

definition score_suite :: "(pystr \<Rightarrow> pystr) \<Rightarrow> (golden_case \<times> finding list) list \<Rightarrow> case_score list" where
  "score_suite lower pairs = map (\<lambda>(c, fs). score_case lower c fs) pairs"

subsection \<open>regression_gate.py\<close>

record gate_thresholds =
  gt_recall_drop :: rat
  gt_fp_increase :: int

definition default_thresholds :: gate_thresholds where
  "default_thresholds = \<lparr>gt_recall_drop = fl (5 / 100), gt_fp_increase = 0\<rparr>"

record baseline =
  bl_recall :: rat
  bl_fp :: int
  bl_recorded_at :: pystr
  bl_cases :: "pystr list"

record gate_report =
  gp_passed :: bool
  gp_reasons :: "pystr list"
  gp_recall :: rat
  gp_fp :: int
  gp_base_recall :: rat
  gp_base_fp :: int

definition evaluate :: "case_score list \<Rightarrow> baseline \<Rightarrow> gate_thresholds \<Rightarrow> gate_report" where
  "evaluate suite b t =
     (let drop_by = float_sub (bl_recall b) (mean_recall suite);
          rise = total_false_positives suite - bl_fp b;
          arrow = lit '' '' @ [8594] @ lit '' '';
          reasons =
            (if gt_recall_drop t < drop_by then
               [lit ''mean recall dropped '' @ fmt_fixed 3 drop_by @ lit '' ('' @ fmt_fixed 3 (bl_recall b) @ arrow @
                fmt_fixed 3 (mean_recall suite) @ lit ''), over the '' @ fmt_fixed 3 (gt_recall_drop t) @ lit '' tolerance'']
             else []) @
            (if gt_fp_increase t < rise then
               [lit ''false positives rose by '' @ dec_int rise @ lit '' ('' @ dec_int (bl_fp b) @ arrow @
                dec_int (total_false_positives suite) @ lit '')'']
             else [])
      in \<lparr>gp_passed = (reasons = []), gp_reasons = reasons, gp_recall = mean_recall suite,
          gp_fp = total_false_positives suite, gp_base_recall = bl_recall b, gp_base_fp = bl_fp b\<rparr>)"

definition baseline_from_suite :: "pystr \<Rightarrow> case_score list \<Rightarrow> pystr list \<Rightarrow> baseline" where
  "baseline_from_suite now suite ids = \<lparr>bl_recall = mean_recall suite, bl_fp = total_false_positives suite,
     bl_recorded_at = now, bl_cases = ids\<rparr>"

definition has_live_creds :: "pystr option \<Rightarrow> pystr option \<Rightarrow> bool" where
  "has_live_creds db_url api_key \<longleftrightarrow> (case db_url of None \<Rightarrow> False | Some u \<Rightarrow> u \<noteq> []) \<and>
     py_startswith (case api_key of None \<Rightarrow> [] | Some k \<Rightarrow> k) (lit ''sk-'')"

text \<open>\<open>main\<close>'s exit status, with the live suite and the baseline file as effects.\<close>

definition gate_main :: "pystr option \<Rightarrow> pystr option \<Rightarrow> bool \<Rightarrow> ('w, case_score list \<times> pystr list) io \<Rightarrow> ('w, baseline) io
    \<Rightarrow> (baseline \<Rightarrow> ('w, unit) io) \<Rightarrow> ('w, pystr) io \<Rightarrow> ('w, nat) io" where
  "gate_main db_url api_key update run_live load_baseline write_baseline now =
     (if \<not> has_live_creds db_url api_key then ret 0
      else bind_io run_live (\<lambda>(suite, ids).
        if update then bind_io now (\<lambda>t. then_io (write_baseline (baseline_from_suite t suite ids)) (ret 0))
        else bind_io load_baseline (\<lambda>b. if \<not> gp_passed (evaluate suite b default_thresholds) then ret 1 else ret 0)))"

subsection \<open>judge.py\<close>

definition JUDGE_MODEL :: pystr where "JUDGE_MODEL = lit ''gpt-5.4-mini''"

definition JUDGE_SYSTEM :: pystr where
  "JUDGE_SYSTEM =
     lit ''You grade code-review findings. Given a PR diff and one finding a reviewer '' @
     lit ''raised about it, rate from 0.0 to 1.0 how well the finding'' @ [39] @ lit ''s rationale '' @
     lit ''identifies and explains a genuine problem in the diff. 1.0 = precise, '' @
     lit ''correct, well-grounded; 0.0 = vague, wrong, or hallucinated. Be strict.''"

record rationale_score =
  rs_score :: rat
  rs_reasoning :: pystr

definition judge_prompt :: "finding \<Rightarrow> golden_case \<Rightarrow> pystr" where
  "judge_prompt f c =
     lit ''## PR diff'' @ [10] @ gc_diff c @ [10, 10] @
     lit ''## Finding ('' @ agent_value (f_agent f) @ lit '', '' @ severity_value (f_severity f) @ lit '')'' @ [10] @
     lit ''file: '' @ f_file f @ lit '':'' @ show_line (f_line f) @ [10] @
     lit ''category: '' @ f_category f @ [10] @ lit ''title: '' @ f_title f @ [10] @
     lit ''rationale: '' @ f_rationale f @ [10]"

definition judge_score :: "(llm_request \<Rightarrow> ('w, rationale_score option list) io) \<Rightarrow> pystr \<Rightarrow> finding \<Rightarrow> golden_case
    \<Rightarrow> ('w, rationale_score) io" where
  "judge_score parse model f c =
     bind_io (parse \<lparr>lr_model = model, lr_system = JUDGE_SYSTEM, lr_user = judge_prompt f c, lr_temperature = 0\<rparr>)
       (\<lambda>choices. case choices of [] \<Rightarrow> raise (OtherError (lit ''list index out of range''))
          | None # _ \<Rightarrow> ret \<lparr>rs_score = 0, rs_reasoning = lit ''judge returned no parseable score''\<rparr>
          | Some s # _ \<Rightarrow> ret s)"

subsection \<open>runner.py\<close>

text \<open>A plain insert; the absent token count is stored as 0.\<close>

definition seed_sql :: "pystr \<Rightarrow> nat \<Rightarrow> repo_file \<Rightarrow> rat list \<Rightarrow> (tiger_db, unit) stmt" where
  "seed_sql repo k rf v db =
     (let r = \<lparr>ck_repo = repo, ck_path = rf_path rf, ck_symbol = None, ck_index = k, ck_content = rf_content rf,
               ck_embedding = v, ck_token_count = 0, ck_updated_at = db_now db\<rparr>
      in if length v \<noteq> EMBEDDING_DIMENSIONS then (Inl (PostgresError (lit ''expected 256 dimensions'')), db)
         else if chunk_key r \<in> chunk_key ` set (code_chunks db) then (Inl (PostgresError (lit ''unique violation'')), db)
         else (Inr (), db\<lparr>code_chunks := code_chunks db @ [r]\<rparr>))"

definition cleanup_sql :: "pystr \<Rightarrow> (tiger_db, unit) stmt" where
  "cleanup_sql repo db = (Inr (), db\<lparr>code_chunks := filter (\<lambda>q. ck_repo q \<noteq> repo) (code_chunks db)\<rparr>)"

definition on_bare_pool :: "(tiger_db, 'a) stmt \<Rightarrow> (('e, 'c) agent_world, 'a) io" where
  "on_bare_pool stmt = zoom (\<lambda>w. (None, aw_pool w)) (\<lambda>c w. w\<lparr>aw_pool := snd c\<rparr>) (unguarded stmt)"

definition world_embed :: "('e, 'c) agent_setup \<Rightarrow> pystr \<Rightarrow> (('e, 'c) agent_world, rat list) io" where
  "world_embed s query = zoom (\<lambda>w. \<lparr>rt_embed = aw_embed w, rt_pool = (aw_retrieval w, aw_pool w)\<rparr>)
     (\<lambda>c w. w\<lparr>aw_embed := rt_embed c\<rparr>) (embed (as_embeddings s) query)"

definition seed_context :: "('e, 'c) agent_setup \<Rightarrow> pystr \<Rightarrow> golden_case \<Rightarrow> (('e, 'c) agent_world, unit) io" where
  "seed_context s repo c = for_io (enumerate 0 (gc_context c)) (\<lambda>(k, rf).
     bind_io (world_embed s (rf_content rf)) (\<lambda>v. on_bare_pool (seed_sql repo k rf v)))"

definition eval_repo :: "golden_case \<Rightarrow> pystr \<Rightarrow> pystr" where
  "eval_repo c hex = lit ''eval-golden/'' @ gc_id c @ lit ''-'' @ take 12 hex"

text \<open>\<open>agents\<close> are the four specialists, without a budget guard.\<close>

definition run_case :: "('e, 'c) agent_setup \<Rightarrow> ('e, 'c) agent_world agent list \<Rightarrow> pystr \<Rightarrow> golden_case
    \<Rightarrow> (('e, 'c) agent_world, finding list) io" where
  "run_case s agents hex c =
     (let repo = eval_repo c hex in
      try_finally
        (then_io (seed_context s repo c)
          (bind_io (map_io (\<lambda>a. review a \<lparr>dc_repo = repo, dc_number = 1, dc_diff = gc_diff c\<rparr> None) agents)
            (\<lambda>fss. ret (concat fss))))
        (on_bare_pool (cleanup_sql repo)))"

definition run_suite :: "(pystr \<Rightarrow> pystr) \<Rightarrow> ('e, 'c) agent_setup \<Rightarrow> ('e, 'c) agent_world agent list \<Rightarrow> (golden_case \<times> pystr) list
    \<Rightarrow> (('e, 'c) agent_world, case_score list) io" where
  "run_suite lower s agents cases =
     bind_io (map_io (\<lambda>(c, hex). bind_io (run_case s agents hex c) (\<lambda>fs. ret (c, fs))) cases)
       (\<lambda>pairs. ret (score_suite lower pairs))"

subsection \<open>The scorer\<close>

text \<open>The hits are a matching: each expected finding once, each actual finding at most as often as it occurs.\<close>

lemma match_loop_spec:
  "match_loop m es remaining = (hits, missed) \<Longrightarrow>
    mset es = mset (map fst hits) + mset missed \<and> mset (map snd hits) \<subseteq># mset remaining \<and> (\<forall>(e, f) \<in> set hits. m e f)"
proof (induction es arbitrary: remaining hits missed)
  case (Cons e es)
  show ?case
  proof (cases "find (m e) remaining")
    case None
    then obtain ms where "match_loop m es remaining = (hits, ms)" "missed = e # ms"
      using Cons.prems by (auto split: prod.splits)
    then show ?thesis using Cons.IH by fastforce
  next
    case (Some f)
    then obtain hs where hs: "match_loop m es (remove1 f remaining) = (hs, missed)" "hits = (e, f) # hs"
      using Cons.prems by (auto split: prod.splits)
    have f: "f \<in> set remaining" "m e f" using find_Some_set [OF Some] by auto
    have "mset (map snd hs) \<subseteq># mset remaining - {#f#}" using Cons.IH [OF hs(1)] by simp
    then have "mset (map snd hits) \<subseteq># mset remaining"
      using f(1) hs(2) by (simp add: insert_subset_eq_iff)
    then show ?thesis using Cons.IH [OF hs(1)] hs(2) f(2) by auto
  qed
qed simp

lemma match_loop_lengths:
  assumes "match_loop m es remaining = (hits, missed)"
  shows "length hits + length missed = length es" "length hits \<le> length remaining"
  using match_loop_spec [OF assms] by (metis length_map size_mset size_union, metis length_map size_mset size_mset_mono)

lemma recall_unit: "cs_matched c \<le> cs_expected c \<Longrightarrow> 0 \<le> recall c \<and> recall c \<le> 1"
  unfolding recall_def float_div_def by (auto intro!: fl_unit)

lemma false_positives_nonneg: "0 \<le> false_positives caps counts"
  unfolding false_positives_def by (rule sum_list_nonneg) auto


definition sample_expected :: "int option \<Rightarrow> expected_finding" where
  "sample_expected l = \<lparr>xf_agent = SECURITY, xf_file = lit ''a.py'', xf_line = l, xf_tolerance = 3,
     xf_category = None, xf_rationale = None, xf_note = None\<rparr>"

definition sample_found :: "int \<Rightarrow> finding" where
  "sample_found l = \<lparr>f_agent = SECURITY, f_severity = HIGH, f_category = lit ''sql'', f_file = lit ''a.py'', f_line = Some l,
     f_confidence = 1, f_title = [], f_rationale = []\<rparr>"

definition sample_case :: golden_case where
  "sample_case = \<lparr>gc_id = lit ''c1'', gc_context = [], gc_diff = [], gc_expected = [sample_expected None, sample_expected (Some 5)],
     gc_max = []\<rparr>"

text \<open>Matching is greedy: with an expected finding that names no line before one that names line 5, and
  findings at lines 5 and 90, the first takes the finding at line 5 and the second is counted as missed, so
  the recall is one half although both expectations can be met.\<close>

theorem greedy_matching_underscores:
  "cs_matched (score_case id sample_case [sample_found 5, sample_found 90]) = 1 \<and>
   recall (score_case id sample_case [sample_found 5, sample_found 90]) = 1 / 2 \<and>
   matches_finding id (sample_expected None) (sample_found 90) \<and> matches_finding id (sample_expected (Some 5)) (sample_found 5)"
proof -
  have "fl (1 / 2) = 1 / 2" by code_simp
  then show ?thesis
    by (simp add: score_case_def sample_case_def matches_finding_def sample_expected_def sample_found_def recall_def float_div_def)
qed

lemma updated_passes: "gp_passed (evaluate suite (baseline_from_suite now suite ids) default_thresholds)"
proof -
  have "0 \<le> fl (5 / 100)" by (rule fl_nonneg) simp
  then show ?thesis by (simp add: evaluate_def Let_def baseline_from_suite_def default_thresholds_def float_sub_def)
qed

text \<open>The regression gate passes exactly when the recall has dropped by no more than the tolerance and the
  false positives have risen by no more than allowed, and a suite always passes against the baseline
  recorded from it.\<close>

theorem gate_tolerance:
  "gp_passed (evaluate suite b t) = (\<not> gt_recall_drop t < float_sub (bl_recall b) (mean_recall suite) \<and>
     \<not> bl_fp b + gt_fp_increase t < total_false_positives suite) \<and>
   gp_passed (evaluate suite (baseline_from_suite now suite ids) default_thresholds)"
proof
  show "gp_passed (evaluate suite b t) = (\<not> gt_recall_drop t < float_sub (bl_recall b) (mean_recall suite) \<and>
     \<not> bl_fp b + gt_fp_increase t < total_false_positives suite)"
    by (auto simp: evaluate_def Let_def)
  show "gp_passed (evaluate suite (baseline_from_suite now suite ids) default_thresholds)"
    by (rule updated_passes)
qed

subsection \<open>The runner cleans up\<close>

definition rows_outside :: "pystr \<Rightarrow> ('e, 'c) agent_world \<Rightarrow> chunk_row list" where
  "rows_outside repo w = filter (\<lambda>q. ck_repo q \<noteq> repo) (code_chunks (store (dep (aw_pool w))))"

lemma bare_pool_effect:
  assumes "on_bare_pool stmt w = (r, w')"
  shows "store (dep (aw_pool w')) = store (dep (aw_pool w)) \<or> store (dep (aw_pool w')) = snd (stmt (store (dep (aw_pool w))))"
    and "r = Inr a \<Longrightarrow> stmt (store (dep (aw_pool w))) = (Inr a, store (dep (aw_pool w')))"
proof -
  obtain c where c: "unguarded stmt (None, aw_pool w) = (r, c)" "w' = w\<lparr>aw_pool := snd c\<rparr>"
    using assms by (auto simp: on_bare_pool_def zoom_def split: prod.splits)
  show "store (dep (aw_pool w')) = store (dep (aw_pool w)) \<or> store (dep (aw_pool w')) = snd (stmt (store (dep (aw_pool w))))"
    and "r = Inr a \<Longrightarrow> stmt (store (dep (aw_pool w))) = (Inr a, store (dep (aw_pool w')))"
    using unguarded_once [OF c(1)] c(2) by auto
qed

lemma frame_seed: "frame (rows_outside repo) (on_bare_pool (seed_sql repo k rf v))"
  unfolding frame_def
proof
  fix w :: "('e, 'c) agent_world"
  obtain r w' where run: "on_bare_pool (seed_sql repo k rf v) w = (r, w')" by (metis surj_pair)
  show "rows_outside repo (snd (on_bare_pool (seed_sql repo k rf v) w)) = rows_outside repo w"
    using bare_pool_effect(1) [OF run] by (auto simp: run rows_outside_def seed_sql_def Let_def)
qed

lemma frame_specialist:
  "frame (rows_outside repo) (review (specialist s ty vp) d None)"
proof -
  have "frame (rows_outside repo) (world_retrieve s repo' query k)" for repo' query k
    unfolding frame_def
  proof
    fix w :: "('a, 'b) agent_world"
    obtain r c where c: "retrieve (as_embeddings s) (as_ranking s) repo' query k
        \<lparr>rt_embed = aw_embed w, rt_pool = (aw_retrieval w, aw_pool w)\<rparr> = (r, c)" by (metis surj_pair)
    with retrieve_reads [OF c] show "rows_outside repo (snd (world_retrieve s repo' query k w)) = rows_outside repo w"
      by (simp add: world_retrieve_def zoom_def rows_outside_def)
  qed
  moreover have "frame (rows_outside repo) (zoom aw_chat (\<lambda>c w. w\<lparr>aw_chat := c\<rparr>) m)" for m :: "(_, completion) io"
    by (simp add: frame_def zoom_def rows_outside_def split: prod.split)
  ultimately show ?thesis
    unfolding review_def call_llm_def agent_retrieve_def parse_completion_def specialist_def
    by (auto intro!: frame_bind frame_ret frame_of_result split: option.split)
qed

lemma frame_for_io: "(\<And>x. x \<in> set xs \<Longrightarrow> frame p (f x)) \<Longrightarrow> frame p (for_io xs f)"
  by (induction xs) (auto intro!: frame_then)

text \<open>C35. The runner leaves nothing behind: when a golden case returns its findings, no row of its seeded
  repository is left in the index and the rows of all other repositories are as before, under any faults
  of the database, the embeddings endpoint and the model; when the cleanup itself fails, the case raises.\<close>

theorem run_case_cleans_up:
  "case run_case s (map (\<lambda>(ty, vp). specialist s ty vp) types) hex c w of
     (Inl e, w') \<Rightarrow> rows_outside (eval_repo c hex) w' = rows_outside (eval_repo c hex) w
   | (Inr fs, w') \<Rightarrow> code_chunks (store (dep (aw_pool w'))) = rows_outside (eval_repo c hex) w"
proof -
  let ?repo = "eval_repo c hex"
  let ?body = "then_io (seed_context s ?repo c)
      (bind_io (map_io (\<lambda>a. review a \<lparr>dc_repo = ?repo, dc_number = 1, dc_diff = gc_diff c\<rparr> None)
         (map (\<lambda>(ty, vp). specialist s ty vp) types)) (\<lambda>fss. ret (concat fss)))"
  have "frame (rows_outside ?repo) (world_embed s q)" for q
    by (simp add: frame_def world_embed_def zoom_def rows_outside_def split: prod.split)
  then have "frame (rows_outside ?repo) (seed_context s ?repo c)"
    unfolding seed_context_def by (auto intro!: frame_for_io frame_bind frame_seed)
  then have body: "frame (rows_outside ?repo) ?body"
    by (auto intro!: frame_then frame_bind frame_map_io frame_specialist frame_ret)
  obtain r w1 where b: "?body w = (r, w1)" by (metis surj_pair)
  obtain q w2 where q: "on_bare_pool (cleanup_sql ?repo) w1 = (q, w2)" by (metis surj_pair)
  have run: "run_case s (map (\<lambda>(ty, vp). specialist s ty vp) types) hex c w = (case q of Inl e \<Rightarrow> (Inl e, w2) | Inr _ \<Rightarrow> (r, w2))"
    using b q by (simp add: run_case_def Let_def try_finally_def)
  have "rows_outside ?repo w2 = rows_outside ?repo w1"
    using bare_pool_effect(1) [OF q] by (auto simp: rows_outside_def cleanup_sql_def)
  moreover have "code_chunks (store (dep (aw_pool w2))) = rows_outside ?repo w1" if "q = Inr u" for u
  proof -
    have "store (dep (aw_pool w2)) = snd (cleanup_sql ?repo (store (dep (aw_pool w1))))"
      using bare_pool_effect(2) [OF q that] by simp
    then show ?thesis by (simp add: rows_outside_def cleanup_sql_def)
  qed
  ultimately show ?thesis using frameD [OF body b] unfolding run by (auto split: sum.splits)
qed

end
