(* ===== verification/HitlQueue.thy ===== *)
theory HitlQueue
  imports TruthStore
begin

text \<open>
  \<open>hitl/queue.py\<close>: the human approval queue over \<open>hitl_reviews\<close>. The statements run on the bare
  pool, without a guard. \<open>approval_queue\<close> is the contract the HITL endpoints rest on: a claim
  succeeds exactly on a pending review, and takes it off the queue.
\<close>

record pending_hitl_item =
  pi_id :: uuid
  pi_review_id :: uuid
  pi_repo :: pystr
  pi_pr_number :: int
  pi_reason :: pystr
  pi_created_at :: rat

subsection \<open>The statements\<close>

definition enqueue_sql :: "uuid \<Rightarrow> pystr \<Rightarrow> (tiger_db, uuid) stmt" where
  "enqueue_sql i reason db =
     (if i \<in> pr_id ` set (reviews db) then
        (Inr (next_uuid db),
         db\<lparr>hitl_rows := hitl_rows db @
              [\<lparr>hr_id = next_uuid db, hr_review_id = i, hr_reason = reason, hr_status = lit ''pending'',
                hr_created_at = db_now db, hr_resolved_at = None, hr_note = None\<rparr>],
            next_uuid := Suc (next_uuid db)\<rparr>)
      else (Inl (PostgresError (lit ''foreign key'')), db))"

definition is_pending :: "uuid \<Rightarrow> hitl_row \<Rightarrow> bool" where
  "is_pending i h \<longleftrightarrow> hr_review_id h = i \<and> hr_status h = lit ''pending''"

definition pending_count_sql :: "uuid \<Rightarrow> (tiger_db, nat) stmt" where
  "pending_count_sql i db = (Inr (length (filter (is_pending i) (hitl_rows db))), db)"

text \<open>The inner join drops no row: the foreign key gives every row its review.\<close>

definition list_pending_sql :: "(tiger_db, pending_hitl_item list) stmt" where
  "list_pending_sql db =
     (Inr (List.map_filter (\<lambda>h. map_option (\<lambda>r.
        \<lparr>pi_id = hr_id h, pi_review_id = hr_review_id h, pi_repo = pr_repo r, pi_pr_number = pr_num r,
         pi_reason = hr_reason h, pi_created_at = hr_created_at h\<rparr>) (find_review (hr_review_id h) db))
        (sort_key hr_created_at (filter (\<lambda>h. hr_status h = lit ''pending'') (hitl_rows db)))), db)"

definition resolve_sql :: "uuid \<Rightarrow> pystr \<Rightarrow> pystr option \<Rightarrow> (tiger_db, bool) stmt" where
  "resolve_sql i st nt db =
     (Inr (\<exists>h \<in> set (hitl_rows db). is_pending i h),
      db\<lparr>hitl_rows := map (\<lambda>h. if is_pending i h
           then h\<lparr>hr_status := st, hr_resolved_at := Some (db_now db), hr_note := nt\<rparr> else h)
         (hitl_rows db)\<rparr>)"

definition hq_enqueue :: "uuid \<Rightarrow> pystr \<Rightarrow> (tiger_db conn, uuid) io" where
  "hq_enqueue i reason = unguarded (enqueue_sql i reason)"

definition hq_pending_count :: "uuid \<Rightarrow> (tiger_db conn, nat) io" where
  "hq_pending_count i = unguarded (pending_count_sql i)"

definition hq_list_pending :: "(tiger_db conn, pending_hitl_item list) io" where
  "hq_list_pending = unguarded list_pending_sql"

definition hq_resolve :: "uuid \<Rightarrow> pystr \<Rightarrow> pystr option \<Rightarrow> (tiger_db conn, bool) io" where
  "hq_resolve i st nt = unguarded (resolve_sql i st nt)"

subsection \<open>Constraints\<close>

lemma wf_enqueue: "wf_db db \<Longrightarrow> wf_db (snd (enqueue_sql i reason db))"
  by (auto simp: enqueue_sql_def wf_db_def less_Suc_eq)

lemma map_update_if:
  "(\<And>h. f (g h) = f h) \<Longrightarrow> map f (map (\<lambda>h. if p h then g h else h) hs) = map f hs"
  by (simp add: comp_def if_distrib cong: if_cong)

lemma wf_resolve:
  assumes "wf_db db"
  shows "wf_db (snd (resolve_sql i st nt db))"
proof -
  define hs where "hs = hitl_rows (snd (resolve_sql i st nt db))"
  have ids: "map hr_id hs = map hr_id (hitl_rows db)"
    and rids: "map hr_review_id hs = map hr_review_id (hitl_rows db)"
    by (simp_all add: hs_def resolve_sql_def map_update_if del: map_map)
  have db': "snd (resolve_sql i st nt db) = db\<lparr>hitl_rows := hs\<rparr>"
    by (simp add: hs_def resolve_sql_def)
  have "(\<forall>h \<in> set hs. hr_id h < n) \<longleftrightarrow> (\<forall>x \<in> set (map hr_id (hitl_rows db)). x < n)"
    and "(\<forall>h \<in> set hs. hr_review_id h \<in> S) \<longleftrightarrow> (\<forall>x \<in> set (map hr_review_id (hitl_rows db)). x \<in> S)" for n S
    by (simp_all flip: ids rids)
  with assms show ?thesis unfolding db' by (simp add: wf_db_def ids)
qed

subsection \<open>The contract of the approval queue\<close>

locale approval_queue =
  fixes claim :: "uuid \<Rightarrow> pystr \<Rightarrow> 'q \<Rightarrow> bool \<times> 'q"
    and pending :: "'q \<Rightarrow> uuid set"
  assumes claim_iff: "fst (claim i st q) \<longleftrightarrow> i \<in> pending q"
    and claim_takes: "st \<noteq> lit ''pending'' \<Longrightarrow> pending (snd (claim i st q)) = pending q - {i}"
begin

primrec claims :: "(uuid \<times> pystr) list \<Rightarrow> 'q \<Rightarrow> bool list \<times> 'q" where
  "claims [] q = ([], q)"
| "claims (c # cs) q = (case claim (fst c) (snd c) q of (r, q') \<Rightarrow>
     (case claims cs q' of (rs, q'') \<Rightarrow> (r # rs, q'')))"

text \<open>In a sequence of approvals and rejections, the first one on a pending review gets it and every
  other one on that review gets nothing.\<close>

lemma fst_claims_Cons:
  "fst (claims (c # cs) q) = fst (claim (fst c) (snd c) q) # fst (claims cs (snd (claim (fst c) (snd c) q)))"
  by (simp split: prod.split)

lemma claims_once:
  "\<forall>c \<in> set cs. snd c \<noteq> lit ''pending'' \<Longrightarrow> k < length cs \<Longrightarrow>
    fst (claims cs q) ! k \<longleftrightarrow> fst (cs ! k) \<in> pending q \<and> fst (cs ! k) \<notin> fst ` set (take k cs)"
proof (induction cs arbitrary: q k)
  case (Cons c cs)
  let ?q = "snd (claim (fst c) (snd c) q)"
  have q: "pending ?q = pending q - {fst c}" using claim_takes Cons.prems(1) by simp
  show ?case
  proof (cases k)
    case (Suc j)
    then have "fst (claims cs ?q) ! j \<longleftrightarrow>
        fst (cs ! j) \<in> pending ?q \<and> fst (cs ! j) \<notin> fst ` set (take j cs)"
      using Cons.prems by (intro Cons.IH) simp_all
    with q Suc show ?thesis by (auto simp: fst_claims_Cons simp del: claims.simps)
  qed (simp add: fst_claims_Cons claim_iff del: claims.simps)
qed simp

end

definition pending_reviews :: "tiger_db \<Rightarrow> uuid set" where
  "pending_reviews db = hr_review_id ` set (filter (\<lambda>h. hr_status h = lit ''pending'') (hitl_rows db))"

definition claim_db :: "pystr option \<Rightarrow> uuid \<Rightarrow> pystr \<Rightarrow> tiger_db \<Rightarrow> bool \<times> tiger_db" where
  "claim_db nt i st db = (case resolve_sql i st nt db of (r, db') \<Rightarrow> (r = Inr True, db'))"

lemma pending_reviews_iff: "i \<in> pending_reviews db \<longleftrightarrow> (\<exists>h \<in> set (hitl_rows db). is_pending i h)"
  by (auto simp: pending_reviews_def is_pending_def)

lemma claim_db_iff: "fst (claim_db nt i st db) \<longleftrightarrow> i \<in> pending_reviews db"
  by (simp add: claim_db_def resolve_sql_def pending_reviews_iff)

lemma pending_after_claim:
  assumes "st \<noteq> lit ''pending''"
  shows "pending_reviews (snd (claim_db nt i st db)) = pending_reviews db - {i}"
proof -
  let ?g = "\<lambda>h. if is_pending i h
    then h\<lparr>hr_status := st, hr_resolved_at := Some (db_now db), hr_note := nt\<rparr> else h"
  have g: "is_pending j (?g h) \<longleftrightarrow> is_pending j h \<and> j \<noteq> i" for j h
    using assms by (auto simp: is_pending_def)
  have "hitl_rows (snd (claim_db nt i st db)) = map ?g (hitl_rows db)"
    by (simp add: claim_db_def resolve_sql_def)
  then have "j \<in> pending_reviews (snd (claim_db nt i st db)) \<longleftrightarrow> (\<exists>h \<in> set (hitl_rows db). is_pending j (?g h))"
    for j by (simp only: pending_reviews_iff list.set_map bex_simps)
  then show ?thesis unfolding g by (auto simp: pending_reviews_iff)
qed

interpretation hitl: approval_queue "claim_db nt" pending_reviews for nt
  by unfold_locales (simp_all add: claim_db_iff pending_after_claim)

text \<open>A claim that loses its reply has still taken the row: the next one finds nothing pending.\<close>

lemma resolve_returns_True:
  assumes "hq_resolve i st nt c = (Inr True, c')" "st \<noteq> lit ''pending''"
  shows "i \<in> pending_reviews (conn_db c)" and "i \<notin> pending_reviews (conn_db c')"
  using unguarded_once(2) [of "resolve_sql i st nt" c "Inr True" c' True] assms
    claim_db_iff [of nt i st "conn_db c"] hitl.claim_takes [of st nt i "conn_db c"]
  by (auto simp: hq_resolve_def claim_db_def)

end
