(* ===== verification/Consistency.thy ===== *)
theory Consistency
  imports Indexing Evaluation HitlQueue Observability
begin

text \<open>
  Consistency of the one database. \<open>db_write\<close> is the step relation of every statement of the program that writes:
  the truth store, the approval queue, the event sink, the repository status, the indexer and the evaluation
  runner, with the arguments the code gives them, and time that passes. Whatever sequence of them runs, of
  whatever processes, the keys hold (\<open>wf_db\<close>), every stored value belongs to the vocabulary its readers expect
  (\<open>typed_db\<close>), and the statuses only move forward.
\<close>

subsection \<open>Types of the columns\<close>

definition REVIEW_STATUSES :: "pystr set" where
  "REVIEW_STATUSES = {lit ''pending'', lit ''posted'', lit ''needs_human'', lit ''escalated''}"

definition typed_review :: "pr_review_record \<Rightarrow> bool" where
  "typed_review r \<longleftrightarrow> pr_status r \<in> REVIEW_STATUSES \<and>
     (pr_status r = lit ''pending'' \<longleftrightarrow> pr_completed_at r = None) \<and>
     (pr_status r = lit ''posted'' \<longrightarrow> pr_github_review_id r \<noteq> None)"

definition typed_hitl :: "hitl_row \<Rightarrow> bool" where
  "typed_hitl h \<longleftrightarrow> hr_status h \<in> {lit ''pending'', lit ''resolved'', lit ''dismissed''} \<and>
     (hr_status h = lit ''pending'' \<longleftrightarrow> hr_resolved_at h = None)"

definition typed_finding :: "finding_record \<Rightarrow> bool" where
  "typed_finding r \<longleftrightarrow> (case finding_of_row r of Inl e \<Rightarrow> False | Inr f \<Rightarrow> valid_finding f)"

definition typed_chunk :: "chunk_row \<Rightarrow> bool" where
  "typed_chunk q \<longleftrightarrow> length (ck_embedding q) = EMBEDDING_DIMENSIONS"

definition typed_state :: "repo_state_row \<Rightarrow> bool" where
  "typed_state s \<longleftrightarrow> rs_status s \<in> {lit ''pending'', lit ''done'', lit ''failed''} \<and>
     (rs_status s = lit ''done'' \<longrightarrow> rs_commit s \<noteq> None \<and> rs_error s = None) \<and>
     (rs_status s = lit ''failed'' \<longrightarrow> rs_error s \<noteq> None)"

definition typed_db :: "tiger_db \<Rightarrow> bool" where
  "typed_db db \<longleftrightarrow> list_all typed_review (reviews db) \<and> list_all typed_hitl (hitl_rows db) \<and>
     list_all typed_finding (finding_rows db) \<and> list_all typed_chunk (code_chunks db) \<and>
     list_all typed_state (repo_index_state db)"

lemma typed_empty [simp]: "typed_db empty_db"
  by (simp add: typed_db_def empty_db_def)

subsection \<open>The writes\<close>

inductive db_write :: "(rat \<Rightarrow> rat) \<Rightarrow> (rat \<Rightarrow> rat) \<Rightarrow> tiger_db \<Rightarrow> tiger_db \<Rightarrow> bool" for num43 num106 where
  w_upsert: "db_write num43 num106 db (snd (upsert_review_sql repo n d db))"
| w_findings: "list_all valid_finding fs \<Longrightarrow>
    db_write num43 num106 db (snd (insert_findings_sql (map (finding_row num43 i) fs) db))"
| w_posted: "db_write num43 num106 db (snd (mark_posted_sql num43 i gid c db))"
| w_status: "st \<in> {lit ''needs_human'', lit ''escalated''} \<Longrightarrow>
    db_write num43 num106 db (snd (set_status_sql num43 i st c db))"
| w_enqueue: "db_write num43 num106 db (snd (enqueue_sql i reason db))"
| w_resolve: "st \<in> {lit ''resolved'', lit ''dismissed''} \<Longrightarrow> db_write num43 num106 db (snd (resolve_sql i st nt db))"
| w_emit: "db_write num43 num106 db (snd (emit_sql num106 num43 a db))"
| w_pending: "db_write num43 num106 db (snd (mark_pending_sql repo db))"
| w_failed: "db_write num43 num106 db (snd (mark_failed_sql repo err db))"
| w_chunks: "db_write num43 num106 db (snd (write_sql repo es paths sha db))"
| w_seed: "db_write num43 num106 db (snd (seed_sql repo k rf v db))"
| w_cleanup: "db_write num43 num106 db (snd (cleanup_sql repo db))"
| w_time: "db_now db \<le> t \<Longrightarrow> db_write num43 num106 db (db\<lparr>db_now := t\<rparr>)"

abbreviation db_writes :: "(rat \<Rightarrow> rat) \<Rightarrow> (rat \<Rightarrow> rat) \<Rightarrow> tiger_db \<Rightarrow> tiger_db \<Rightarrow> bool" where
  "db_writes num43 num106 \<equiv> (db_write num43 num106)\<^sup>*\<^sup>*"

subsection \<open>The keys hold\<close>

lemma wf_code_chunks:
  "wf_db db \<Longrightarrow> distinct (map chunk_key rs) \<Longrightarrow> wf_db (db\<lparr>code_chunks := rs\<rparr>)"
  by (simp add: wf_db_def chunk_key_def [abs_def])

lemma wf_chunk_keys: "wf_db db \<Longrightarrow> distinct (map chunk_key (code_chunks db))"
  by (simp add: wf_db_def chunk_key_def [abs_def])

lemma keys_upsert_chunk: "distinct (map chunk_key rs) \<Longrightarrow> distinct (map chunk_key (upsert_chunk r rs))"
proof (cases "chunk_key r \<in> chunk_key ` set rs")
  case True
  moreover have "map chunk_key (map (\<lambda>q. if chunk_key q = chunk_key r then r else q) rs) = map chunk_key rs"
    by simp
  ultimately show "distinct (map chunk_key rs) \<Longrightarrow> ?thesis" by (simp add: upsert_chunk_def del: map_map)
qed (simp add: upsert_chunk_def)

lemma keys_upsert_chunks:
  "distinct (map chunk_key rs) \<Longrightarrow> distinct (map chunk_key (foldl (\<lambda>rs r. upsert_chunk r rs) rs rows))"
  by (induction rows arbitrary: rs) (simp_all add: keys_upsert_chunk)

lemma keys_filter: "distinct (map f xs) \<Longrightarrow> distinct (map f (filter p xs))"
  by (simp add: distinct_map_filter)

lemma wf_write: "wf_db db \<Longrightarrow> wf_db (snd (write_sql repo es paths sha db))"
  by (auto simp: write_sql_def Let_def delete_chunks_def wf_chunk_keys
      intro!: wf_index_done wf_code_chunks keys_upsert_chunks keys_filter)

lemma wf_seed: "wf_db db \<Longrightarrow> wf_db (snd (seed_sql repo k rf v db))"
  by (auto simp: seed_sql_def Let_def wf_chunk_keys intro!: wf_code_chunks)

lemma wf_cleanup: "wf_db db \<Longrightarrow> wf_db (snd (cleanup_sql repo db))"
  by (auto simp: cleanup_sql_def wf_chunk_keys intro!: wf_code_chunks keys_filter)

lemma wf_time: "wf_db db \<Longrightarrow> wf_db (db\<lparr>db_now := t\<rparr>)"
  by (simp add: wf_db_def)

lemmas wf_writes = wf_upsert wf_insert_findings wf_mark_posted wf_set_status wf_enqueue wf_resolve wf_emit
  wf_mark_pending wf_mark_failed wf_write wf_seed wf_cleanup wf_time

lemma wf_db_write: "db_write num43 num106 db db' \<Longrightarrow> wf_db db \<Longrightarrow> wf_db db'"
  by (erule db_write.cases) (simp_all only: wf_writes)

subsection \<open>The values conform\<close>

lemma list_all_update: "list_all P xs \<Longrightarrow> (\<And>x. x \<in> set xs \<Longrightarrow> p x \<Longrightarrow> P x \<Longrightarrow> P (g x)) \<Longrightarrow> list_all P (map (\<lambda>x. if p x then g x else x) xs)"
  by (auto simp: list_all_iff)

lemma typed_update_reviews:
  "typed_db db \<Longrightarrow> (\<And>r. p r \<Longrightarrow> typed_review r \<Longrightarrow> typed_review (g r)) \<Longrightarrow> typed_db (update_reviews p g db)"
  by (simp only: typed_db_def update_reviews_simps) (auto intro: list_all_update simp del: list.pred_map)

lemma typed_upsert: "typed_db db \<Longrightarrow> typed_db (snd (upsert_review_sql repo n d db))"
proof (cases "find_delivery d db")
  case None
  then show "typed_db db \<Longrightarrow> ?thesis"
    by (simp add: upsert_review_sql_def Let_def typed_db_def typed_review_def REVIEW_STATUSES_def)
next
  case (Some r)
  then show "typed_db db \<Longrightarrow> ?thesis"
    by (simp add: upsert_review_sql_def) (rule typed_update_reviews, simp_all add: typed_review_def)
qed

lemma typed_mark_posted: "typed_db db \<Longrightarrow> typed_db (snd (mark_posted_sql num43 i gid c db))"
  unfolding mark_posted_sql_def snd_conv
  by (rule typed_update_reviews) (simp_all add: typed_review_def REVIEW_STATUSES_def)

lemma typed_set_status:
  "st \<in> {lit ''needs_human'', lit ''escalated''} \<Longrightarrow> typed_db db \<Longrightarrow> typed_db (snd (set_status_sql num43 i st c db))"
  unfolding set_status_sql_def snd_conv
  by (rule typed_update_reviews) (auto simp: typed_review_def REVIEW_STATUSES_def)

text \<open>Every valid finding is readable once stored.\<close>

lemma typed_finding_row: "storable num43 \<Longrightarrow> valid_finding f \<Longrightarrow> typed_finding (finding_row num43 i f)"
proof -
  assume "storable num43" "valid_finding f"
  then have ok: "confidence_ok (fl (num43 (f_confidence f)))"
    by (intro confidence_ok_fl) (simp add: storable_def valid_finding_def)
  then have "finding_of_row (finding_row num43 i f) = Inr (stored_finding num43 f)" by (rule finding_of_finding_row)
  with ok show ?thesis by (simp add: typed_finding_def stored_finding_def valid_finding_def)
qed

lemma typed_insert_fold:
  "list_all P rs \<Longrightarrow> list_all P rows \<Longrightarrow> list_all P (foldl (\<lambda>rs r. insert_no_conflict r rs) rs rows)"
  by (induction rows arbitrary: rs) (simp_all add: insert_no_conflict_def)

lemma typed_insert_findings:
  assumes "storable num43" "list_all valid_finding fs" "typed_db db"
  shows "typed_db (snd (insert_findings_sql (map (finding_row num43 i) fs) db))"
proof -
  have "list_all typed_finding (map (finding_row num43 i) fs)"
    using assms(1,2) by (auto simp: list_all_iff typed_finding_row)
  with assms(3) show ?thesis
    by (simp add: insert_findings_sql_def typed_db_def typed_insert_fold del: list.pred_map)
qed

lemma typed_enqueue: "typed_db db \<Longrightarrow> typed_db (snd (enqueue_sql i reason db))"
  by (simp add: enqueue_sql_def typed_db_def typed_hitl_def)

lemma typed_resolve:
  assumes "st \<in> {lit ''resolved'', lit ''dismissed''}" "typed_db db"
  shows "typed_db (snd (resolve_sql i st nt db))"
proof -
  have "list_all typed_hitl (map (\<lambda>h. if is_pending i h
      then h\<lparr>hr_status := st, hr_resolved_at := Some (db_now db), hr_note := nt\<rparr> else h) (hitl_rows db))"
    using assms by (intro list_all_update) (auto simp: typed_db_def typed_hitl_def)
  with assms(2) show ?thesis by (simp add: resolve_sql_def typed_db_def del: list.pred_map)
qed

lemma typed_emit: "typed_db db \<Longrightarrow> typed_db (snd (emit_sql num106 num43 a db))"
  by (simp add: emit_sql_def typed_db_def)

lemma typed_upsert_state:
  assumes "typed_db db" "typed_state new" "\<And>r. typed_state r \<Longrightarrow> typed_state (g r)"
  shows "typed_db (upsert_state repo new g db)"
proof -
  have "list_all typed_state (map (\<lambda>r. if rs_repo r = repo then g r else r) (repo_index_state db))"
    using assms by (intro list_all_update) (auto simp: typed_db_def)
  with assms(1,2) show ?thesis by (simp add: upsert_state_def typed_db_def del: list.pred_map)
qed

lemma typed_mark_pending: "typed_db db \<Longrightarrow> typed_db (snd (mark_pending_sql repo db))"
  and typed_mark_failed: "typed_db db \<Longrightarrow> typed_db (snd (mark_failed_sql repo err db))"
  and typed_index_done: "typed_db db \<Longrightarrow> typed_db (snd (index_done_sql repo sha n db))"
  by (simp_all add: mark_pending_sql_def mark_failed_sql_def index_done_sql_def)
    (rule typed_upsert_state, simp_all add: typed_state_def)+

lemma typed_chunks: "typed_db db \<Longrightarrow> list_all typed_chunk rs \<Longrightarrow> typed_db (db\<lparr>code_chunks := rs\<rparr>)"
  by (simp add: typed_db_def)

lemma typed_upsert_chunk: "list_all typed_chunk rs \<Longrightarrow> typed_chunk r \<Longrightarrow> list_all typed_chunk (upsert_chunk r rs)"
  by (auto simp: upsert_chunk_def list_all_iff)

lemma typed_upsert_chunks:
  "list_all typed_chunk rs \<Longrightarrow> list_all typed_chunk rows \<Longrightarrow> list_all typed_chunk (foldl (\<lambda>rs r. upsert_chunk r rs) rs rows)"
  by (induction rows arbitrary: rs) (simp_all add: typed_upsert_chunk)

lemma list_all_filter: "list_all P xs \<Longrightarrow> list_all P (filter p xs)"
  by (auto simp: list_all_iff)

lemma typed_write: "typed_db db \<Longrightarrow> typed_db (snd (write_sql repo es paths sha db))"
proof (cases "list_ex (\<lambda>(c, v). length v \<noteq> EMBEDDING_DIMENSIONS) es")
  case False
  assume db: "typed_db db"
  then have "list_all typed_chunk (delete_chunks repo touched (delete_chunks repo paths (code_chunks db)))" for touched
    unfolding delete_chunks_def by (intro list_all_filter) (simp add: typed_db_def)
  moreover have "list_all typed_chunk (map (chunk_row_of repo (db_now db)) es)"
    using False by (auto simp: list_ex_iff list_all_iff typed_chunk_def chunk_row_of_def split: prod.splits)
  ultimately show ?thesis using False
    by (simp only: write_sql_def Let_def if_False) (intro typed_index_done typed_chunks db typed_upsert_chunks)
qed (simp add: write_sql_def)

lemma typed_seed: "typed_db db \<Longrightarrow> typed_db (snd (seed_sql repo k rf v db))"
  by (auto simp: seed_sql_def Let_def typed_db_def typed_chunk_def)

lemma typed_cleanup: "typed_db db \<Longrightarrow> typed_db (snd (cleanup_sql repo db))"
  by (simp add: cleanup_sql_def typed_db_def list_all_filter)

lemma typed_time: "typed_db db \<Longrightarrow> typed_db (db\<lparr>db_now := t\<rparr>)"
  by (simp add: typed_db_def)

lemmas typed_writes = typed_upsert typed_insert_findings typed_mark_posted typed_set_status typed_enqueue
  typed_resolve typed_emit typed_mark_pending typed_mark_failed typed_write typed_seed typed_cleanup typed_time

lemma typed_db_write: "db_write num43 num106 db db' \<Longrightarrow> storable num43 \<Longrightarrow> typed_db db \<Longrightarrow> typed_db db'"
  by (erule db_write.cases) (simp_all only: typed_writes)

lemma writes_keep:
  assumes "db_writes num43 num106 db db'" "storable num43" "wf_db db \<and> typed_db db"
  shows "wf_db db' \<and> typed_db db'"
  using assms(1,3) by (induction rule: rtranclp_induct) (simp_all add: wf_db_write typed_db_write [OF _ assms(2)])

subsection \<open>History is kept\<close>

text \<open>A later row of a review, and of a queue entry: identity and origin stay, and what has left \<open>pending\<close> does not
  come back; a decided entry is never touched again.\<close>

definition later_review :: "pr_review_record \<Rightarrow> pr_review_record \<Rightarrow> bool" where
  "later_review r r' \<longleftrightarrow> pr_id r' = pr_id r \<and> pr_delivery r' = pr_delivery r \<and> pr_repo r' = pr_repo r \<and>
     pr_created_at r' = pr_created_at r \<and> (pr_status r \<noteq> lit ''pending'' \<longrightarrow> pr_status r' \<noteq> lit ''pending'')"

definition later_hitl :: "hitl_row \<Rightarrow> hitl_row \<Rightarrow> bool" where
  "later_hitl h h' \<longleftrightarrow> hr_id h' = hr_id h \<and> hr_review_id h' = hr_review_id h \<and> hr_reason h' = hr_reason h \<and>
     hr_created_at h' = hr_created_at h \<and> (hr_status h \<noteq> lit ''pending'' \<longrightarrow> h' = h)"

text \<open>The rows of a table stay in place, each by a later one, and new rows come after them.\<close>

definition extends :: "('r \<Rightarrow> 'r \<Rightarrow> bool) \<Rightarrow> 'r list \<Rightarrow> 'r list \<Rightarrow> bool" where
  "extends later xs ys \<longleftrightarrow> (\<exists>zs new. ys = zs @ new \<and> list_all2 later xs zs)"

definition history_kept :: "tiger_db \<Rightarrow> tiger_db \<Rightarrow> bool" where
  "history_kept db db' \<longleftrightarrow> extends later_review (reviews db) (reviews db') \<and>
     extends later_hitl (hitl_rows db) (hitl_rows db') \<and> extends (=) (finding_rows db) (finding_rows db') \<and>
     extends (=) (agent_events db) (agent_events db') \<and> db_now db \<le> db_now db'"

lemma later_review_refl [simp]: "later_review r r"
  and later_hitl_refl [simp]: "later_hitl h h"
  by (simp_all add: later_review_def later_hitl_def)

lemma later_review_trans: "later_review r s \<Longrightarrow> later_review s t \<Longrightarrow> later_review r t"
  and later_hitl_trans: "later_hitl g h \<Longrightarrow> later_hitl h k \<Longrightarrow> later_hitl g k"
  by (auto simp: later_review_def later_hitl_def)

lemma extendsI: "list_all2 later xs zs \<Longrightarrow> extends later xs (zs @ new)"
  unfolding extends_def by blast

lemma extends_refl [simp]: "(\<And>x. later x x) \<Longrightarrow> extends later xs xs"
  using extendsI [of later xs xs "[]"] by (simp add: list.rel_refl)

lemma extends_append [simp]: "(\<And>x. later x x) \<Longrightarrow> extends later xs (xs @ ys)"
  by (rule extendsI) (simp add: list.rel_refl)

lemma extends_update: "(\<And>x. later x (f x)) \<Longrightarrow> extends later xs (map f xs)"
  using extendsI [of later xs "map f xs" "[]"] by (simp add: list_all2_conv_all_nth)

lemma extends_trans:
  assumes trans: "\<And>x y z. later x y \<Longrightarrow> later y z \<Longrightarrow> later x z"
    and "extends later xs ys" "extends later ys zs"
  shows "extends later xs zs"
proof -
  obtain ys' new where ys: "ys = ys' @ new" "list_all2 later xs ys'" using assms(2) by (auto simp: extends_def)
  obtain zs' new' where zs: "zs = zs' @ new'" "list_all2 later ys zs'" using assms(3) by (auto simp: extends_def)
  obtain us vs where u: "zs' = us @ vs" "list_all2 later ys' us"
    using zs(2) unfolding ys(1) list_all2_append1 by blast
  have "list_all2 later xs us" using trans ys(2) u(2) by (rule list_all2_trans) blast+
  then show ?thesis unfolding extends_def zs(1) u(1) by auto
qed

lemma history_refl: "history_kept db db"
  by (simp add: history_kept_def)

lemma history_trans: "history_kept a b \<Longrightarrow> history_kept b c \<Longrightarrow> history_kept a c"
  unfolding history_kept_def
  by (auto intro: extends_trans [where later = later_review, OF later_review_trans]
    extends_trans [where later = later_hitl, OF later_hitl_trans] extends_trans [where later = "(=)", OF trans])

lemma history_update_reviews:
  "(\<And>r. p r \<Longrightarrow> later_review r (g r)) \<Longrightarrow> history_kept db (update_reviews p g db)"
  by (simp add: history_kept_def extends_update del: list.map)

lemma history_insert_fold: "\<exists>new. foldl (\<lambda>rs r. insert_no_conflict r rs) rs rows = rs @ new"
proof (induction rows arbitrary: rs)
  case (Cons r rows)
  have "insert_no_conflict r rs = rs @ (if dedup_key r \<in> dedup_key ` set rs then [] else [r])"
    by (simp add: insert_no_conflict_def)
  then obtain new where "insert_no_conflict r rs = rs @ new" by blast
  moreover obtain more where "foldl (\<lambda>rs r. insert_no_conflict r rs) (rs @ new) rows = (rs @ new) @ more" using Cons.IH by blast
  ultimately show ?case by simp
qed simp

lemma history_resolve: "history_kept db (snd (resolve_sql i st nt db))"
  by (simp add: history_kept_def resolve_sql_def) (rule extends_update, simp add: later_hitl_def is_pending_def)

lemma history_write:
  assumes "db_write num43 num106 db db'"
  shows "history_kept db db'"
  using assms
proof cases
  case (w_upsert repo n d)
  then show ?thesis
    by (cases "find_delivery d db")
      (simp_all add: upsert_review_sql_def Let_def history_update_reviews later_review_def, simp add: history_kept_def)
next
  case (w_findings fs i)
  obtain new where "foldl (\<lambda>rs r. insert_no_conflict r rs) (finding_rows db) (map (finding_row num43 i) fs) = finding_rows db @ new"
    using history_insert_fold by blast
  with w_findings show ?thesis by (simp add: insert_findings_sql_def history_kept_def)
next
  case (w_posted i gid c)
  then show ?thesis by (simp add: mark_posted_sql_def history_update_reviews later_review_def)
next
  case (w_status st i c)
  then show ?thesis by (auto simp: set_status_sql_def later_review_def intro!: history_update_reviews)
next
  case (w_resolve st i nt)
  then show ?thesis by (simp add: history_resolve)
qed (simp_all add: history_kept_def enqueue_sql_def emit_sql_def mark_pending_sql_def mark_failed_sql_def write_sql_def
  index_done_sql_def seed_sql_def cleanup_sql_def Let_def)

lemma history_writes: "db_writes num43 num106 db db' \<Longrightarrow> history_kept db db'"
  by (induction rule: rtranclp_induct) (auto intro: history_refl history_trans history_write)

end
