(* ===== verification/Aggregator.thy ===== *)
theory Aggregator
  imports Contracts "HOL-Library.Multiset"
begin

text \<open>
  The pure part of \<open>orchestrator/nodes.py\<close>: merging, deduplication, the confidence score, the gate and
  the rendered body.
\<close>

definition DEFAULT_CONFIDENCE_THRESHOLD :: rat where "DEFAULT_CONFIDENCE_THRESHOLD = 3 / 4"

datatype decision = AUTO_POST | QUEUED | ESCALATED

fun decision_value :: "decision \<Rightarrow> pystr" where
  "decision_value AUTO_POST = lit ''auto_post''"
| "decision_value QUEUED = lit ''queued''"
| "decision_value ESCALATED = lit ''escalated''"

subsection \<open>dedup_findings\<close>

definition spot :: "finding \<Rightarrow> pystr \<times> int option" where
  "spot f = (f_file f, f_line f)"

definition winner :: "finding list \<Rightarrow> finding" where
  "winner g = py_max f_confidence (hd g) (tl g)"

text \<open>The other agents of a group, \<open>sorted({...} - {...})\<close>.\<close>

definition other_agents :: "finding list \<Rightarrow> pystr list" where
  "other_agents g = sorted_set (filter (\<lambda>a. a \<noteq> agent_value (f_agent (winner g)))
     (map (\<lambda>f. agent_value (f_agent f)) g))"

definition also_flagged :: "pystr list \<Rightarrow> pystr" where
  "also_flagged others = [10, 10] @ lit ''_Also flagged by: '' @ py_join (lit '', '') others @ lit ''._''"

definition collapse :: "finding list \<Rightarrow> finding" where
  "collapse g = (if 1 < length g \<and> other_agents g \<noteq> []
     then (winner g)\<lparr>f_rationale := f_rationale (winner g) @ also_flagged (other_agents g)\<rparr>
     else winner g)"

definition body_key :: "finding \<Rightarrow> nat \<times> pystr \<times> int" where
  "body_key f = (severity_index (f_severity f), f_file f, (case f_line f of None \<Rightarrow> 0 | Some l \<Rightarrow> l))"

definition dedup_findings :: "finding list \<Rightarrow> finding list" where
  "dedup_findings fs = sort_key body_key (map (\<lambda>(k, g). collapse g) (group_by spot fs))"

subsection \<open>overall_confidence and decide\<close>

definition overall_confidence :: "finding list \<Rightarrow> rat" where
  "overall_confidence fs = (if fs = [] then 1 else fmean (map f_confidence fs))"

definition decide :: "finding list \<Rightarrow> rat \<Rightarrow> rat \<Rightarrow> decision" where
  "decide fs score threshold =
     (if \<exists>f \<in> set fs. f_severity f = CRITICAL then ESCALATED
      else if score < threshold then QUEUED else AUTO_POST)"

subsection \<open>render_review_body\<close>

text \<open>\<open>str.upper\<close> on the severities, which are ASCII.\<close>

definition ascii_upper :: "pystr \<Rightarrow> pystr" where
  "ascii_upper s = map (\<lambda>c. if 97 \<le> c \<and> c \<le> 122 then c - 32 else c) s"

definition location_of :: "finding \<Rightarrow> pystr" where
  "location_of f = (case f_line f of None \<Rightarrow> f_file f | Some l \<Rightarrow> f_file f @ lit '':'' @ dec_int l)"

definition finding_lines :: "finding \<Rightarrow> pystr list" where
  "finding_lines f =
     (lit ''- **'' @ f_title f @ lit ''** '' @ [8212] @ lit '' `'' @ location_of f @ lit ''` '' @ [183] @
        lit '' confidence '' @ fmt_fixed 2 (f_confidence f) @ lit '' '' @ [183] @ lit '' '' @
        agent_value (f_agent f))
     # map (\<lambda>l. if l = [] then lit ''  >'' else lit ''  > '' @ l) (splitlines (f_rationale f))"

definition severity_section :: "finding list \<Rightarrow> severity \<Rightarrow> pystr list" where
  "severity_section fs s = (case filter (\<lambda>f. f_severity f = s) fs of [] \<Rightarrow> []
     | bucket \<Rightarrow> (lit ''### '' @ ascii_upper (severity_value s)) # concat (map finding_lines bucket) @ [[]])"

definition render_review_body :: "finding list \<Rightarrow> pystr" where
  "render_review_body fs =
     (if fs = [] then 9989 # lit '' No issues found by the automated review.''
      else py_rstrip (py_join [10]
             (lit ''**Automated review**'' # [] # concat (map (severity_section fs) severity_order))) @ [10])"

subsection \<open>Lemmas\<close>

lemma collapse_simps [simp]:
  "f_agent (collapse g) = f_agent (winner g)" "f_severity (collapse g) = f_severity (winner g)"
  "f_category (collapse g) = f_category (winner g)" "f_title (collapse g) = f_title (winner g)"
  "f_confidence (collapse g) = f_confidence (winner g)"
  "f_file (collapse g) = f_file (winner g)" "f_line (collapse g) = f_line (winner g)"
  "spot (collapse g) = spot (winner g)"
  by (simp_all add: collapse_def spot_def)

lemma winner_in: "g \<noteq> [] \<Longrightarrow> winner g \<in> set g"
  using py_max_in [of f_confidence "hd g" "tl g"] by (simp add: winner_def)

lemma winner_max: "f \<in> set g \<Longrightarrow> f_confidence f \<le> f_confidence (winner g)"
  using py_max_ge [of f "hd g" "tl g" f_confidence] by (cases g) (auto simp: winner_def)

lemma winner_singleton [simp]: "winner [f] = f" and collapse_singleton [simp]: "collapse [f] = f"
  by (simp_all add: winner_def collapse_def)

lemma dedup_mset: "mset (dedup_findings fs) = mset (map (\<lambda>(k, g). collapse g) (group_by spot fs))"
  by (simp add: dedup_findings_def)

lemma sorted_dedup: "sorted (map body_key (dedup_findings fs))"
  by (simp add: dedup_findings_def)

lemma set_dedup:
  "set (dedup_findings fs) = (\<lambda>k. collapse (filter (\<lambda>f. spot f = k) fs)) ` spot ` set fs"
proof -
  have "set (dedup_findings fs) = (\<lambda>(k, g). collapse g) ` set (group_by spot fs)"
    by (simp add: dedup_findings_def)
  also have "\<dots> = (\<lambda>k. collapse (filter (\<lambda>f. spot f = k) fs)) ` fst ` set (group_by spot fs)"
    unfolding image_image by (rule image_cong [OF refl]) (auto dest: group_by_group(1))
  finally show ?thesis by (simp add: set_keys_group_by)
qed

lemma spot_winner_group:
  assumes "(k, g) \<in> set (group_by spot fs)"
  shows "spot (winner g) = k" and "winner g \<in> set fs"
  using group_by_group [OF assms] winner_in [of g] by auto

lemma distinct_dedup_spots: "distinct (map spot (dedup_findings fs))"
proof -
  have "map spot (map (\<lambda>(k, g). collapse g) (group_by spot fs)) = map fst (group_by spot fs)"
    using spot_winner_group by (force intro!: map_cong)
  then have "mset (map spot (dedup_findings fs)) = mset (map fst (group_by spot fs))"
    by (metis dedup_mset mset_map)
  then show ?thesis
    using distinct_group_by [of spot fs] mset_eq_imp_distinct_iff by blast
qed

lemma dedup_subset_winner:
  "f \<in> set (dedup_findings fs) \<Longrightarrow> \<exists>w \<in> set fs. f = w \<or> (\<exists>n. f = w\<lparr>f_rationale := f_rationale w @ n\<rparr>)"
  using spot_winner_group(2) [of _ _ fs]
  by (auto simp: dedup_findings_def collapse_def) (metis finding.surjective old.unit.exhaust finding.update_convs(8))+

lemma valid_dedup: "\<forall>f \<in> set fs. valid_finding f \<Longrightarrow> \<forall>f \<in> set (dedup_findings fs). valid_finding f"
  using dedup_subset_winner by (fastforce simp: valid_finding_def)

lemma length_dedup_le: "length (dedup_findings fs) \<le> length fs"
  by (simp add: dedup_findings_def length_group_by_le)

lemma overall_confidence_unit:
  assumes "\<forall>f \<in> set fs. valid_finding f" and "length fs \<le> 2 ^ 53"
  shows "0 \<le> overall_confidence fs \<and> overall_confidence fs \<le> 1"
  using assms fmean_unit [of "map f_confidence fs"]
  by (auto simp: overall_confidence_def valid_finding_def confidence_ok_def)

subsection \<open>Deduplicating twice\<close>

lemma dedup_distinct: "distinct (map spot fs) \<Longrightarrow> dedup_findings fs = sort_key body_key fs"
  by (simp add: dedup_findings_def group_by_distinct comp_def)

lemma dedup_dedup: "dedup_findings (dedup_findings fs) = dedup_findings fs"
  by (simp add: dedup_distinct distinct_dedup_spots sort_key_sorted sorted_dedup)

subsection \<open>Sample findings, for evaluation\<close>

definition sample_finding :: "agent_type \<Rightarrow> severity \<Rightarrow> int \<Rightarrow> rat \<Rightarrow> finding" where
  "sample_finding a s l c = \<lparr>f_agent = a, f_severity = s, f_category = lit ''c'', f_file = lit ''a.py'',
     f_line = Some l, f_confidence = c, f_title = lit ''t'', f_rationale = lit ''r''\<rparr>"

text \<open>A critical finding and a more confident minor one on the same line.\<close>

definition sample_clash :: "finding list" where
  "sample_clash = [sample_finding SECURITY CRITICAL 7 (1 / 2), sample_finding DOCS LOW 7 (7 / 8)]"

subsection \<open>The rendered body\<close>

lemma last_agent_value: "agent_value a \<noteq> [] \<and> \<not> is_space (last (agent_value a))"
  by (cases a) (simp_all add: lit_def is_space_def)

lemma finding_heading: "\<not> is_space (last (hd (finding_lines f))) \<and> hd (finding_lines f) \<noteq> []"
  using last_agent_value [of "f_agent f"] by (simp add: finding_lines_def)

lemma heading_in_sections:
  assumes "f \<in> set fs"
  shows "hd (finding_lines f) \<in> set (concat (map (severity_section fs) severity_order))"
proof -
  have "f \<in> set (filter (\<lambda>g. f_severity g = f_severity f) fs)" using assms by simp
  then obtain b bs where bucket: "filter (\<lambda>g. f_severity g = f_severity f) fs = b # bs" "f \<in> set (b # bs)"
    by (cases "filter (\<lambda>g. f_severity g = f_severity f) fs") auto
  have "hd (finding_lines f) \<in> set (finding_lines f)" by (simp add: finding_lines_def)
  with bucket(2) have "hd (finding_lines f) \<in> set (concat (map finding_lines (b # bs)))"
    unfolding set_concat set_map by blast
  then have "hd (finding_lines f) \<in> set (severity_section fs (f_severity f))"
    by (auto simp: severity_section_def bucket(1))
  then show ?thesis by auto
qed

subsection \<open>Properties\<close>

text \<open>The body posted to GitHub shows every finding: its title, location, confidence and agent appear
  in it as one line's text, and the body ends with a line feed that is its only trailing white space.\<close>

theorem render_shows_every_finding:
  "(\<forall>f \<in> set fs. py_contains (render_review_body fs) (hd (finding_lines f))) \<and>
   (fs \<noteq> [] \<longrightarrow> (\<exists>s. render_review_body fs = s @ [10] \<and> py_rstrip s = s))"
proof (intro conjI ballI impI)
  fix f assume f: "f \<in> set fs"
  let ?ls = "lit ''**Automated review**'' # [] # concat (map (severity_section fs) severity_order)"
  have "hd (finding_lines f) \<in> set ?ls" using heading_in_sections [OF f] by simp
  then obtain a b where "py_join [10] ?ls = a @ hd (finding_lines f) @ b"
    using py_join_part by blast
  then have "render_review_body fs = a @ hd (finding_lines f) @ (py_rstrip b @ [10])"
    using f py_rstrip_keeps [of "hd (finding_lines f)" a b] finding_heading [of f]
    by (auto simp: render_review_body_def)
  then show "py_contains (render_review_body fs) (hd (finding_lines f))"
    unfolding py_contains_iff by blast
next
  assume "fs \<noteq> []"
  then show "\<exists>s. render_review_body fs = s @ [10] \<and> py_rstrip s = s"
    by (auto simp: render_review_body_def py_rstrip_def)
qed

theorem render_shows_every_finding_witness:
  "py_contains (render_review_body sample_clash) (hd (finding_lines (hd sample_clash))) \<and>
   py_contains (render_review_body sample_clash) (hd (finding_lines (last sample_clash))) \<and>
   (\<exists>s. render_review_body sample_clash = s @ [10] \<and> py_rstrip s = s)"
  using render_shows_every_finding [of sample_clash] by (simp add: sample_clash_def)

text \<open>C11. What \<open>dedup_findings\<close> returns: one finding for every (file, line) of the input and no other,
  in the order of severity, file and line; each is one of the input findings of its spot, none of
  which is more confident, with at most a note appended to its rationale. Deduplicating the result
  again changes nothing.\<close>

theorem dedup_findings_spec:
  "distinct (map spot (dedup_findings fs)) \<and> spot ` set (dedup_findings fs) = spot ` set fs \<and>
   sorted (map body_key (dedup_findings fs)) \<and> dedup_findings (dedup_findings fs) = dedup_findings fs \<and>
   (\<forall>d \<in> set (dedup_findings fs).
      (\<exists>w \<in> set fs. spot w = spot d \<and> (d = w \<or> (\<exists>n. d = w\<lparr>f_rationale := f_rationale w @ n\<rparr>))) \<and>
      (\<forall>f \<in> set fs. spot f = spot d \<longrightarrow> f_confidence f \<le> f_confidence d))"
proof (intro conjI ballI)
  show "spot ` set (dedup_findings fs) = spot ` set fs"
  proof -
    have "spot (collapse (filter (\<lambda>f. spot f = spot x) fs)) = spot x" if "x \<in> set fs" for x
      using winner_in [of "filter (\<lambda>f. spot f = spot x) fs"] that by (auto simp: filter_empty_conv)
    then show ?thesis by (simp add: set_dedup image_image)
  qed
next
  fix d assume "d \<in> set (dedup_findings fs)"
  then obtain k where k: "k \<in> spot ` set fs" and d: "d = collapse (filter (\<lambda>f. spot f = k) fs)"
    by (auto simp: set_dedup)
  let ?g = "filter (\<lambda>f. spot f = k) fs"
  have "?g \<noteq> []" using k by (auto simp: filter_empty_conv)
  then have w: "winner ?g \<in> set fs" "spot (winner ?g) = k" using winner_in by fastforce+
  have "d = winner ?g \<or> (\<exists>n. d = (winner ?g)\<lparr>f_rationale := f_rationale (winner ?g) @ n\<rparr>)"
    by (auto simp: d collapse_def)
  with w d show "\<exists>w \<in> set fs. spot w = spot d \<and> (d = w \<or> (\<exists>n. d = w\<lparr>f_rationale := f_rationale w @ n\<rparr>))"
    by (intro bexI [of _ "winner ?g"]) auto
  show "spot f = spot d \<longrightarrow> f_confidence f \<le> f_confidence d" if "f \<in> set fs" for f
    using that w winner_max [of f ?g] by (simp add: d)
qed (simp_all add: distinct_dedup_spots sorted_dedup dedup_dedup)

theorem dedup_findings_spec_witness:
  "distinct (map spot (dedup_findings sample_clash)) \<and> dedup_findings sample_clash \<noteq> [] \<and>
   f_confidence (hd sample_clash) \<le> f_confidence (hd (dedup_findings sample_clash)) \<and>
   f_confidence (last sample_clash) \<le> f_confidence (hd (dedup_findings sample_clash))"
proof -
  note spec = dedup_findings_spec [of sample_clash]
  have ne: "dedup_findings sample_clash \<noteq> []" using spec by (auto simp: sample_clash_def)
  then have hd: "hd (dedup_findings sample_clash) \<in> set (dedup_findings sample_clash)" by simp
  then have "spot (hd (dedup_findings sample_clash)) \<in> spot ` set sample_clash" using spec by blast
  then have "\<forall>f \<in> set sample_clash. spot f = spot (hd (dedup_findings sample_clash))"
    by (auto simp: sample_clash_def sample_finding_def spot_def)
  with spec hd have "\<forall>f \<in> set sample_clash. f_confidence f \<le> f_confidence (hd (dedup_findings sample_clash))"
    by blast
  with spec ne show ?thesis by (simp add: sample_clash_def)
qed

text \<open>C12. The gate on the deduplicated findings: the score is a probability; a surviving critical
  finding always escalates; a review is posted automatically exactly when none survives and the
  score reaches the threshold; and a review without findings scores 1.\<close>

theorem gate_spec:
  assumes "\<forall>f \<in> set fs. valid_finding f" and "length fs \<le> 2 ^ 53" and "t \<le> 1"
  shows "let ds = dedup_findings fs; score = overall_confidence ds; critical = (\<exists>f \<in> set ds. f_severity f = CRITICAL)
    in 0 \<le> score \<and> score \<le> 1 \<and>
      (decide ds score t = ESCALATED \<longleftrightarrow> critical) \<and>
      (decide ds score t = AUTO_POST \<longleftrightarrow> \<not> critical \<and> t \<le> score) \<and>
      (fs = [] \<longrightarrow> decide ds score t = AUTO_POST)"
proof -
  have "0 \<le> overall_confidence (dedup_findings fs) \<and> overall_confidence (dedup_findings fs) \<le> 1"
    using assms valid_dedup [OF assms(1)] length_dedup_le [of fs]
    by (intro overall_confidence_unit) auto
  then show ?thesis using assms(3) by (auto simp: Let_def decide_def overall_confidence_def dedup_findings_def)
qed

theorem gate_spec_witness:
  "let ds = dedup_findings sample_clash; score = overall_confidence ds;
       critical = (\<exists>f \<in> set ds. f_severity f = CRITICAL)
    in 0 \<le> score \<and> score \<le> 1 \<and>
      (decide ds score DEFAULT_CONFIDENCE_THRESHOLD = ESCALATED \<longleftrightarrow> critical) \<and>
      (decide ds score DEFAULT_CONFIDENCE_THRESHOLD = AUTO_POST \<longleftrightarrow> \<not> critical \<and> DEFAULT_CONFIDENCE_THRESHOLD \<le> score) \<and>
      (sample_clash = [] \<longrightarrow> decide ds score DEFAULT_CONFIDENCE_THRESHOLD = AUTO_POST)"
  by (rule gate_spec)
    (simp_all add: sample_clash_def sample_finding_def valid_finding_def confidence_ok_def DEFAULT_CONFIDENCE_THRESHOLD_def)

text \<open>Deduplication runs before the gate and keeps the more confident finding of a line, so a
  critical finding can disappear behind a minor one: here a security finding marked critical is
  dropped and the review is approved for automatic posting.\<close>

theorem critical_finding_can_be_dropped:
  "f_severity (sample_finding SECURITY CRITICAL 7 (1 / 2)) = CRITICAL \<and>
   map f_severity (dedup_findings sample_clash) = [LOW] \<and>
   decide (dedup_findings sample_clash) (overall_confidence (dedup_findings sample_clash))
     DEFAULT_CONFIDENCE_THRESHOLD = AUTO_POST"
  by code_simp

end
