(* ===== verification/AggregateStep.thy ===== *)
theory AggregateStep
  imports Aggregator TruthStore HitlQueue Observability
begin

text \<open>
  The orchestrating step \<open>aggregate\<close> of \<open>orchestrator/nodes.py\<close>, over its injected collaborators
  (\<open>SupportsPostReview\<close>, \<open>SupportsTruthStore\<close>, \<open>SupportsHitlQueue\<close>, \<open>SupportsEmit\<close>), and what it
  promises: for each delivery the gate acts once. \<open>gate_world\<close> is the contract of the collaborators;
  \<open>tiger_collab\<close> are the program's own, on the database under any pattern of faults and any client
  of GitHub, whose calls are logged.
\<close>

record 'w collaborators =
  co_post_review :: "pystr \<Rightarrow> int \<Rightarrow> pystr \<Rightarrow> pystr \<Rightarrow> ('w, int) io"
  co_upsert_review :: "pystr \<Rightarrow> int \<Rightarrow> pystr \<Rightarrow> ('w, review_row) io"
  co_insert_findings :: "uuid \<Rightarrow> finding list \<Rightarrow> ('w, unit) io"
  co_mark_posted :: "uuid \<Rightarrow> int \<Rightarrow> rat \<Rightarrow> ('w, unit) io"
  co_set_status :: "uuid \<Rightarrow> pystr \<Rightarrow> rat \<Rightarrow> ('w, unit) io"
  co_enqueue :: "uuid \<Rightarrow> pystr \<Rightarrow> ('w, uuid) io"
  co_emit :: "emit_args \<Rightarrow> ('w, unit) io"

record aggregate_result =
  ar_review_id :: uuid
  ar_confidence :: rat
  ar_decision :: decision
  ar_github_review_id :: "int option"
  ar_hitl_review_id :: "uuid option"
  ar_findings :: "finding list"

definition prior_decision :: "pystr \<Rightarrow> decision" where
  "prior_decision st = (if st = lit ''posted'' then AUTO_POST
     else if st = lit ''needs_human'' then QUEUED
     else if st = lit ''escalated'' then ESCALATED else QUEUED)"

definition review_event :: "finding list \<Rightarrow> pystr" where
  "review_event fs = (if fs = [] then lit ''APPROVE'' else lit ''COMMENT'')"

definition hitl_reason :: "decision \<Rightarrow> finding list \<Rightarrow> rat \<Rightarrow> rat \<Rightarrow> pystr" where
  "hitl_reason dec fs score threshold =
     (if dec = ESCALATED then
        (let crits = filter (\<lambda>f. f_severity f = CRITICAL) fs
         in dec_nat (length crits) @ lit '' CRITICAL finding(s): '' @ py_join (lit ''; '') (map f_title crits))
      else lit ''overall confidence '' @ fmt_fixed 2 score @ lit '' below threshold '' @ fmt_fixed 2 threshold)"

definition hitl_status :: "decision \<Rightarrow> pystr" where
  "hitl_status dec = (if dec = ESCALATED then lit ''escalated'' else lit ''needs_human'')"

definition decision_event :: "uuid \<Rightarrow> decision \<Rightarrow> rat \<Rightarrow> finding list \<Rightarrow> rat \<Rightarrow> emit_args" where
  "decision_event i dec score fs threshold =
     (event i (lit ''aggregator'') DECISION)
       \<lparr>em_outcome := Some (decision_value dec), em_confidence := Some score,
        em_payload := Some [(lit ''findings'', JInt (int (length fs))), (lit ''threshold'', JFloat threshold)]\<rparr>"

definition aggregate :: "'w collaborators \<Rightarrow> rat \<Rightarrow> pystr \<Rightarrow> int \<Rightarrow> pystr \<Rightarrow> finding list list
    \<Rightarrow> ('w, aggregate_result) io" where
  "aggregate co threshold repo n d findings_by_agent =
     (let deduped = dedup_findings (concat findings_by_agent);
          score = overall_confidence deduped
      in bind_io (co_upsert_review co repo n d) (\<lambda>review.
         let i = row_id review in
         if row_status review \<noteq> lit ''pending'' then
           ret \<lparr>ar_review_id = i, ar_confidence = score, ar_decision = prior_decision (row_status review),
                ar_github_review_id = row_github_review_id review, ar_hitl_review_id = None,
                ar_findings = deduped\<rparr>
         else
           then_io (co_insert_findings co i deduped)
             (let dec = decide deduped score threshold in
              then_io (co_emit co (decision_event i dec score deduped threshold))
                (if dec = AUTO_POST then
                   bind_io (co_post_review co repo n (render_review_body deduped) (review_event deduped)) (\<lambda>gid.
                     then_io (co_mark_posted co i gid score)
                       (ret \<lparr>ar_review_id = i, ar_confidence = score, ar_decision = dec,
                             ar_github_review_id = Some gid, ar_hitl_review_id = None, ar_findings = deduped\<rparr>))
                 else
                   bind_io (co_enqueue co i (hitl_reason dec deduped score threshold)) (\<lambda>hid.
                     then_io (co_set_status co i (hitl_status dec) score)
                       (ret \<lparr>ar_review_id = i, ar_confidence = score, ar_decision = dec,
                             ar_github_review_id = None, ar_hitl_review_id = Some hid,
                             ar_findings = deduped\<rparr>))))))"

text \<open>Runs of the step one after the other, each of its own delivery.\<close>

record gate_job =
  job_repo :: pystr
  job_pr :: int
  job_delivery :: pystr
  job_findings :: "finding list list"

primrec aggregate_all :: "'w collaborators \<Rightarrow> rat \<Rightarrow> gate_job list \<Rightarrow> 'w
    \<Rightarrow> (exn + aggregate_result) list \<times> 'w" where
  "aggregate_all co threshold [] w = ([], w)"
| "aggregate_all co threshold (j # js) w =
     (case aggregate co threshold (job_repo j) (job_pr j) (job_delivery j) (job_findings j) w of (r, w') \<Rightarrow>
       (case aggregate_all co threshold js w' of (rs, w'') \<Rightarrow> (r # rs, w'')))"

subsection \<open>The contract of the collaborators\<close>

type_synonym post = "pystr \<times> int \<times> pystr \<times> pystr"

text \<open>\<open>ok\<close> is the invariant of the world, \<open>lookup\<close> the review of a delivery, \<open>status\<close> a review's status,
  \<open>posted\<close> the calls made to GitHub and \<open>queued\<close> the rows put on the approval queue.\<close>

locale gate_world =
  fixes co :: "'w collaborators"
    and ok :: "'w \<Rightarrow> bool"
    and lookup :: "'w \<Rightarrow> pystr \<Rightarrow> uuid option"
    and status :: "'w \<Rightarrow> uuid \<Rightarrow> pystr option"
    and posted :: "'w \<Rightarrow> post list"
    and queued :: "'w \<Rightarrow> (uuid \<times> pystr) list"
  assumes upsert_law: "ok w \<Longrightarrow> co_upsert_review co repo n d w = (r, w') \<Longrightarrow>
      ok w' \<and> posted w' = posted w \<and> queued w' = queued w \<and> lookup w \<subseteq>\<^sub>m lookup w' \<and> status w \<subseteq>\<^sub>m status w' \<and>
      (\<forall>row. r = Inr row \<longrightarrow> lookup w' d = Some (row_id row) \<and> status w' (row_id row) = Some (row_status row) \<and>
        (row_status row \<noteq> lit ''pending'' \<longrightarrow> lookup w d = Some (row_id row) \<and>
           status w (row_id row) = Some (row_status row)))"
    and insert_law: "ok w \<Longrightarrow> co_insert_findings co i fs w = (r1, w') \<Longrightarrow>
      ok w' \<and> posted w' = posted w \<and> queued w' = queued w \<and> lookup w' = lookup w \<and> status w' = status w"
    and emit_law: "ok w \<Longrightarrow> co_emit co a w = (r1, w') \<Longrightarrow>
      ok w' \<and> posted w' = posted w \<and> queued w' = queued w \<and> lookup w' = lookup w \<and> status w' = status w"
    and post_law: "ok w \<Longrightarrow> co_post_review co repo n body evt w = (r2, w') \<Longrightarrow>
      ok w' \<and> posted w' = posted w @ [(repo, n, body, evt)] \<and> queued w' = queued w \<and>
      lookup w' = lookup w \<and> status w' = status w"
    and enqueue_law: "ok w \<Longrightarrow> co_enqueue co i reason w = (r3, w') \<Longrightarrow>
      ok w' \<and> posted w' = posted w \<and> lookup w' = lookup w \<and> status w' = status w \<and>
      (queued w' = queued w @ [(i, reason)] \<or> queued w' = queued w \<and> (\<forall>h. r3 \<noteq> Inr h))"
    and mark_law: "ok w \<Longrightarrow> co_mark_posted co i gid c w = (r1, w') \<Longrightarrow>
      ok w' \<and> posted w' = posted w \<and> queued w' = queued w \<and> lookup w' = lookup w \<and>
      (status w' = (status w)(i := map_option (\<lambda>_. lit ''posted'') (status w i)) \<or>
       status w' = status w \<and> r1 \<noteq> Inr ())"
    and status_law: "ok w \<Longrightarrow> co_set_status co i st c w = (r1, w') \<Longrightarrow>
      ok w' \<and> posted w' = posted w \<and> queued w' = queued w \<and> lookup w' = lookup w \<and>
      (status w' = (status w)(i := map_option (\<lambda>_. st) (status w i)) \<or> status w' = status w \<and> r1 \<noteq> Inr ())"
    and fresh_law: "ok w \<Longrightarrow> co_upsert_review co repo n d w = (r, w') \<Longrightarrow>
      lookup w' d' = Some i \<Longrightarrow> status w' i = Some st \<Longrightarrow> st \<noteq> lit ''pending'' \<Longrightarrow>
      lookup w d' = Some i \<and> status w i = Some st"
begin

definition settled :: "pystr \<Rightarrow> 'w \<Rightarrow> bool" where
  "settled d w \<longleftrightarrow> (\<exists>i st. lookup w d = Some i \<and> status w i = Some st \<and> st \<noteq> lit ''pending'')"

lemma settled_grow:
  "settled d w \<Longrightarrow> lookup w \<subseteq>\<^sub>m lookup w' \<Longrightarrow> status w \<subseteq>\<^sub>m status w' \<Longrightarrow> settled d w'"
  unfolding settled_def by (metis domI map_le_def)

lemma settled_upd:
  "settled d w \<Longrightarrow> lookup w' = lookup w \<Longrightarrow>
    status w' = (status w)(i := map_option (\<lambda>_. st) (status w i)) \<Longrightarrow> st \<noteq> lit ''pending'' \<Longrightarrow> settled d w'"
  by (auto simp: settled_def)

lemma settled_same: "settled d w \<Longrightarrow> lookup w' = lookup w \<Longrightarrow> status w' = status w \<Longrightarrow> settled d w'"
  by (simp add: settled_def)

text \<open>What the step does after the review row was found pending.\<close>

definition act :: "rat \<Rightarrow> pystr \<Rightarrow> int \<Rightarrow> uuid \<Rightarrow> finding list \<Rightarrow> ('w, aggregate_result) io" where
  "act threshold repo n i deduped =
     (let score = overall_confidence deduped; dec = decide deduped score threshold in
      if dec = AUTO_POST then
        bind_io (co_post_review co repo n (render_review_body deduped) (review_event deduped)) (\<lambda>gid.
          then_io (co_mark_posted co i gid score)
            (ret \<lparr>ar_review_id = i, ar_confidence = score, ar_decision = dec,
                  ar_github_review_id = Some gid, ar_hitl_review_id = None, ar_findings = deduped\<rparr>))
      else
        bind_io (co_enqueue co i (hitl_reason dec deduped score threshold)) (\<lambda>hid.
          then_io (co_set_status co i (hitl_status dec) score)
            (ret \<lparr>ar_review_id = i, ar_confidence = score, ar_decision = dec,
                  ar_github_review_id = None, ar_hitl_review_id = Some hid, ar_findings = deduped\<rparr>)))"

text \<open>The one action of a gate that has decided.\<close>

definition acted :: "rat \<Rightarrow> pystr \<Rightarrow> int \<Rightarrow> uuid \<Rightarrow> finding list \<Rightarrow> 'w \<Rightarrow> 'w \<Rightarrow> bool" where
  "acted threshold repo n i fs w w' \<longleftrightarrow>
     (let score = overall_confidence fs; dec = decide fs score threshold in
      if dec = AUTO_POST
      then posted w' = posted w @ [(repo, n, render_review_body fs, review_event fs)] \<and> queued w' = queued w
      else posted w' = posted w \<and> queued w' = queued w @ [(i, hitl_reason dec fs score threshold)])"

lemma act_spec:
  assumes ok: "ok w" and r: "act threshold repo n i fs w = (r, w')"
  shows "ok w' \<and> (settled d w \<longrightarrow> settled d w') \<and> lookup w' = lookup w \<and>
    (acted threshold repo n i fs w w' \<or> posted w' = posted w \<and> queued w' = queued w \<and> (\<forall>x. r \<noteq> Inr x)) \<and>
    (\<forall>x. r = Inr x \<longrightarrow> ar_review_id x = i \<and>
       (status w i \<noteq> None \<longrightarrow> (\<exists>st. status w' i = Some st \<and> st \<noteq> lit ''pending'')))"
proof (cases "decide fs (overall_confidence fs) threshold = AUTO_POST")
  case True
  obtain r1 w1 where p: "co_post_review co repo n (render_review_body fs) (review_event fs) w = (r1, w1)"
    by (metis surj_pair)
  note p' = post_law [OF ok p]
  show ?thesis
  proof (cases r1)
    case (Inl e)
    with True r p have "w' = w1" "r = Inl e" by (simp_all add: act_def bind_io_def Let_def)
    with p' True show ?thesis by (auto simp: acted_def intro: settled_same)
  next
    case (Inr gid)
    obtain r2 w2 where m: "co_mark_posted co i gid (overall_confidence fs) w1 = (r2, w2)"
      by (metis surj_pair)
    note m' = mark_law [OF conjunct1 [OF p'] m]
    have "w' = w2" "r2 \<noteq> Inr () \<Longrightarrow> \<forall>x. r \<noteq> Inr x" "\<And>x. r = Inr x \<Longrightarrow> ar_review_id x = i"
      using r True p Inr m by (auto simp: act_def bind_io_def then_io_def ret_def Let_def split: sum.splits)
    then show ?thesis using p' m' True
      by (auto simp: acted_def intro: settled_same settled_upd [where st = "lit ''posted''"])
  qed
next
  case False
  define dec where "dec = decide fs (overall_confidence fs) threshold"
  obtain r1 w1 where p: "co_enqueue co i (hitl_reason dec fs (overall_confidence fs) threshold) w = (r1, w1)"
    by (metis surj_pair)
  note p' = enqueue_law [OF ok p]
  have st: "hitl_status dec \<noteq> lit ''pending''" by (simp add: hitl_status_def)
  show ?thesis
  proof (cases r1)
    case (Inl e)
    with False r p have "w' = w1" "r = Inl e" by (simp_all add: act_def bind_io_def dec_def Let_def)
    with p' False show ?thesis by (auto simp: acted_def dec_def intro: settled_same)
  next
    case (Inr hid)
    obtain r2 w2 where m: "co_set_status co i (hitl_status dec) (overall_confidence fs) w1 = (r2, w2)"
      by (metis surj_pair)
    note m' = status_law [OF conjunct1 [OF p'] m]
    have "w' = w2" "r2 \<noteq> Inr () \<Longrightarrow> \<forall>x. r \<noteq> Inr x" "\<And>x. r = Inr x \<Longrightarrow> ar_review_id x = i"
      using r False p Inr m by (auto simp: act_def bind_io_def then_io_def ret_def dec_def Let_def split: sum.splits)
    then show ?thesis using p' m' st False Inr
      by (auto simp: acted_def dec_def intro: settled_same settled_upd [where st = "hitl_status dec"])
  qed
qed

definition gate :: "rat \<Rightarrow> pystr \<Rightarrow> int \<Rightarrow> uuid \<Rightarrow> finding list \<Rightarrow> ('w, aggregate_result) io" where
  "gate threshold repo n i fs =
     then_io (co_insert_findings co i fs)
       (then_io (co_emit co (decision_event i (decide fs (overall_confidence fs) threshold)
                               (overall_confidence fs) fs threshold))
         (act threshold repo n i fs))"

lemma aggregate_gate:
  "aggregate co threshold repo n d fss =
     bind_io (co_upsert_review co repo n d) (\<lambda>review.
       if row_status review \<noteq> lit ''pending'' then
         ret \<lparr>ar_review_id = row_id review, ar_confidence = overall_confidence (dedup_findings (concat fss)),
              ar_decision = prior_decision (row_status review),
              ar_github_review_id = row_github_review_id review, ar_hitl_review_id = None,
              ar_findings = dedup_findings (concat fss)\<rparr>
       else gate threshold repo n (row_id review) (dedup_findings (concat fss)))"
  by (simp add: aggregate_def gate_def act_def Let_def cong: if_cong)

lemma gate_step:
  assumes ok: "ok w" and r: "gate threshold repo n i fs w = (r, w')"
  shows "ok w' \<and> (settled d w \<longrightarrow> settled d w') \<and> lookup w' = lookup w \<and>
    (acted threshold repo n i fs w w' \<or> posted w' = posted w \<and> queued w' = queued w \<and> (\<forall>x. r \<noteq> Inr x)) \<and>
    (\<forall>x. r = Inr x \<longrightarrow> ar_review_id x = i \<and>
       (status w i \<noteq> None \<longrightarrow> (\<exists>st. status w' i = Some st \<and> st \<noteq> lit ''pending'')))"
proof -
  let ?ev = "decision_event i (decide fs (overall_confidence fs) threshold) (overall_confidence fs) fs threshold"
  obtain r1 w1 where m: "co_insert_findings co i fs w = (r1, w1)" by (metis surj_pair)
  obtain r2 w2 where e: "co_emit co ?ev w1 = (r2, w2)" by (metis surj_pair)
  note m' = insert_law [OF ok m] and e' = emit_law [OF conjunct1 [OF insert_law [OF ok m]] e]
  show ?thesis
  proof (cases r1)
    case (Inl x)
    with r m have "w' = w1" "r = Inl x" by (simp_all add: gate_def then_io_def bind_io_def)
    with m' show ?thesis by (auto simp: settled_def)
  next
    case 1: (Inr u)
    show ?thesis
    proof (cases r2)
      case (Inl x)
      with r m e 1 have "w' = w2" "r = Inl x" by (simp_all add: gate_def then_io_def bind_io_def)
      with m' e' show ?thesis by (auto simp: settled_def)
    next
      case (Inr v)
      with r m e 1 have a: "act threshold repo n i fs w2 = (r, w')"
        by (simp add: gate_def then_io_def bind_io_def)
      have "settled d w \<longrightarrow> settled d w2" using m' e' by (auto simp: settled_def)
      moreover have "acted threshold repo n i fs w2 w' = acted threshold repo n i fs w w'"
        using m' e' by (simp add: acted_def)
      ultimately show ?thesis using act_spec [OF conjunct1 [OF e'] a, of d] m' e' by simp
    qed
  qed
qed

text \<open>The whole step, returned or not: it acts at most once, not at all on a settled delivery, and when
  it returns the delivery is settled; the first time it returns, it has acted.\<close>

lemma aggregate_spec:
  assumes ok: "ok w" and r: "aggregate co threshold repo n d fss w = (r, w')"
  defines "fs \<equiv> dedup_findings (concat fss)"
  shows "ok w' \<and> (settled d' w \<longrightarrow> settled d' w') \<and>
    (posted w' = posted w \<and> queued w' = queued w \<or>
      \<not> settled d w \<and> (\<exists>i. lookup w' d = Some i \<and> acted threshold repo n i fs w w')) \<and>
    (\<forall>x. r = Inr x \<longrightarrow> settled d w' \<and> lookup w' d = Some (ar_review_id x) \<and>
      (\<not> settled d w \<longrightarrow> acted threshold repo n (ar_review_id x) fs w w'))"
proof -
  obtain r1 w1 where u: "co_upsert_review co repo n d w = (r1, w1)" by (metis surj_pair)
  note u' = upsert_law [OF ok u]
  have grow: "settled d'' w \<Longrightarrow> settled d'' w1" for d'' using u' settled_grow by blast
  show ?thesis
  proof (cases r1)
    case (Inl e)
    with r u have "r = Inl e" "w' = w1" by (simp_all add: aggregate_gate bind_io_def)
    with u' grow show ?thesis by blast
  next
    case (Inr row)
    let ?i = "row_id row"
    have row: "lookup w1 d = Some ?i" "status w1 ?i = Some (row_status row)" using u' Inr by auto
    show ?thesis
    proof (cases "row_status row = lit ''pending''")
      case False
      then have w': "w' = w1" and rr: "\<And>x. r = Inr x \<Longrightarrow> ar_review_id x = ?i"
        using r u Inr by (auto simp: aggregate_gate bind_io_def ret_def)
      have "settled d w" using u' Inr False unfolding settled_def by blast
      then show ?thesis using u' w' rr row grow by auto
    next
      case True
      have ns: "\<not> settled d w"
      proof
        assume "settled d w"
        then have "settled d w1" by (rule grow)
        then show False using row True by (auto simp: settled_def)
      qed
      have g: "gate threshold repo n ?i fs w1 = (r, w')"
        using r u Inr True by (simp add: aggregate_gate bind_io_def fs_def)
      have "acted threshold repo n ?i fs w1 w' \<longleftrightarrow> acted threshold repo n ?i fs w w'"
        using u' by (simp add: acted_def Let_def)
      then have g': "ok w'" "settled d' w \<longrightarrow> settled d' w'" "lookup w' = lookup w1"
        "acted threshold repo n ?i fs w w' \<or> posted w' = posted w \<and> queued w' = queued w \<and> (\<forall>x. r \<noteq> Inr x)"
        "\<And>x. r = Inr x \<Longrightarrow> ar_review_id x = ?i \<and> (\<exists>st. status w' ?i = Some st \<and> st \<noteq> lit ''pending'')"
        using gate_step [OF conjunct1 [OF u'] g, of d'] u' row grow [of d'] by auto
      have "settled d w'" if "r = Inr x" for x
        using g'(3,5) that row unfolding settled_def by auto
      with g' ns row show ?thesis by (intro conjI) auto
    qed
  qed
qed

lemma aggregate_lookup:
  assumes ok: "ok w" and r: "aggregate co threshold repo n d fss w = (r, w')"
  shows "lookup w \<subseteq>\<^sub>m lookup w'"
proof -
  obtain r1 w1 where u: "co_upsert_review co repo n d w = (r1, w1)" by (metis surj_pair)
  note u' = upsert_law [OF ok u]
  have "lookup w' = lookup w1"
  proof (cases r1)
    case (Inl e)
    with r u show ?thesis by (simp add: aggregate_gate bind_io_def)
  next
    case (Inr row)
    with r u show ?thesis
      using gate_step [OF conjunct1 [OF u'], of threshold repo n "row_id row" "dedup_findings (concat fss)" r w']
      by (cases "row_status row = lit ''pending''") (auto simp: aggregate_gate bind_io_def ret_def)
  qed
  with u' show ?thesis by simp
qed

text \<open>Only an action settles a delivery: a run that neither posted nor queued leaves all of them as they were.\<close>

lemma act_idle:
  assumes "ok w" "act threshold repo n i fs w = (r, w')" "posted w' = posted w" "queued w' = queued w"
  shows "lookup w' = lookup w \<and> status w' = status w"
proof -
  let ?score = "overall_confidence fs"
  obtain r1 w1 where p: "co_post_review co repo n (render_review_body fs) (review_event fs) w = (r1, w1)" by (metis surj_pair)
  obtain r2 w2 where q: "co_enqueue co i (hitl_reason (decide fs ?score threshold) fs ?score threshold) w = (r2, w2)"
    by (metis surj_pair)
  note laws = post_law [OF assms(1) p] enqueue_law [OF assms(1) q]
  show ?thesis
  proof (cases "decide fs ?score threshold = AUTO_POST")
    case True
    have "posted w' = posted w1"
    proof (cases r1)
      case (Inl e)
      with assms(2) True p show ?thesis by (simp add: act_def bind_io_def Let_def)
    next
      case (Inr gid)
      obtain r3 w3 where m: "co_mark_posted co i gid ?score w1 = (r3, w3)" by (metis surj_pair)
      have "w' = w3"
        using assms(2) True p Inr m by (auto simp: act_def bind_io_def then_io_def ret_def Let_def split: sum.splits)
      with mark_law [OF conjunct1 [OF laws(1)] m] show ?thesis by simp
    qed
    with laws(1) assms(3) show ?thesis by simp
  next
    case False
    have "w' = w2 \<or> queued w' = queued w2 \<and> (\<exists>h. r2 = Inr h)"
    proof (cases r2)
      case (Inl e)
      with assms(2) False q show ?thesis by (simp add: act_def bind_io_def Let_def)
    next
      case (Inr h)
      obtain r3 w3 where m: "co_set_status co i (hitl_status (decide fs ?score threshold)) ?score w2 = (r3, w3)"
        by (metis surj_pair)
      have "w' = w3"
        using assms(2) False q Inr m by (auto simp: act_def bind_io_def then_io_def ret_def Let_def split: sum.splits)
      with status_law [OF conjunct1 [OF laws(2)] m] Inr show ?thesis by simp
    qed
    moreover have "\<exists>e. r2 = Inl e" if "queued w2 = queued w"
      using laws(2) that by (cases r2) auto
    ultimately show ?thesis using laws(2) assms(4) by (metis Inl_Inr_False)
  qed
qed

lemma aggregate_idle:
  assumes ok: "ok w" and r: "aggregate co threshold repo n d fss w = (r, w')"
    and idle: "posted w' = posted w" "queued w' = queued w" and set: "settled d' w'"
  shows "settled d' w"
proof -
  define fs where "fs = dedup_findings (concat fss)"
  obtain r1 w1 where u: "co_upsert_review co repo n d w = (r1, w1)" by (metis surj_pair)
  note u' = upsert_law [OF ok u]
  have "lookup w' = lookup w1 \<and> status w' = status w1"
  proof (cases "\<exists>row. r1 = Inr row \<and> row_status row = lit ''pending''")
    case False
    then show ?thesis using r u by (cases r1) (auto simp: aggregate_gate bind_io_def ret_def)
  next
    case True
    then obtain row where row: "r1 = Inr row" "row_status row = lit ''pending''" by blast
    let ?i = "row_id row"
    obtain r2 w2 where m: "co_insert_findings co ?i fs w1 = (r2, w2)" by (metis surj_pair)
    note m' = insert_law [OF conjunct1 [OF u'] m]
    obtain r3 w3 where e: "co_emit co (decision_event ?i (decide fs (overall_confidence fs) threshold)
        (overall_confidence fs) fs threshold) w2 = (r3, w3)" by (metis surj_pair)
    note e' = emit_law [OF conjunct1 [OF m'] e]
    have "gate threshold repo n ?i fs w1 = (r, w')" using r u row by (simp add: aggregate_gate bind_io_def fs_def)
    then have "w' = w2 \<or> w' = w3 \<or> act threshold repo n ?i fs w3 = (r, w')"
      using m e by (auto simp: gate_def then_io_def bind_io_def split: sum.splits)
    then show ?thesis using act_idle [OF conjunct1 [OF e']] u' m' e' idle by auto
  qed
  with set fresh_law [OF ok u, of d'] show ?thesis unfolding settled_def by metis
qed

text \<open>A list of runs, of any deliveries, one after the other, each returning or raising.\<close>

lemma settled_after:
  "aggregate_all co threshold jobs w = (rs, w') \<Longrightarrow> ok w \<Longrightarrow>
    ok w' \<and> (settled d w \<longrightarrow> settled d w') \<and>
    (\<forall>k x. k < length jobs \<longrightarrow> rs ! k = Inr x \<longrightarrow> job_delivery (jobs ! k) = d \<longrightarrow> settled d w')"
proof (induction jobs arbitrary: w rs)
  case (Cons j jobs)
  obtain r w1 where r: "aggregate co threshold (job_repo j) (job_pr j) (job_delivery j) (job_findings j) w = (r, w1)"
    by (metis surj_pair)
  obtain rs1 where rs: "aggregate_all co threshold jobs w1 = (rs1, w')" "rs = r # rs1"
    using Cons.prems(1) r by (auto split: prod.splits)
  note step = aggregate_spec [OF Cons.prems(2) r, of d]
  note rest = Cons.IH [OF rs(1) conjunct1 [OF step]]
  have "settled d w'" if "k < length (j # jobs)" "rs ! k = Inr x" "job_delivery ((j # jobs) ! k) = d" for k x
  proof (cases k)
    case 0
    with that rs have "r = Inr x" "job_delivery j = d" by auto
    with step have "settled d w1" by auto
    with rest show ?thesis by simp
  next
    case (Suc k')
    with that rs rest show ?thesis by auto
  qed
  with step rest show ?case by blast
qed simp

lemma once_returned_never_again:
  assumes "ok w" and "aggregate_all co threshold jobs w = (rs, w1)"
    and "k < length jobs" "rs ! k = Inr x" "job_delivery (jobs ! k) = d"
    and "aggregate co threshold' repo n d fss w1 = (r, w2)"
  shows "posted w2 = posted w1 \<and> queued w2 = queued w1"
  using settled_after [OF assms(2,1), of d] assms(3-5) aggregate_spec [OF _ assms(6), of d] by blast

end

subsection \<open>The program's collaborators\<close>

record 'g world =
  tiger :: "tiger_db conn"
  post_log :: "post list"
  github :: 'g

definition on_tiger :: "(tiger_db conn, 'a) io \<Rightarrow> ('g world, 'a) io" where
  "on_tiger m = zoom tiger (\<lambda>c w. w\<lparr>tiger := c\<rparr>) m"

text \<open>\<open>post\<close> is the client's \<open>post_review\<close>; every call of it is logged.\<close>

definition logged_post :: "(pystr \<Rightarrow> int \<Rightarrow> pystr \<Rightarrow> pystr \<Rightarrow> ('g, int) io)
    \<Rightarrow> pystr \<Rightarrow> int \<Rightarrow> pystr \<Rightarrow> pystr \<Rightarrow> ('g world, int) io" where
  "logged_post post repo n body evt w = (case post repo n body evt (github w) of
     (r, g) \<Rightarrow> (r, w\<lparr>post_log := post_log w @ [(repo, n, body, evt)], github := g\<rparr>))"

definition tiger_collab :: "(rat \<Rightarrow> rat) \<Rightarrow> (rat \<Rightarrow> rat)
    \<Rightarrow> (pystr \<Rightarrow> int \<Rightarrow> pystr \<Rightarrow> pystr \<Rightarrow> ('g, int) io) \<Rightarrow> 'g world collaborators" where
  "tiger_collab num43 num106 post =
     \<lparr>co_post_review = logged_post post,
      co_upsert_review = (\<lambda>repo n d. on_tiger (upsert_review repo n d)),
      co_insert_findings = (\<lambda>i fs. on_tiger (insert_findings num43 i fs)),
      co_mark_posted = (\<lambda>i gid c. on_tiger (mark_posted num43 i gid c)),
      co_set_status = (\<lambda>i st c. on_tiger (set_status num43 i st c)),
      co_enqueue = (\<lambda>i reason. on_tiger (hq_enqueue i reason)),
      co_emit = (\<lambda>a. on_tiger (sink_emit num106 num43 a))\<rparr>"

abbreviation world_db :: "'g world \<Rightarrow> tiger_db" where
  "world_db w \<equiv> conn_db (tiger w)"

definition lookup_db :: "tiger_db \<Rightarrow> pystr \<Rightarrow> uuid option" where
  "lookup_db db d = map_option pr_id (find_delivery d db)"

definition status_db :: "tiger_db \<Rightarrow> uuid \<Rightarrow> pystr option" where
  "status_db db i = map_option pr_status (find_review i db)"

definition queued_db :: "tiger_db \<Rightarrow> (uuid \<times> pystr) list" where
  "queued_db db = map (\<lambda>h. (hr_review_id h, hr_reason h)) (hitl_rows db)"

lemma find_review_id: "find_review i db = Some r \<Longrightarrow> r \<in> set (reviews db) \<and> pr_id r = i"
  unfolding find_review_def using find_Some_set by fastforce

lemma find_delivery_id: "find_delivery d db = Some r \<Longrightarrow> r \<in> set (reviews db) \<and> pr_delivery r = d"
  unfolding find_delivery_def using find_Some_set by fastforce

lemma find_review_wf: "wf_db db \<Longrightarrow> r \<in> set (reviews db) \<Longrightarrow> find_review (pr_id r) db = Some r"
  by (simp add: find_review_def wf_db_def find_distinct)

lemma lookup_update:
  "(\<And>r. pr_delivery (g r) = pr_delivery r) \<Longrightarrow> (\<And>r. pr_id (g r) = pr_id r) \<Longrightarrow>
    lookup_db (update_reviews p g db) = lookup_db db"
  by (rule ext) (simp add: lookup_db_def find_delivery_def find_update option.map_comp comp_def if_distrib cong: if_cong)

lemma status_update:
  assumes "\<And>r. pr_id (g r) = pr_id r"
  shows "status_db (update_reviews p g db) i = map_option (\<lambda>r. pr_status (if p r then g r else r)) (find_review i db)"
  by (simp add: status_db_def find_review_def find_update assms option.map_comp comp_def)

lemma status_update_id:
  assumes "\<And>r. pr_id (g r) = pr_id r" "\<And>r. pr_status (g r) = st"
  shows "status_db (update_reviews (\<lambda>r. pr_id r = i) g db) =
    (status_db db)(i := map_option (\<lambda>_. st) (status_db db i))"
proof
  fix j
  show "status_db (update_reviews (\<lambda>r. pr_id r = i) g db) j =
      ((status_db db)(i := map_option (\<lambda>_. st) (status_db db i))) j"
    using find_review_id [of j db] assms(2) unfolding fun_upd_def status_update [OF assms(1)]
    by (cases "find_review j db") (auto simp: status_db_def)
qed

lemma status_update_same:
  "(\<And>r. pr_id (g r) = pr_id r) \<Longrightarrow> (\<And>r. pr_status (g r) = pr_status r) \<Longrightarrow>
    status_db (update_reviews p g db) = status_db db"
  by (rule ext, subst status_update) (simp_all add: status_db_def if_distrib cong: if_cong)

text \<open>The effect of the upsert on what the gate reads.\<close>

lemma upsert_effect:
  assumes wf: "wf_db db" and u: "upsert_review_sql repo n d db = (r, db')"
  shows "lookup_db db \<subseteq>\<^sub>m lookup_db db' \<and> status_db db \<subseteq>\<^sub>m status_db db' \<and> queued_db db' = queued_db db \<and>
    (\<exists>row. r = Inr row \<and> lookup_db db' d = Some (row_id row) \<and> status_db db' (row_id row) = Some (row_status row) \<and>
      (row_status row \<noteq> lit ''pending'' \<longrightarrow> lookup_db db d = Some (row_id row) \<and>
         status_db db (row_id row) = Some (row_status row)))"
proof (cases "find_delivery d db")
  case (Some x)
  have db': "db' = update_reviews (\<lambda>r. pr_delivery r = d) (\<lambda>r. r\<lparr>pr_num := n\<rparr>) db" "r = Inr (row_of x)"
    using u Some by (simp_all add: upsert_review_sql_def)
  have "lookup_db db' = lookup_db db" "status_db db' = status_db db"
    by (simp_all add: db' lookup_update status_update_same)
  moreover have "status_db db (pr_id x) = Some (pr_status x)"
    using find_review_wf [OF wf, of x] find_delivery_id [OF Some] by (simp add: status_db_def)
  ultimately show ?thesis using Some by (simp add: db' lookup_db_def row_of_def queued_db_def)
next
  case None
  let ?x = "\<lparr>pr_id = next_uuid db, pr_repo = repo, pr_num = n, pr_delivery = d,
      pr_status = lit ''pending'', pr_confidence = None, pr_github_review_id = None,
      pr_created_at = db_now db, pr_completed_at = None\<rparr>"
  have db': "reviews db' = reviews db @ [?x]" "hitl_rows db' = hitl_rows db" "r = Inr (row_of ?x)"
    using u None by (auto simp: upsert_review_sql_def Let_def)
  have fresh: "find_review (next_uuid db) db = None"
    using wf by (auto simp: wf_db_def find_review_def find_None_iff)
  have "lookup_db db d' = Some i \<Longrightarrow> lookup_db db' d' = Some i" for d' i
    by (auto simp: lookup_db_def find_delivery_def db' find_snoc)
  moreover have "status_db db i = Some s \<Longrightarrow> status_db db' i = Some s" for i s
    by (auto simp: status_db_def find_review_def db' find_snoc)
  moreover have "lookup_db db' d = Some (next_uuid db)" "status_db db' (next_uuid db) = Some (lit ''pending'')"
    using None fresh
    by (simp_all add: lookup_db_def find_delivery_def status_db_def find_review_def db' find_snoc)
  ultimately show ?thesis
    by (auto simp: map_le_def row_of_def db' queued_db_def)
qed

definition w_ok :: "'g world \<Rightarrow> bool" where
  "w_ok w \<longleftrightarrow> wf_db (world_db w)"

definition w_lookup :: "'g world \<Rightarrow> pystr \<Rightarrow> uuid option" where
  "w_lookup w = lookup_db (world_db w)"

definition w_status :: "'g world \<Rightarrow> uuid \<Rightarrow> pystr option" where
  "w_status w = status_db (world_db w)"

definition w_queued :: "'g world \<Rightarrow> (uuid \<times> pystr) list" where
  "w_queued w = queued_db (world_db w)"

lemmas w_defs = w_ok_def w_lookup_def w_status_def w_queued_def

lemma on_tiger_run:
  "on_tiger m w = (r, w') \<longleftrightarrow> m (tiger w) = (r, tiger w') \<and> w' = w\<lparr>tiger := tiger w'\<rparr>"
  by (cases "m (tiger w)") (auto simp: on_tiger_def zoom_def)

lemma on_tiger_log: "on_tiger m w = (r, w') \<Longrightarrow> post_log w' = post_log w"
  using on_tiger_run [of m w r w'] by (metis world.select_convs(2) world.surjective world.update_convs(1))

lemma ts_run_db:
  assumes "on_tiger (ts_run name stmt) w = (r, w')" "idempotent_stmt stmt"
  shows "world_db w' = world_db w \<or> world_db w' = snd (stmt (world_db w))"
    and "r = Inr a \<Longrightarrow> stmt (world_db w) = (Inr a, world_db w')"
  using guarded_idempotent [OF assms(2), of _ "tiger w" r "tiger w'"] assms(1)
  by (auto simp: on_tiger_run ts_run_def)

lemma unguarded_db:
  assumes "on_tiger (unguarded stmt) w = (r, w')"
  shows "world_db w' = world_db w \<or> world_db w' = snd (stmt (world_db w))"
    and "r = Inr a \<Longrightarrow> stmt (world_db w) = (Inr a, world_db w')"
  using unguarded_once [of stmt "tiger w" r "tiger w'"] assms by (auto simp: on_tiger_run)

lemma status_sql_effect:
  "status_db (snd (set_status_sql num43 i st c db)) = (status_db db)(i := map_option (\<lambda>_. st) (status_db db i))"
  "lookup_db (snd (set_status_sql num43 i st c db)) = lookup_db db"
  "queued_db (snd (set_status_sql num43 i st c db)) = queued_db db"
  by (simp_all add: set_status_sql_def status_update_id lookup_update queued_db_def)

lemma mark_sql_effect:
  "status_db (snd (mark_posted_sql num43 i gid c db)) =
     (status_db db)(i := map_option (\<lambda>_. lit ''posted'') (status_db db i))"
  "lookup_db (snd (mark_posted_sql num43 i gid c db)) = lookup_db db"
  "queued_db (snd (mark_posted_sql num43 i gid c db)) = queued_db db"
  by (simp_all add: mark_posted_sql_def status_update_id lookup_update queued_db_def)

lemma insert_sql_effect:
  "status_db (snd (insert_findings_sql rows db)) = status_db db"
  "lookup_db (snd (insert_findings_sql rows db)) = lookup_db db"
  "queued_db (snd (insert_findings_sql rows db)) = queued_db db"
  by (simp_all add: insert_findings_sql_def status_db_def find_review_def lookup_db_def find_delivery_def
      queued_db_def fun_eq_iff)

lemma emit_sql_effect:
  "status_db (snd (emit_sql num106 num43 a db)) = status_db db"
  "lookup_db (snd (emit_sql num106 num43 a db)) = lookup_db db"
  "queued_db (snd (emit_sql num106 num43 a db)) = queued_db db"
  by (simp_all add: emit_sql_def status_db_def find_review_def lookup_db_def find_delivery_def
      queued_db_def fun_eq_iff)

lemma enqueue_sql_effect:
  "status_db (snd (enqueue_sql i reason db)) = status_db db"
  "lookup_db (snd (enqueue_sql i reason db)) = lookup_db db"
  "queued_db (snd (enqueue_sql i reason db)) =
     (if i \<in> pr_id ` set (reviews db) then queued_db db @ [(i, reason)] else queued_db db)"
  by (simp_all add: enqueue_sql_def status_db_def find_review_def lookup_db_def find_delivery_def
      queued_db_def fun_eq_iff)

lemma enqueue_sql_Inr:
  "enqueue_sql i reason db = (Inr h, db') \<Longrightarrow> queued_db db' = queued_db db @ [(i, reason)]"
  by (auto simp: enqueue_sql_def queued_db_def split: if_splits)

text \<open>An upsert settles nothing.\<close>

lemma upsert_fresh:
  assumes wf: "wf_db db" and u: "upsert_review_sql repo n d db = (r, db')"
    and "lookup_db db' d' = Some i" "status_db db' i = Some st" "st \<noteq> lit ''pending''"
  shows "lookup_db db d' = Some i \<and> status_db db i = Some st"
proof (cases "find_delivery d db")
  case (Some x)
  have "db' = update_reviews (\<lambda>r. pr_delivery r = d) (\<lambda>r. r\<lparr>pr_num := n\<rparr>) db"
    using u Some by (simp add: upsert_review_sql_def)
  then have "lookup_db db' = lookup_db db" "status_db db' = status_db db"
    by (simp_all add: lookup_update status_update_same)
  with assms(3,4) show ?thesis by simp
next
  case None
  then have rs: "\<exists>x. reviews db' = reviews db @ [x] \<and> pr_id x = next_uuid db \<and> pr_status x = lit ''pending''"
    using u by (auto simp: upsert_review_sql_def Let_def)
  have "find_review (next_uuid db) db = None"
    using wf by (auto simp: wf_db_def find_review_def find_None_iff)
  with rs assms(3-5) show ?thesis
    by (auto simp: lookup_db_def status_db_def find_delivery_def find_review_def find_snoc split: option.splits if_splits)
qed

interpretation tiger_gate: gate_world "tiger_collab num43 num106 post" w_ok w_lookup w_status post_log w_queued
  for num43 num106 post
proof (unfold_locales, goal_cases)
  case (1 w repo n d r w')
  then have run: "on_tiger (ts_run (lit ''upsert_review'') (upsert_review_sql repo n d)) w = (r, w')"
    by (simp add: tiger_collab_def upsert_review_def)
  obtain r0 db0 where u: "upsert_review_sql repo n d (world_db w) = (r0, db0)" by (metis surj_pair)
  have wf: "wf_db (world_db w)" using 1 by (simp add: w_ok_def)
  show ?case
    using ts_run_db [OF run idem_upsert] upsert_effect [OF wf u] u wf wf_upsert [OF wf, of repo n d]
      on_tiger_log [OF run]
    by (auto simp: w_defs)
next
  case (2 w i fs r w')
  show ?case
  proof (cases "fs = []")
    case True
    with 2 show ?thesis by (auto simp: tiger_collab_def insert_findings_def on_tiger_def zoom_def ret_def)
  next
    case False
    then have run: "on_tiger (ts_run (lit ''insert_findings'')
        (insert_findings_sql (map (finding_row num43 i) fs))) w = (r, w')"
      using 2 by (simp add: tiger_collab_def insert_findings_def)
    show ?thesis
      using ts_run_db(1) [OF run idem_insert_findings] 2(1) on_tiger_log [OF run] wf_insert_findings
      by (auto simp: w_defs insert_sql_effect)
  qed
next
  case (3 w a r w')
  then have run: "on_tiger (unguarded (emit_sql num106 num43 a)) w = (r, w')"
    by (simp add: tiger_collab_def sink_emit_def)
  show ?case
    using unguarded_db(1) [OF run] 3(1) on_tiger_log [OF run] wf_emit by (auto simp: w_defs emit_sql_effect)
next
  case (4 w repo n body evt r w')
  then show ?case by (auto simp: tiger_collab_def logged_post_def w_defs split: prod.splits)
next
  case (5 w i reason r w')
  then have run: "on_tiger (unguarded (enqueue_sql i reason)) w = (r, w')"
    by (simp add: tiger_collab_def hq_enqueue_def)
  have "queued_db (world_db w') = queued_db (world_db w) @ [(i, reason)]" if "r = Inr h" for h
    by (rule enqueue_sql_Inr [OF unguarded_db(2) [OF run that]])
  then show ?case
    using unguarded_db(1) [OF run] 5(1) on_tiger_log [OF run] wf_enqueue [of "world_db w" i reason]
    by (cases r) (auto simp: w_defs enqueue_sql_effect split: if_splits)
next
  case (6 w i gid c r w')
  then have run: "on_tiger (ts_run (lit ''mark_posted'') (mark_posted_sql num43 i gid c)) w = (r, w')"
    by (simp add: tiger_collab_def mark_posted_def)
  show ?case
    using ts_run_db [OF run idem_mark_posted] 6(1) on_tiger_log [OF run] wf_mark_posted
      mark_sql_effect [of num43 i gid c "world_db w"]
    by (auto simp: w_defs)
next
  case (7 w i st c r w')
  then have run: "on_tiger (ts_run (lit ''set_status'') (set_status_sql num43 i st c)) w = (r, w')"
    by (simp add: tiger_collab_def set_status_def)
  show ?case
    using ts_run_db [OF run idem_set_status] 7(1) on_tiger_log [OF run] wf_set_status
      status_sql_effect [of num43 i st c "world_db w"]
    by (auto simp: w_defs)
next
  case (8 w repo n d r w' d' i st)
  then have run: "on_tiger (ts_run (lit ''upsert_review'') (upsert_review_sql repo n d)) w = (r, w')"
    by (simp add: tiger_collab_def upsert_review_def)
  have wf: "wf_db (world_db w)" using 8(1) by (simp add: w_ok_def)
  from ts_run_db(1) [OF run idem_upsert] show ?case
    using upsert_fresh [OF wf prod.collapse [symmetric], of repo n d d' i st] 8(3-5) by (auto simp: w_defs)
qed

subsection \<open>A concrete world, for evaluation\<close>

text \<open>A GitHub that numbers the reviews it is sent, a database with a given fault script, and a
  rounding of columns that keeps every value.\<close>

definition sample_post :: "pystr \<Rightarrow> int \<Rightarrow> pystr \<Rightarrow> pystr \<Rightarrow> (int, int) io" where
  "sample_post repo n body evt g = (Inr g, g + 1)"

definition sample_tiger :: "fault list \<Rightarrow> int world" where
  "sample_tiger fts = \<lparr>tiger = truth_conn \<lparr>clock = 0, slept = [], dep = \<lparr>script = fts, store = empty_db\<rparr>\<rparr>,
     post_log = [], github = 1\<rparr>"

definition sample_collab :: "int world collaborators" where
  "sample_collab = tiger_collab (\<lambda>c. c) (\<lambda>c. c) sample_post"

definition fine :: fault where
  "fine = \<lparr>ft_dur = 0, ft_exn = None, ft_applied = True\<rparr>"

definition sample_job :: "finding list \<Rightarrow> gate_job" where
  "sample_job fs = \<lparr>job_repo = lit ''o/r'', job_pr = 7, job_delivery = lit ''d1'', job_findings = [fs]\<rparr>"

subsection \<open>Properties\<close>

text \<open>C8. Once a run of \<open>aggregate\<close> for a delivery has returned, no later run for that delivery posts to
  GitHub or queues a human review again, whatever runs (of this and of other deliveries, returned
  or raised) happened in between, and under every pattern of database faults.\<close>

theorem gate_never_acts_again:
  assumes "wf_db (world_db w)"
    and "aggregate_all (tiger_collab num43 num106 post) t jobs w = (rs, w1)"
    and "k < length jobs" and "rs ! k = Inr x" and "job_delivery (jobs ! k) = d"
    and "aggregate (tiger_collab num43 num106 post) t' repo n d fss w1 = (r, w2)"
  shows "post_log w2 = post_log w1 \<and> queued_db (world_db w2) = queued_db (world_db w1)"
  using tiger_gate.once_returned_never_again [OF _ assms(2-6)] assms(1) by (simp add: w_defs)

abbreviation sample_run :: "finding list \<Rightarrow> int world \<Rightarrow> (exn + aggregate_result) \<times> int world" where
  "sample_run fs \<equiv> aggregate (tiger_collab (\<lambda>c. c) (\<lambda>c. c) sample_post) (3 / 4) (lit ''o/r'') 7 (lit ''d1'') [fs]"

definition sample_result :: aggregate_result where
  "sample_result = \<lparr>ar_review_id = 0, ar_confidence = 1, ar_decision = AUTO_POST,
     ar_github_review_id = Some 1, ar_hitl_review_id = None, ar_findings = []\<rparr>"

lemma sample_run_result: "fst (sample_run [] (sample_tiger [])) = Inr sample_result"
  by code_simp

lemma sample_run_pair: "sample_run [] (sample_tiger []) = (Inr sample_result, snd (sample_run [] (sample_tiger [])))"
  using sample_run_result by (metis prod.collapse)

lemma sample_run_all:
  "aggregate_all (tiger_collab (\<lambda>c. c) (\<lambda>c. c) sample_post) (3 / 4) [sample_job []] (sample_tiger []) =
     ([Inr sample_result], snd (sample_run [] (sample_tiger [])))"
  using sample_run_result by (simp add: sample_job_def case_prod_beta)

lemma sample_tiger_wf: "wf_db (world_db (sample_tiger fts))"
  by (simp add: sample_tiger_def truth_conn_def)

theorem gate_never_acts_again_witness:
  "let w = snd (sample_run [] (sample_tiger [])); w' = snd (sample_run sample_clash w)
   in post_log w' = post_log w \<and> queued_db (world_db w') = queued_db (world_db w)"
  unfolding Let_def
  by (rule gate_never_acts_again [OF sample_tiger_wf sample_run_all, where k = 0 and x = sample_result and d = "lit ''d1''"])
    (auto simp: sample_job_def intro: prod.collapse [symmetric])

text \<open>C9. What a run of \<open>aggregate\<close> that returns has done for a delivery the database does not know yet:
  either the rendered review was sent to GitHub once and nothing was queued, or one human review with
  the decision's reason was queued and nothing was sent, as the gate decided on the deduplicated
  findings; and the review is no longer pending.\<close>

theorem gate_acts_exactly_once:
  assumes wf: "wf_db (world_db w)" and new: "find_delivery d (world_db w) = None"
    and run: "aggregate (tiger_collab num43 num106 post) t repo n d fss w = (Inr x, w')"
  shows "let fs = dedup_findings (concat fss); score = overall_confidence fs; dec = decide fs score t in
    (if dec = AUTO_POST
     then post_log w' = post_log w @ [(repo, n, render_review_body fs, review_event fs)] \<and>
       queued_db (world_db w') = queued_db (world_db w)
     else post_log w' = post_log w \<and>
       queued_db (world_db w') = queued_db (world_db w) @ [(ar_review_id x, hitl_reason dec fs score t)]) \<and>
    (\<exists>st. status_db (world_db w') (ar_review_id x) = Some st \<and> st \<noteq> lit ''pending'')"
proof -
  have "w_ok w" using wf by (simp add: w_defs)
  note spec = tiger_gate.aggregate_spec [OF this run]
  have "\<not> tiger_gate.settled d w" using new by (simp add: tiger_gate.settled_def w_defs lookup_db_def)
  with spec have acted: "tiger_gate.acted t repo n (ar_review_id x) (dedup_findings (concat fss)) w w'"
    and st: "tiger_gate.settled d w'" "w_lookup w' d = Some (ar_review_id x)" by blast+
  from st have "\<exists>st. status_db (world_db w') (ar_review_id x) = Some st \<and> st \<noteq> lit ''pending''"
    by (auto simp: tiger_gate.settled_def w_defs)
  with acted show ?thesis unfolding tiger_gate.acted_def w_queued_def Let_def by simp
qed

theorem gate_acts_exactly_once_witness:
  "let fs = dedup_findings (concat [[]]); score = overall_confidence fs; dec = decide fs score (3 / 4);
       w = sample_tiger []; w' = snd (sample_run [] w) in
    (if dec = AUTO_POST
     then post_log w' = post_log w @ [(lit ''o/r'', 7, render_review_body fs, review_event fs)] \<and>
       queued_db (world_db w') = queued_db (world_db w)
     else post_log w' = post_log w \<and>
       queued_db (world_db w') = queued_db (world_db w) @
         [(ar_review_id sample_result, hitl_reason dec fs score (3 / 4))]) \<and>
    (\<exists>st. status_db (world_db w') (ar_review_id sample_result) = Some st \<and> st \<noteq> lit ''pending'')"
proof -
  have new: "find_delivery (lit ''d1'') (world_db (sample_tiger [])) = None"
    by (simp add: sample_tiger_def truth_conn_def empty_db_def find_delivery_def)
  from gate_acts_exactly_once [OF sample_tiger_wf new sample_run_pair] show ?thesis
    unfolding Let_def .
qed

text \<open>The side effect comes before the status that guards it: when the database rejects \<open>mark_posted\<close>
  after GitHub has accepted the review, the run raises with the row still pending, and the next run
  of the same delivery sends the review a second time.\<close>

theorem gate_crash_window_posts_twice:
  "let fts = [fine, fine, fine\<lparr>ft_exn := Some (PostgresError (lit ''disk full'')), ft_applied := False\<rparr>];
       job = (sample_job [])\<lparr>job_pr := 7\<rparr>;
       run = aggregate_all sample_collab (3 / 4) [job, job] (sample_tiger fts)
   in map (case_sum (\<lambda>e. Some e) (\<lambda>_. None)) (fst run) = [Some (PostgresError (lit ''disk full'')), None] \<and>
      length (post_log (snd run)) = 2"
  by code_simp

end
