(* ===== verification/Checkpointer.thy ===== *)
theory Checkpointer
  imports Database "HOL-Library.AList" "HOL-Library.List_Lexorder"
begin

text \<open>
  \<open>orchestrator/redis_checkpointer.py\<close>: the checkpoint saver over plain Redis, whose connection has no guard.
  The three families of keys are three maps. Pickling is the identity; the serializer, the metadata and
  the identifier of a checkpoint, \<open>WRITES_IDX_MAP\<close> and the pattern language of \<open>SCAN\<close> are parameters.
\<close>

definition PREFIX :: pystr where "PREFIX = lit ''orchestrator:checkpoint''"
definition FIELD_SEP :: nat where "FIELD_SEP = 31"

definition checkpoint_key :: "pystr \<Rightarrow> pystr \<Rightarrow> pystr \<Rightarrow> pystr" where
  "checkpoint_key thread ns i = PREFIX @ lit '':cp:'' @ thread @ lit '':'' @ ns @ lit '':'' @ i"

definition order_key :: "pystr \<Rightarrow> pystr \<Rightarrow> pystr" where
  "order_key thread ns = PREFIX @ lit '':order:'' @ thread @ lit '':'' @ ns"

definition writes_key :: "pystr \<Rightarrow> pystr \<Rightarrow> pystr \<Rightarrow> pystr" where
  "writes_key thread ns i = PREFIX @ lit '':writes:'' @ thread @ lit '':'' @ ns @ lit '':'' @ i"

subsection \<open>What Redis holds\<close>

record 'b cp_entry =
  ce_checkpoint :: 'b
  ce_metadata :: 'b
  ce_parent :: "pystr option"

record 'b write_entry =
  we_task :: pystr
  we_channel :: pystr
  we_value :: 'b
  we_path :: pystr

record 'b saver_db =
  sv_entries :: "pystr \<Rightarrow> 'b cp_entry option"
  sv_orders :: "pystr \<Rightarrow> pystr list"
  sv_writes :: "pystr \<Rightarrow> (pystr \<times> 'b write_entry) list"

record config =
  cf_thread :: pystr
  cf_ns :: "pystr option"
  cf_id :: "pystr option"

record 'v checkpoint_tuple =
  ct_config :: config
  ct_checkpoint :: 'v
  ct_metadata :: 'v
  ct_pending :: "(pystr \<times> pystr \<times> 'v) list"
  ct_parent :: "config option"

record ('v, 'b) saver =
  sr_dumps :: "'v \<Rightarrow> 'b"
  sr_loads :: "'b \<Rightarrow> 'v"
  sr_id :: "'v \<Rightarrow> pystr"
  sr_meta :: "config \<Rightarrow> 'v \<Rightarrow> 'v"
  sr_index :: "pystr \<Rightarrow> int option"

text \<open>\<open>config["configurable"].get("checkpoint_ns", "")\<close>.\<close>

definition ns_of :: "config \<Rightarrow> pystr" where
  "ns_of c = (case cf_ns c of None \<Rightarrow> [] | Some ns \<Rightarrow> ns)"

definition config_at :: "pystr \<Rightarrow> pystr \<Rightarrow> pystr \<Rightarrow> config" where
  "config_at thread ns i = \<lparr>cf_thread = thread, cf_ns = Some ns, cf_id = Some i\<rparr>"

subsection \<open>Reading\<close>

definition lindex_last :: "pystr \<Rightarrow> ('b saver_db, pystr option) stmt" where
  "lindex_last k db = (Inr (if sv_orders db k = [] then None else Some (last (sv_orders db k))), db)"

definition latest_checkpoint_id :: "pystr \<Rightarrow> pystr \<Rightarrow> ('b saver_db conn, pystr option) io" where
  "latest_checkpoint_id thread ns = bind_io (unguarded (lindex_last (order_key thread ns)))
     (\<lambda>l. ret (case l of None \<Rightarrow> None | Some i \<Rightarrow> if i = [] then None else Some i))"

definition get_entry :: "pystr \<Rightarrow> ('b saver_db, 'b cp_entry option) stmt" where
  "get_entry k db = (Inr (sv_entries db k), db)"

definition hgetall :: "pystr \<Rightarrow> ('b saver_db, (pystr \<times> 'b write_entry) list) stmt" where
  "hgetall k db = (Inr (sv_writes db k), db)"

text \<open>\<open>field.rsplit(_FIELD_SEP, 1)\<close> and \<open>int\<close> of the second part.\<close>

definition write_field :: "pystr \<Rightarrow> int \<Rightarrow> pystr" where
  "write_field task n = task @ [FIELD_SEP] @ dec_int n"

definition undec_int :: "pystr \<Rightarrow> int" where
  "undec_int s = (case s of [] \<Rightarrow> 0 | c # t \<Rightarrow> if c = 45 then - int (undec t) else int (undec s))"

definition field_index :: "pystr \<Rightarrow> int" where
  "field_index f = undec_int (rev (takeWhile (\<lambda>c. c \<noteq> FIELD_SEP) (rev f)))"

definition pending_of :: "('b \<Rightarrow> 'v) \<Rightarrow> (pystr \<times> 'b write_entry) list \<Rightarrow> (pystr \<times> pystr \<times> 'v) list" where
  "pending_of loads h =
     map (\<lambda>(f, e). (we_task e, we_channel e, loads (we_value e))) (sort_key (\<lambda>(f, e). field_index f) h)"

definition load_pending_writes :: "('v, 'b) saver \<Rightarrow> pystr \<Rightarrow> pystr \<Rightarrow> pystr
    \<Rightarrow> ('b saver_db conn, (pystr \<times> pystr \<times> 'v) list) io" where
  "load_pending_writes s thread ns i =
     bind_io (unguarded (hgetall (writes_key thread ns i))) (\<lambda>h. ret (pending_of (sr_loads s) h))"

definition tuple_at :: "('v, 'b) saver \<Rightarrow> pystr \<Rightarrow> pystr \<Rightarrow> pystr \<Rightarrow> ('b saver_db conn, 'v checkpoint_tuple option) io" where
  "tuple_at s thread ns i =
     bind_io (unguarded (get_entry (checkpoint_key thread ns i))) (\<lambda>raw. case raw of None \<Rightarrow> ret None
       | Some e \<Rightarrow> bind_io (load_pending_writes s thread ns i) (\<lambda>ws. ret (Some
           \<lparr>ct_config = config_at thread ns i, ct_checkpoint = sr_loads s (ce_checkpoint e),
            ct_metadata = sr_loads s (ce_metadata e), ct_pending = ws,
            ct_parent = (case ce_parent e of None \<Rightarrow> None
              | Some p \<Rightarrow> if p = [] then None else Some (config_at thread ns p))\<rparr>)))"

definition aget_tuple :: "('v, 'b) saver \<Rightarrow> config \<Rightarrow> ('b saver_db conn, 'v checkpoint_tuple option) io" where
  "aget_tuple s c = (case cf_id c of
     Some i \<Rightarrow> tuple_at s (cf_thread c) (ns_of c) i
   | None \<Rightarrow> bind_io (latest_checkpoint_id (cf_thread c) (ns_of c)) (\<lambda>l. case l of
       None \<Rightarrow> ret None | Some i \<Rightarrow> tuple_at s (cf_thread c) (ns_of c) i))"

text \<open>\<open>alist\<close>, as the list of all it yields; \<open>matches\<close> is the metadata filter.\<close>

definition lrange_all :: "pystr \<Rightarrow> ('b saver_db, pystr list) stmt" where
  "lrange_all k db = (Inr (sv_orders db k), db)"

primrec list_loop :: "('v, 'b) saver \<Rightarrow> pystr \<Rightarrow> pystr \<Rightarrow> ('v \<Rightarrow> bool) \<Rightarrow> pystr option \<Rightarrow> int option \<Rightarrow> int
    \<Rightarrow> pystr list \<Rightarrow> ('b saver_db conn, 'v checkpoint_tuple list) io" where
  "list_loop s thread ns matches before limit count [] = ret []"
| "list_loop s thread ns matches before limit count (i # is) =
     (if (case before of None \<Rightarrow> False | Some b \<Rightarrow> b \<noteq> [] \<and> b \<le> i)
      then list_loop s thread ns matches before limit count is
      else bind_io (aget_tuple s (config_at thread ns i)) (\<lambda>t. case t of
         None \<Rightarrow> list_loop s thread ns matches before limit count is
       | Some x \<Rightarrow>
           if \<not> matches (ct_metadata x) then list_loop s thread ns matches before limit count is
           else if (case limit of None \<Rightarrow> False | Some n \<Rightarrow> n \<le> count + 1) then ret [x]
           else bind_io (list_loop s thread ns matches before limit (count + 1) is) (\<lambda>xs. ret (x # xs))))"

definition alist :: "('v, 'b) saver \<Rightarrow> config option \<Rightarrow> ('v \<Rightarrow> bool) \<Rightarrow> config option \<Rightarrow> int option
    \<Rightarrow> ('b saver_db conn, 'v checkpoint_tuple list) io" where
  "alist s c matches before limit = (case c of None \<Rightarrow> ret []
     | Some cfg \<Rightarrow> bind_io (unguarded (lrange_all (order_key (cf_thread cfg) (ns_of cfg)))) (\<lambda>ids.
         list_loop s (cf_thread cfg) (ns_of cfg) matches (case before of None \<Rightarrow> None | Some b \<Rightarrow> cf_id b) limit 0 (rev ids)))"

subsection \<open>Writing\<close>

definition set_entry :: "pystr \<Rightarrow> 'b cp_entry \<Rightarrow> ('b saver_db, unit) stmt" where
  "set_entry k e db = (Inr (), db\<lparr>sv_entries := (sv_entries db)(k \<mapsto> e)\<rparr>)"

definition rpush :: "pystr \<Rightarrow> pystr \<Rightarrow> ('b saver_db, unit) stmt" where
  "rpush k i db = (Inr (), db\<lparr>sv_orders := (sv_orders db)(k := sv_orders db k @ [i])\<rparr>)"

definition aput :: "('v, 'b) saver \<Rightarrow> config \<Rightarrow> 'v \<Rightarrow> 'v \<Rightarrow> ('b saver_db conn, config) io" where
  "aput s c checkpoint metadata = (case cf_ns c of None \<Rightarrow> raise (KeyError (lit ''checkpoint_ns''))
     | Some ns \<Rightarrow>
       (let i = sr_id s checkpoint;
            e = \<lparr>ce_checkpoint = sr_dumps s checkpoint, ce_metadata = sr_dumps s (sr_meta s c metadata), ce_parent = cf_id c\<rparr>
        in then_io (unguarded (set_entry (checkpoint_key (cf_thread c) ns i) e))
             (then_io (unguarded (rpush (order_key (cf_thread c) ns) i)) (ret (config_at (cf_thread c) ns i)))))"

definition hkeys :: "pystr \<Rightarrow> ('b saver_db, pystr list) stmt" where
  "hkeys k db = (Inr (map fst (sv_writes db k)), db)"

definition hset :: "pystr \<Rightarrow> (pystr \<times> 'b write_entry) list \<Rightarrow> ('b saver_db, unit) stmt" where
  "hset k m db = (Inr (), db\<lparr>sv_writes := (sv_writes db)(k := foldl (\<lambda>h (f, e). AList.update f e h) (sv_writes db k) m)\<rparr>)"

primrec to_set :: "('v, 'b) saver \<Rightarrow> pystr list \<Rightarrow> pystr \<Rightarrow> pystr \<Rightarrow> int \<Rightarrow> (pystr \<times> 'v) list \<Rightarrow> (pystr \<times> 'b write_entry) list" where
  "to_set s existing task path k [] = []"
| "to_set s existing task path k (w # ws) =
     (let n = (case sr_index s (fst w) of None \<Rightarrow> k | Some n \<Rightarrow> n); f = write_field task n;
          rest = to_set s existing task path (k + 1) ws
      in if 0 \<le> n \<and> f \<in> set existing then rest
         else (f, \<lparr>we_task = task, we_channel = fst w, we_value = sr_dumps s (snd w), we_path = path\<rparr>) # rest)"

definition aput_writes :: "('v, 'b) saver \<Rightarrow> config \<Rightarrow> (pystr \<times> 'v) list \<Rightarrow> pystr \<Rightarrow> pystr \<Rightarrow> ('b saver_db conn, unit) io" where
  "aput_writes s c ws task path = (case cf_id c of None \<Rightarrow> raise (KeyError (lit ''checkpoint_id''))
     | Some i \<Rightarrow> (let key = writes_key (cf_thread c) (ns_of c) i in
         bind_io (unguarded (hkeys key)) (\<lambda>existing.
           let m = to_set s existing task path 0 ws in if m = [] then ret () else unguarded (hset key m))))"

text \<open>\<open>DEL\<close> of the keys with \<open>p\<close>.\<close>

definition delete_matching :: "(pystr \<Rightarrow> bool) \<Rightarrow> ('b saver_db, unit) stmt" where
  "delete_matching p db = (Inr (),
     \<lparr>sv_entries = (\<lambda>k. if p k then None else sv_entries db k), sv_orders = (\<lambda>k. if p k then [] else sv_orders db k),
      sv_writes = (\<lambda>k. if p k then [] else sv_writes db k)\<rparr>)"

definition thread_pattern :: "pystr \<Rightarrow> pystr" where
  "thread_pattern thread = PREFIX @ lit '':*:'' @ thread @ lit '':*''"

text \<open>\<open>scan\<close> is Redis's: a pattern, a cursor and the data give the next cursor and some keys. The loop goes on until
  the cursor is 0, for ever if it never is: then its value is \<open>None\<close>.\<close>

type_synonym 'b scan = "pystr \<Rightarrow> nat \<Rightarrow> 'b saver_db \<Rightarrow> nat \<times> pystr list"

definition scan_stmt :: "'b scan \<Rightarrow> pystr \<Rightarrow> nat \<Rightarrow> ('b saver_db, nat \<times> pystr list) stmt" where
  "scan_stmt scan pat cursor db = (Inr (scan pat cursor db), db)"

definition delete_page :: "pystr list \<Rightarrow> ('b saver_db conn, unit) io" where
  "delete_page ks = (if ks = [] then ret () else unguarded (delete_matching (\<lambda>k. k \<in> set ks)))"

partial_function (option) delete_loop :: "'b scan \<Rightarrow> pystr \<Rightarrow> nat \<Rightarrow> 'b saver_db conn
    \<Rightarrow> ((exn + unit) \<times> 'b saver_db conn) option" where
  "delete_loop scan pat cursor w =
     (case unguarded (scan_stmt scan pat cursor) w of
        (Inl e, w1) \<Rightarrow> Some (Inl e, w1)
      | (Inr (next_cursor, ks), w1) \<Rightarrow>
          (case delete_page ks w1 of
             (Inl e, w2) \<Rightarrow> Some (Inl e, w2)
           | (Inr _, w2) \<Rightarrow> if next_cursor = 0 then Some (Inr (), w2) else delete_loop scan pat next_cursor w2))"

declare delete_loop.simps [code]

definition adelete_thread :: "'b scan \<Rightarrow> pystr \<Rightarrow> 'b saver_db conn \<Rightarrow> ((exn + unit) \<times> 'b saver_db conn) option" where
  "adelete_thread scan thread w = delete_loop scan (thread_pattern thread) 0 w"

subsection \<open>Checkpoints are visible whole\<close>

text \<open>Every identifier an order list holds has its entry.\<close>

definition whole :: "'b saver_db \<Rightarrow> bool" where
  "whole db \<longleftrightarrow> (\<forall>thread ns i. i \<in> set (sv_orders db (order_key thread ns)) \<longrightarrow>
     sv_entries db (checkpoint_key thread ns i) \<noteq> None)"

lemma un_db:
  assumes "unguarded stmt c = (r, c')"
  shows "conn_db c' = conn_db c \<or> conn_db c' = snd (stmt (conn_db c))"
    and "r = Inr a \<Longrightarrow> stmt (conn_db c) = (Inr a, conn_db c')"
  using unguarded_once [OF assms] by auto

lemma order_key_inj:
  "order_key t n = order_key t' n' \<Longrightarrow> checkpoint_key t n i = checkpoint_key t' n' i"
  by (simp add: order_key_def checkpoint_key_def)

text \<open>A read that returns has seen the database as it is and left it alone.\<close>

lemma read_Inr:
  assumes "unguarded stmt c = (Inr a, c')" "\<And>db. snd (stmt db) = db"
  shows "conn_db c' = conn_db c" "stmt (conn_db c) = (Inr a, conn_db c)"
  using un_db [OF assms(1)] assms(2) by (auto dest: arg_cong [of _ _ snd])

lemma reads_keep: "snd (lindex_last k db) = db" "snd (get_entry k db) = db" "snd (hgetall k db) = db"
  "snd (hkeys k db) = db" "snd (lrange_all k db) = db"
  by (simp_all add: lindex_last_def get_entry_def hgetall_def hkeys_def lrange_all_def)

lemma aput_effect:
  assumes "aput s c cp m w = (r, w')" "cf_ns c = Some ns"
  defines "i \<equiv> sr_id s cp"
    and "e \<equiv> \<lparr>ce_checkpoint = sr_dumps s cp, ce_metadata = sr_dumps s (sr_meta s c m), ce_parent = cf_id c\<rparr>"
  shows "conn_db w' = conn_db w \<or> conn_db w' = snd (set_entry (checkpoint_key (cf_thread c) ns i) e (conn_db w)) \<or>
      conn_db w' = snd (rpush (order_key (cf_thread c) ns) i (snd (set_entry (checkpoint_key (cf_thread c) ns i) e (conn_db w))))"
    and "r = Inr c' \<Longrightarrow> c' = config_at (cf_thread c) ns i \<and>
      conn_db w' = snd (rpush (order_key (cf_thread c) ns) i (snd (set_entry (checkpoint_key (cf_thread c) ns i) e (conn_db w))))"
proof -
  let ?se = "set_entry (checkpoint_key (cf_thread c) ns i) e" and ?rp = "rpush (order_key (cf_thread c) ns) i"
  obtain q w1 where q: "unguarded ?se w = (q, w1)" by (metis surj_pair)
  obtain q2 w2 where q2: "unguarded ?rp w1 = (q2, w2)" by (metis surj_pair)
  have run: "(case q of Inl x \<Rightarrow> (Inl x, w1) | Inr _ \<Rightarrow> (case q2 of Inl x \<Rightarrow> (Inl x, w2)
      | Inr _ \<Rightarrow> (Inr (config_at (cf_thread c) ns i), w2))) = (r, w')"
    using assms(1,2) q q2 by (auto simp: aput_def Let_def then_io_def bind_io_def ret_def i_def e_def split: sum.split)
  have q1: "q = Inr u \<Longrightarrow> conn_db w1 = snd (?se (conn_db w))" for u
    using un_db(2) [OF q, of u] by auto
  show "conn_db w' = conn_db w \<or> conn_db w' = snd (?se (conn_db w)) \<or> conn_db w' = snd (?rp (snd (?se (conn_db w))))"
    using run un_db(1) [OF q] un_db(1) [OF q2] q1 by (auto split: sum.splits)
  show "c' = config_at (cf_thread c) ns i \<and> conn_db w' = snd (?rp (snd (?se (conn_db w))))" if "r = Inr c'"
    using run that un_db(2) [OF q2, of "()"] q1 by (auto split: sum.splits)
qed

lemma whole_set_entry: "whole db \<Longrightarrow> whole (snd (set_entry k e db))"
  by (auto simp: whole_def set_entry_def)

lemma whole_rpush:
  "whole db \<Longrightarrow> sv_entries db (checkpoint_key t n i) \<noteq> None \<Longrightarrow> whole (snd (rpush (order_key t n) i db))"
  by (auto simp: whole_def rpush_def dest: order_key_inj) (metis order_key_inj option.simps(3))

lemma entry_set [simp]: "sv_entries (snd (set_entry k e db)) k = Some e"
  by (simp add: set_entry_def)

text \<open>What a read of the latest checkpoint returns, as a function of the database.\<close>

definition tuple_in :: "('v, 'b) saver \<Rightarrow> 'b saver_db \<Rightarrow> pystr \<Rightarrow> pystr \<Rightarrow> pystr \<Rightarrow> 'v checkpoint_tuple option" where
  "tuple_in s db thread ns i = map_option (\<lambda>e.
     \<lparr>ct_config = config_at thread ns i, ct_checkpoint = sr_loads s (ce_checkpoint e),
      ct_metadata = sr_loads s (ce_metadata e), ct_pending = pending_of (sr_loads s) (sv_writes db (writes_key thread ns i)),
      ct_parent = (case ce_parent e of None \<Rightarrow> None | Some p \<Rightarrow> if p = [] then None else Some (config_at thread ns p))\<rparr>)
     (sv_entries db (checkpoint_key thread ns i))"

lemma tuple_at_Inr:
  assumes "tuple_at s thread ns i w = (Inr t, w')"
  shows "conn_db w' = conn_db w \<and> t = tuple_in s (conn_db w) thread ns i"
proof -
  obtain e w1 where e: "unguarded (get_entry (checkpoint_key thread ns i)) w = (Inr e, w1)"
      and rest: "(case e of None \<Rightarrow> ret None | Some e \<Rightarrow> bind_io (load_pending_writes s thread ns i) (\<lambda>ws. ret (Some
           \<lparr>ct_config = config_at thread ns i, ct_checkpoint = sr_loads s (ce_checkpoint e),
            ct_metadata = sr_loads s (ce_metadata e), ct_pending = ws,
            ct_parent = (case ce_parent e of None \<Rightarrow> None
              | Some p \<Rightarrow> if p = [] then None else Some (config_at thread ns p))\<rparr>))) w1 = (Inr t, w')"
    using assms by (auto simp: tuple_at_def bind_io_Inr_iff)
  note db1 = read_Inr [OF e reads_keep(2)]
  show ?thesis
  proof (cases e)
    case None
    then show ?thesis using rest db1 by (simp add: ret_def tuple_in_def get_entry_def)
  next
    case (Some x)
    then obtain h where h: "unguarded (hgetall (writes_key thread ns i)) w1 = (Inr h, w')"
        and t: "t = Some \<lparr>ct_config = config_at thread ns i, ct_checkpoint = sr_loads s (ce_checkpoint x),
            ct_metadata = sr_loads s (ce_metadata x), ct_pending = pending_of (sr_loads s) h,
            ct_parent = (case ce_parent x of None \<Rightarrow> None
              | Some p \<Rightarrow> if p = [] then None else Some (config_at thread ns p))\<rparr>"
      using rest by (auto simp: load_pending_writes_def bind_io_Inr_iff ret_def)
    show ?thesis using read_Inr [OF h reads_keep(3)] db1 Some t by (simp add: tuple_in_def get_entry_def hgetall_def)
  qed
qed

lemma aget_latest_Inr:
  assumes "aget_tuple s c w = (Inr t, w')" "cf_id c = None"
  defines "ids \<equiv> sv_orders (conn_db w) (order_key (cf_thread c) (ns_of c))"
  shows "conn_db w' = conn_db w \<and>
    t = (if ids = [] \<or> last ids = [] then None else tuple_in s (conn_db w) (cf_thread c) (ns_of c) (last ids))"
proof -
  obtain l w1 where l: "unguarded (lindex_last (order_key (cf_thread c) (ns_of c))) w = (Inr l, w1)"
      and rest: "(case (case l of None \<Rightarrow> None | Some i \<Rightarrow> if i = [] then None else Some i) of
       None \<Rightarrow> ret None | Some i \<Rightarrow> tuple_at s (cf_thread c) (ns_of c) i) w1 = (Inr t, w')"
    using assms(1,2) by (auto simp: aget_tuple_def latest_checkpoint_id_def bind_io_Inr_iff ret_def)
  note db1 = read_Inr [OF l reads_keep(1)]
  have "l = (if ids = [] then None else Some (last ids))" using db1 by (auto simp: lindex_last_def ids_def)
  then show ?thesis using rest db1 tuple_at_Inr [of s "cf_thread c" "ns_of c" _ w1 t w']
    by (auto simp: ret_def split: if_splits)
qed

subsection \<open>Sequences of calls\<close>

datatype 'v saver_call = Put config 'v 'v | PutWrites config "(pystr \<times> 'v) list" pystr pystr | Get config

fun saver_do :: "('v, 'b) saver \<Rightarrow> 'v saver_call \<Rightarrow> 'b saver_db conn \<Rightarrow> 'b saver_db conn" where
  "saver_do s (Put c cp m) w = snd (aput s c cp m w)"
| "saver_do s (PutWrites c ws task path) w = snd (aput_writes s c ws task path w)"
| "saver_do s (Get c) w = snd (aget_tuple s c w)"

text \<open>Calls that only read.\<close>

lemma frame_read: "(\<And>db. snd (stmt db) = db) \<Longrightarrow> frame conn_db (unguarded stmt)"
  unfolding frame_def
proof
  fix w assume "\<And>db. snd (stmt db) = db"
  then show "conn_db (snd (unguarded stmt w)) = conn_db w"
    using un_db(1) [of stmt w "fst (unguarded stmt w)" "snd (unguarded stmt w)"] by simp
qed

lemmas frame_reads = frame_bind frame_ret frame_read reads_keep

lemma frame_tuple_at: "frame conn_db (tuple_at s thread ns i)"
  unfolding tuple_at_def load_pending_writes_def by (auto intro!: frame_reads split: option.split)

lemma frame_aget: "frame conn_db (aget_tuple s c)"
  unfolding aget_tuple_def latest_checkpoint_id_def
  by (auto intro!: frame_reads frame_tuple_at split: option.split)

lemma hset_Nil: "snd (hset k [] db) = db"
  by (simp add: hset_def)

lemma writes_effect:
  assumes run: "aput_writes s c ws task path w = (r, w')" and i: "cf_id c = Some i"
  defines "db' \<equiv> snd (hset (writes_key (cf_thread c) (ns_of c) i)
     (to_set s (map fst (sv_writes (conn_db w) (writes_key (cf_thread c) (ns_of c) i))) task path 0 ws) (conn_db w))"
  shows "conn_db w' = conn_db w \<or> conn_db w' = db'" and "r = Inr () \<Longrightarrow> conn_db w' = db'"
proof -
  let ?k = "writes_key (cf_thread c) (ns_of c) i"
  obtain q w1 where q: "unguarded (hkeys ?k) w = (q, w1)" by (metis surj_pair)
  have "(conn_db w' = conn_db w \<or> conn_db w' = db') \<and> (r = Inr () \<longrightarrow> conn_db w' = db')"
  proof (cases q)
    case (Inl e)
    then show ?thesis using run i q frameD [OF frame_read [of "hkeys ?k"] q] by (auto simp: aput_writes_def bind_io_def Let_def reads_keep)
  next
    case (Inr ex)
    note db1 = read_Inr [OF q [unfolded Inr] reads_keep(4)]
    then have ex: "ex = map fst (sv_writes (conn_db w) ?k)" by (simp add: hkeys_def)
    obtain r2 w2 where h: "unguarded (hset ?k (to_set s ex task path 0 ws)) w1 = (r2, w2)" by (metis surj_pair)
    have run': "(r, w') = (if to_set s ex task path 0 ws = [] then (Inr (), w1) else (r2, w2))"
      using run i q Inr h by (auto simp: aput_writes_def bind_io_def Let_def ret_def split: if_splits)
    have "r2 = Inr () \<longrightarrow> conn_db w2 = db'" "conn_db w2 = conn_db w \<or> conn_db w2 = db'"
      using un_db [OF h] db1 ex unfolding db'_def by (metis snd_conv)+
    then show ?thesis using run' db1(1) ex by (auto simp: db'_def hset_Nil split: if_splits)
  qed
  then show "conn_db w' = conn_db w \<or> conn_db w' = db'" "r = Inr () \<Longrightarrow> conn_db w' = db'" by auto
qed

lemma whole_step: "whole (conn_db w) \<Longrightarrow> whole (conn_db (saver_do s call w))"
proof (cases call)
  case (Put c cp m)
  assume ok: "whole (conn_db w)"
  show ?thesis
  proof (cases "cf_ns c")
    case None
    then show ?thesis using ok Put by (simp add: aput_def raise_def)
  next
    case (Some ns)
    obtain r w' where run: "aput s c cp m w = (r, w')" by (metis surj_pair)
    show ?thesis using aput_effect(1) [OF run Some] ok Put run
      by (auto intro!: whole_set_entry whole_rpush)
  qed
next
  case (PutWrites c ws task path)
  assume "whole (conn_db w)"
  moreover obtain r w' where run: "aput_writes s c ws task path w = (r, w')" by (metis surj_pair)
  ultimately show ?thesis using writes_effect(1) [OF run] PutWrites run
    by (cases "cf_id c") (auto simp: whole_def hset_def aput_writes_def raise_def)
next
  case (Get c)
  moreover assume "whole (conn_db w)"
  moreover have "conn_db (snd (aget_tuple s c w)) = conn_db w" using frame_aget [of s c] unfolding frame_def by blast
  ultimately show ?thesis by simp
qed

lemma whole_calls: "whole (conn_db w) \<Longrightarrow> whole (conn_db (fold (saver_do s) calls w))"
  by (induction calls arbitrary: w) (simp_all add: whole_step)

subsection \<open>Pending writes\<close>

lemma undec_int_dec_int: "undec_int (dec_int n) = n"
proof (cases "n < 0")
  case False
  obtain c t where ct: "dec_nat (nat n) = c # t" by (cases "dec_nat (nat n)") auto
  then have "c \<noteq> 45" using dec_nat_digits [of c "nat n"] by auto
  then have "undec_int (dec_nat (nat n)) = int (undec (dec_nat (nat n)))"
    unfolding undec_int_def ct by (simp del: undec.simps)
  then show ?thesis using False by (simp add: dec_int_def undec_dec_nat del: undec.simps)
qed (simp add: dec_int_def undec_int_def undec_dec_nat del: undec.simps)

lemma field_index_write_field [simp]: "field_index (write_field task n) = n"
proof -
  have "c \<noteq> FIELD_SEP" if "c \<in> set (rev (dec_int n))" for c
    using that dec_nat_digits [of c] by (auto simp: dec_int_def FIELD_SEP_def split: if_splits)
  then have "takeWhile (\<lambda>c. c \<noteq> FIELD_SEP) (rev (dec_int n) @ FIELD_SEP # rev task) = rev (dec_int n)"
    by (subst takeWhile_append2) simp_all
  then show ?thesis by (simp add: field_index_def write_field_def undec_int_dec_int)
qed

lemma map_of_updates:
  "f \<notin> fst ` set m \<Longrightarrow> map_of (foldl (\<lambda>h (f, e). AList.update f e h) h m) f = map_of h f"
  by (induction m arbitrary: h) (auto simp: update_conv')

lemma dom_updates:
  "fst ` set (foldl (\<lambda>h (f, e). AList.update f e h) h m) = fst ` set h \<union> fst ` set m"
  by (induction m arbitrary: h) (simp_all add: dom_update split_beta Un_ac)

lemma to_set_fresh:
  "f \<in> fst ` set (to_set s ex task path k ws) \<Longrightarrow> f \<in> set ex \<Longrightarrow> field_index f < 0"
  by (induction ws arbitrary: k) (auto simp: Let_def split: if_splits)

definition write_index :: "('v, 'b) saver \<Rightarrow> (pystr \<times> 'v) list \<Rightarrow> nat \<Rightarrow> int" where
  "write_index s ws j = (case sr_index s (fst (ws ! j)) of None \<Rightarrow> int j | Some n \<Rightarrow> n)"

lemma to_set_covers:
  assumes "j < length ws"
  shows "write_field task (case sr_index s (fst (ws ! j)) of None \<Rightarrow> k + int j | Some n \<Rightarrow> n)
    \<in> set ex \<union> fst ` set (to_set s ex task path k ws)"
  using assms
proof (induction ws arbitrary: j k)
  case (Cons w ws)
  show ?case
  proof (cases j)
    case 0
    then show ?thesis by (cases "sr_index s (fst w)") (auto simp: Let_def)
  next
    case (Suc i)
    have eq: "k + 1 + int i = k + int j" using Suc by simp
    have "write_field task (case sr_index s (fst ((w # ws) ! j)) of None \<Rightarrow> k + int j | Some n \<Rightarrow> n)
        \<in> set ex \<union> fst ` set (to_set s ex task path (k + 1) ws)"
      using Cons.IH [of i "k + 1", unfolded eq] Cons.prems Suc by simp
    then show ?thesis by (auto simp: Let_def)
  qed
qed simp

text \<open>C21. Regular pending writes are write-once: under any connection faults, storing a task's writes leaves
  every regular write already stored as it was, and when it returns each of the task's writes has its
  field. A replayed task therefore cannot replace what its first run stored.\<close>

theorem pending_writes_once:
  assumes "aput_writes s c ws task path w = (r, w')" "cf_id c = Some i"
  shows "let before = sv_writes (conn_db w) (writes_key (cf_thread c) (ns_of c) i);
             after = sv_writes (conn_db w') (writes_key (cf_thread c) (ns_of c) i)
    in (\<forall>f e. map_of before f = Some e \<and> 0 \<le> field_index f \<longrightarrow> map_of after f = Some e) \<and>
       (r = Inr () \<longrightarrow> (\<forall>j < length ws. write_field task (write_index s ws j) \<in> fst ` set after))"
proof -
  let ?k = "writes_key (cf_thread c) (ns_of c) i"
  let ?h = "sv_writes (conn_db w) ?k"
  let ?m = "to_set s (map fst ?h) task path 0 ws"
  note eff = writes_effect [OF assms]
  have after: "sv_writes (snd (hset ?k ?m (conn_db w))) ?k = foldl (\<lambda>h (f, e). AList.update f e h) ?h ?m"
    by (simp add: hset_def)
  have keep: "map_of (foldl (\<lambda>h (f, e). AList.update f e h) ?h ?m) f = Some e"
    if "map_of ?h f = Some e" "0 \<le> field_index f" for f e
  proof -
    have "f \<in> set (map fst ?h)" using map_of_SomeD [OF that(1)] by force
    then have "f \<notin> fst ` set ?m" using to_set_fresh [of f s "map fst ?h" task path 0 ws] that(2) by fastforce
    then show ?thesis using that(1) by (simp add: map_of_updates)
  qed
  have "write_field task (write_index s ws j) \<in> fst ` set (foldl (\<lambda>h (f, e). AList.update f e h) ?h ?m)"
    if "j < length ws" for j
    using to_set_covers [OF that, where task = task and s = s and k = 0 and ex = "map fst ?h" and path = path] by (auto simp: dom_updates write_index_def split: option.splits)
  then show ?thesis unfolding Let_def using eff keep after by metis
qed


text \<open>C19. A checkpoint that was stored is the one the next run resumes from: whatever the faults in between,
  reading the latest checkpoint after a put that returned gives back the checkpoint, its metadata and
  parent, and the writes pending under its identifier, when the serializer loads what it dumps.\<close>

theorem checkpoint_roundtrip:
  assumes serde: "sr_loads s \<circ> sr_dumps s = id" and ident: "sr_id s cp \<noteq> []"
    and put: "aput s c cp m w = (Inr c', w1)"
    and get: "aget_tuple s (c\<lparr>cf_id := None\<rparr>) w1 = (Inr t, w2)"
  shows "t = Some \<lparr>ct_config = c', ct_checkpoint = cp, ct_metadata = sr_meta s c m,
     ct_pending = pending_of (sr_loads s) (sv_writes (conn_db w) (writes_key (cf_thread c) (ns_of c) (sr_id s cp))),
     ct_parent = (case cf_id c of None \<Rightarrow> None | Some p \<Rightarrow> if p = [] then None else Some (config_at (cf_thread c) (ns_of c) p))\<rparr>"
proof -
  have ld: "sr_loads s (sr_dumps s v) = v" for v using serde by (metis comp_apply id_apply)
  obtain ns where ns: "cf_ns c = Some ns"
    using put by (auto simp: aput_def raise_def split: option.splits)
  note eff = aput_effect(2) [OF put ns refl]
  have nsof: "ns_of (c\<lparr>cf_id := None\<rparr>) = ns" "ns_of c = ns" using ns by (simp_all add: ns_of_def)
  have c': "c' = config_at (cf_thread c) ns (sr_id s cp)" using eff by blast
  show ?thesis using aget_latest_Inr [OF get] eff ident unfolding c' nsof(2)
    by (simp add: nsof rpush_def set_entry_def tuple_in_def ld)
qed

subsection \<open>Deleting a thread\<close>

definition stored_key :: "'b saver_db \<Rightarrow> pystr \<Rightarrow> bool" where
  "stored_key db k \<longleftrightarrow> sv_entries db k \<noteq> None \<or> sv_orders db k \<noteq> [] \<or> sv_writes db k \<noteq> []"

definition same_key :: "'b saver_db \<Rightarrow> 'b saver_db \<Rightarrow> pystr \<Rightarrow> bool" where
  "same_key db db' k \<longleftrightarrow> sv_entries db' k = sv_entries db k \<and> sv_orders db' k = sv_orders db k \<and> sv_writes db' k = sv_writes db k"

text \<open>What Redis documents of \<open>SCAN\<close>, for a key space within \<open>K\<close>: it walks the buckets of its table in an order
  (\<open>rank\<close> of a cursor, \<open>pos\<close> of a key), a call returns matching keys only, and all of those between the cursor given
  and the one returned; after the last bucket the cursor is 0.\<close>

definition scan_law :: "(pystr \<Rightarrow> pystr \<Rightarrow> bool) \<Rightarrow> pystr set \<Rightarrow> 'b scan \<Rightarrow> bool" where
  "scan_law glob K scan \<longleftrightarrow> (\<exists>rank pos (final :: nat). rank 0 = (0::nat) \<and>
     (\<forall>pat c db c' ks. {k. stored_key db k} \<subseteq> K \<longrightarrow> scan pat c db = (c', ks) \<longrightarrow>
        (c' = 0 \<or> rank c < rank c' \<and> rank c' \<le> final) \<and> (\<forall>k \<in> set ks. glob pat k) \<and>
        (\<forall>k. stored_key db k \<and> glob pat k \<and> rank c \<le> pos k \<and> (c' = 0 \<or> pos k < rank c') \<longrightarrow> k \<in> set ks)))"

lemma delete_matching_key:
  "same_key db (snd (delete_matching p db)) k \<or> p k \<and> \<not> stored_key (snd (delete_matching p db)) k"
  "p k \<Longrightarrow> \<not> stored_key (snd (delete_matching p db)) k"
  by (simp_all add: delete_matching_def same_key_def stored_key_def)

lemma same_key_refl [simp]: "same_key db db k"
  by (simp add: same_key_def)

lemma same_key_stored: "same_key db db' k \<Longrightarrow> stored_key db' k = stored_key db k"
  by (simp add: same_key_def stored_key_def)

lemma same_key_trans: "same_key a b k \<Longrightarrow> same_key b c k \<Longrightarrow> same_key a c k"
  by (simp add: same_key_def)

lemma delete_page_effect:
  assumes del: "delete_page ks w = (r, w')"
  shows "\<forall>k. same_key (conn_db w) (conn_db w') k \<or> k \<in> set ks \<and> \<not> stored_key (conn_db w') k"
    and "r = Inr () \<Longrightarrow> \<forall>k \<in> set ks. \<not> stored_key (conn_db w') k"
proof -
  have "(w' = w \<and> ks = []) \<or> unguarded (delete_matching (\<lambda>k. k \<in> set ks)) w = (r, w')"
    using del by (simp add: delete_page_def ret_def split: if_splits)
  then have "conn_db w' = conn_db w \<or> conn_db w' = snd (delete_matching (\<lambda>k. k \<in> set ks) (conn_db w))"
    "r = Inr () \<Longrightarrow> ks = [] \<or> conn_db w' = snd (delete_matching (\<lambda>k. k \<in> set ks) (conn_db w))"
    using un_db [of "delete_matching (\<lambda>k. k \<in> set ks)" w r w'] by (metis snd_conv)+
  then show "\<forall>k. same_key (conn_db w) (conn_db w') k \<or> k \<in> set ks \<and> \<not> stored_key (conn_db w') k"
    and "r = Inr () \<Longrightarrow> \<forall>k \<in> set ks. \<not> stored_key (conn_db w') k"
    using delete_matching_key by (metis same_key_refl, metis empty_iff empty_set)
qed

text \<open>One page: what is left after it lies behind the next cursor.\<close>

lemma page_effect:
  fixes db :: "'b saver_db"
  assumes page: "\<And>k. stored_key db k \<Longrightarrow> glob pat k \<Longrightarrow> c' = 0 \<or> pos k < rank c' \<Longrightarrow> k \<in> set ks"
    and match: "\<forall>k \<in> set ks. glob pat k" and del: "delete_page ks w = (r, w')" and db: "conn_db w = db"
  shows "\<forall>k. same_key db (conn_db w') k \<or> glob pat k \<and> \<not> stored_key (conn_db w') k"
    and "stored_key (conn_db w') k \<Longrightarrow> stored_key db k"
    and "r = Inr () \<Longrightarrow> stored_key (conn_db w') k \<Longrightarrow> glob pat k \<Longrightarrow> c' \<noteq> 0 \<and> rank c' \<le> (pos k :: nat)"
proof -
  note gone = delete_page_effect [OF del, unfolded db]
  show eff: "\<forall>k. same_key db (conn_db w') k \<or> glob pat k \<and> \<not> stored_key (conn_db w') k"
    using gone(1) match by blast
  show less: "stored_key (conn_db w') k \<Longrightarrow> stored_key db k" for k
    using spec [OF eff, of k] same_key_stored by blast
  show "r = Inr () \<Longrightarrow> stored_key (conn_db w') k \<Longrightarrow> glob pat k \<Longrightarrow> c' \<noteq> 0 \<and> rank c' \<le> pos k"
    using gone(2) page [of k] less [of k] by (meson not_le)
qed

text \<open>The loop from a cursor: the keys before it are gone already.\<close>

lemma delete_loop_returns:
  fixes w :: "'b saver_db conn"
  assumes rank: "\<And>c db c' ks. {k. stored_key db k} \<subseteq> K \<Longrightarrow> scan pat c db = (c', ks) \<Longrightarrow>
        (c' = 0 \<or> rank c < rank c' \<and> rank c' \<le> (final::nat)) \<and> (\<forall>k \<in> set ks. glob pat k) \<and>
        (\<forall>k. stored_key db k \<and> glob pat k \<and> rank c \<le> pos k \<and> (c' = 0 \<or> pos k < rank c') \<longrightarrow> k \<in> set ks)"
    and "{k. stored_key (conn_db w) k} \<subseteq> K" "\<forall>k. stored_key (conn_db w) k \<and> glob pat k \<longrightarrow> rank c \<le> pos k"
  shows "\<exists>r w'. delete_loop scan pat c w = Some (r, w') \<and>
    (\<forall>k. same_key (conn_db w) (conn_db w') k \<or> glob pat k \<and> \<not> stored_key (conn_db w') k) \<and>
    (r = Inr () \<longrightarrow> (\<forall>k. glob pat k \<longrightarrow> \<not> stored_key (conn_db w') k))"
  using assms(2,3)
proof (induction "final - rank c" arbitrary: c w rule: less_induct)
  case less
  obtain r1 w1 where scan: "unguarded (scan_stmt scan pat c) w = (r1, w1)" by (metis surj_pair)
  have db1: "conn_db w1 = conn_db w" using un_db(1) [OF scan] by (auto simp: scan_stmt_def)
  show ?case
  proof (cases r1)
    case (Inl e)
    then show ?thesis by (subst delete_loop.simps) (simp add: scan db1)
  next
    case (Inr p)
    obtain c' ks where p: "p = (c', ks)" by (metis surj_pair)
    have found: "scan pat c (conn_db w) = (c', ks)" using un_db(2) [OF scan, of p] Inr by (auto simp: scan_stmt_def p)
    note law = rank [OF less.prems(1) found]
    obtain r2 w2 where del: "delete_page ks w1 = (r2, w2)" by (metis surj_pair)
    have "k \<in> set ks" if "stored_key (conn_db w) k" "glob pat k" "c' = 0 \<or> pos k < rank c'" for k
      using law less.prems(2) that by blast
    note page = page_effect [where pos = pos and rank = rank and glob = glob and pat = pat and c' = c',
        OF this conjunct1 [OF conjunct2 [OF law]] del db1]
    show ?thesis
    proof (cases "r2 = Inr () \<and> c' \<noteq> 0")
      case False
      then have "delete_loop scan pat c w = Some (r2, w2)"
        by (subst delete_loop.simps) (auto simp: scan Inr p del split: sum.split)
      then show ?thesis using page(1,3) False by (intro exI [of _ r2] exI [of _ w2]) blast
    next
      case True
      then have loop: "delete_loop scan pat c w = delete_loop scan pat c' w2"
        by (subst delete_loop.simps) (simp add: scan Inr p del)
      have "final - rank c' < final - rank c" using law True by auto
      moreover have "{k. stored_key (conn_db w2) k} \<subseteq> K" using less.prems(1) page(2) by blast
      moreover have "\<forall>k. stored_key (conn_db w2) k \<and> glob pat k \<longrightarrow> rank c' \<le> pos k" using page(3) True by blast
      ultimately obtain r w' where "delete_loop scan pat c' w2 = Some (r, w')"
        and rest: "\<forall>k. same_key (conn_db w2) (conn_db w') k \<or> glob pat k \<and> \<not> stored_key (conn_db w') k"
          "r = Inr () \<longrightarrow> (\<forall>k. glob pat k \<longrightarrow> \<not> stored_key (conn_db w') k)"
        using less.hyps [of c' w2] by blast
      moreover have "same_key (conn_db w) (conn_db w') k \<or> glob pat k \<and> \<not> stored_key (conn_db w') k" for k
        using spec [OF page(1), of k] spec [OF rest(1), of k] same_key_trans same_key_stored by blast
      ultimately show ?thesis unfolding loop by (intro exI [of _ r] exI [of _ w']) simp
    qed
  qed
qed

lemma adelete_result:
  assumes "scan_law glob {k. stored_key (conn_db w) k} scan"
  shows "\<exists>r w'. adelete_thread scan thread w = Some (r, w') \<and>
    (\<forall>k. same_key (conn_db w) (conn_db w') k \<or> glob (thread_pattern thread) k \<and> \<not> stored_key (conn_db w') k) \<and>
    (r = Inr () \<longrightarrow> (\<forall>k. glob (thread_pattern thread) k \<longrightarrow> \<not> stored_key (conn_db w') k))"
proof -
  let ?K = "{k. stored_key (conn_db w) k}"
  obtain rank pos and final :: nat where zero: "rank 0 = (0::nat)"
    and law: "\<And>pat c db c' ks. {k. stored_key db k} \<subseteq> ?K \<Longrightarrow> scan pat c db = (c', ks) \<Longrightarrow>
        (c' = 0 \<or> rank c < rank c' \<and> rank c' \<le> final) \<and> (\<forall>k \<in> set ks. glob pat k) \<and>
        (\<forall>k. stored_key db k \<and> glob pat k \<and> rank c \<le> pos k \<and> (c' = 0 \<or> pos k < rank c') \<longrightarrow> k \<in> set ks)"
    using assms unfolding scan_law_def by blast
  show ?thesis unfolding adelete_thread_def
    by (rule delete_loop_returns [where K = ?K and rank = rank and final = final and pos = pos, OF law]) (simp_all add: zero)
qed

lemma adelete_removes:
  assumes "scan_law glob {k. stored_key (conn_db w) k} scan" "adelete_thread scan thread w = Some (Inr (), w')"
    and "glob (thread_pattern thread) k"
  shows "\<not> stored_key (conn_db w') k"
  using adelete_result [OF assms(1), of thread] assms(2,3) by auto

text \<open>C22. Deleting a thread ends: when \<open>SCAN\<close> keeps what Redis documents of it, the loop returns, under any
  faults; it changes no key outside the pattern, and when it returns without an exception no key of the pattern
  is left.\<close>

theorem adelete_thread_returns:
  assumes "scan_law glob {k. stored_key (conn_db w) k} scan"
  shows "\<exists>r w'. adelete_thread scan thread w = Some (r, w') \<and>
    (\<forall>k. same_key (conn_db w) (conn_db w') k \<or> glob (thread_pattern thread) k \<and> \<not> stored_key (conn_db w') k) \<and>
    (r = Inr () \<longrightarrow> (\<forall>k. glob (thread_pattern thread) k \<longrightarrow> \<not> stored_key (conn_db w') k))"
  using assms by (rule adelete_result)

text \<open>Deleting a thread deletes others: the pattern of \<open>adelete_thread\<close> begins with a star before the
  thread identifier, so it also matches the keys of every thread whose identifier ends in a colon and
  this one; \<open>star\<close> is what Redis documents of \<open>*\<close>.\<close>

theorem delete_takes_other_threads:
  assumes scan: "scan_law glob {k. stored_key (conn_db w) k} scan"
    and star: "\<forall>x y. glob (thread_pattern thread) (PREFIX @ lit '':'' @ x @ lit '':'' @ thread @ lit '':'' @ y)"
    and del: "adelete_thread scan thread w = Some (Inr (), w')"
  shows "sv_entries (conn_db w') (checkpoint_key (other @ lit '':'' @ thread) ns i) = None"
proof -
  have "checkpoint_key (other @ lit '':'' @ thread) ns i =
      PREFIX @ lit '':'' @ (lit ''cp:'' @ other) @ lit '':'' @ thread @ lit '':'' @ (ns @ lit '':'' @ i)"
    by (simp add: checkpoint_key_def lit_def)
  then have "glob (thread_pattern thread) (checkpoint_key (other @ lit '':'' @ thread) ns i)" using star by metis
  with adelete_removes [OF scan del] show ?thesis by (simp add: stored_key_def)
qed

subsection \<open>A concrete run\<close>

definition sample_saver :: "(pystr, pystr) saver" where
  "sample_saver = \<lparr>sr_dumps = id, sr_loads = id, sr_id = id, sr_meta = (\<lambda>c m. m), sr_index = (\<lambda>_. None)\<rparr>"

definition sample_saver_db :: "pystr saver_db conn" where
  "sample_saver_db = (None, \<lparr>clock = 0, slept = [], dep = \<lparr>script = [],
     store = \<lparr>sv_entries = (\<lambda>_. None), sv_orders = (\<lambda>_. []), sv_writes = (\<lambda>_. [])\<rparr>\<rparr>\<rparr>)"

definition sample_config :: "pystr option \<Rightarrow> config" where
  "sample_config i = \<lparr>cf_thread = lit ''review:1'', cf_ns = Some [], cf_id = i\<rparr>"

lemmas saver_eval = sample_saver_def sample_saver_db_def sample_config_def aput_def aput_writes_def aget_tuple_def
  latest_checkpoint_id_def tuple_at_def load_pending_writes_def pending_of_def ns_of_def config_at_def
  unguarded_def await_op_def remote_op_def lindex_last_def get_entry_def hgetall_def hkeys_def hset_def
  set_entry_def rpush_def Let_def io_simps


theorem checkpoint_roundtrip_witness:
  "fst (aget_tuple sample_saver (sample_config None) (snd (aput sample_saver (sample_config (Some [7])) [3] [2] sample_saver_db)))
    = Inr (Some \<lparr>ct_config = config_at (lit ''review:1'') [] [3], ct_checkpoint = [3], ct_metadata = [2], ct_pending = [],
        ct_parent = Some (config_at (lit ''review:1'') [] [7])\<rparr>)"
proof -
  have put: "aput sample_saver (sample_config (Some [7])) [3] [2] sample_saver_db =
      (Inr (config_at (lit ''review:1'') [] [3]), snd (aput sample_saver (sample_config (Some [7])) [3] [2] sample_saver_db))"
    by (simp add: saver_eval)
  obtain t w2 where get: "aget_tuple sample_saver (sample_config (Some [7])\<lparr>cf_id := None\<rparr>)
      (snd (aput sample_saver (sample_config (Some [7])) [3] [2] sample_saver_db)) = (Inr t, w2)"
    by (simp add: saver_eval)
  have "sr_loads sample_saver \<circ> sr_dumps sample_saver = id" "sr_id sample_saver [3] \<noteq> []"
    by (simp_all add: sample_saver_def)
  from checkpoint_roundtrip [OF this put get] show ?thesis using get
    by (simp add: sample_config_def sample_saver_def sample_saver_db_def ns_of_def pending_of_def)
qed

theorem pending_writes_once_witness:
  "let w1 = snd (aput_writes sample_saver (sample_config (Some [3])) [(lit ''a'', [5])] (lit ''t'') [] sample_saver_db);
       w2 = snd (aput_writes sample_saver (sample_config (Some [3])) [(lit ''a'', [6])] (lit ''t'') [] w1);
       k = writes_key (lit ''review:1'') [] [3]
    in map_of (sv_writes (conn_db w2) k) (write_field (lit ''t'') 0) = map_of (sv_writes (conn_db w1) k) (write_field (lit ''t'') 0) \<and>
       map_of (sv_writes (conn_db w1) k) (write_field (lit ''t'') 0) \<noteq> None"
proof -
  let ?c = "sample_config (Some [3])" and ?f = "write_field (lit ''t'') 0"
  define w1 where "w1 = snd (aput_writes sample_saver ?c [(lit ''a'', [5])] (lit ''t'') [] sample_saver_db)"
  obtain r w2 where w2: "aput_writes sample_saver ?c [(lit ''a'', [6])] (lit ''t'') [] w1 = (r, w2)" by (metis surj_pair)
  have i: "cf_id ?c = Some [3]" and k: "cf_thread ?c = lit ''review:1''" "ns_of ?c = []"
    by (simp_all add: sample_config_def ns_of_def)
  have "\<exists>e. map_of (sv_writes (conn_db w1) (writes_key (lit ''review:1'') [] [3])) ?f = Some e"
    by (simp add: w1_def saver_eval)
  then obtain e where e: "map_of (sv_writes (conn_db w1) (writes_key (lit ''review:1'') [] [3])) ?f = Some e" by blast
  then show ?thesis using pending_writes_once [OF w2 i] w2 unfolding k Let_def w1_def by auto
qed

text \<open>A matcher for patterns whose only special character is the star.\<close>

fun star_glob :: "pystr \<Rightarrow> pystr \<Rightarrow> bool" where
  "star_glob [] s \<longleftrightarrow> s = []"
| "star_glob (c # p) [] \<longleftrightarrow> c = 42 \<and> star_glob p []"
| "star_glob (c # p) (d # s) \<longleftrightarrow> (if c = 42 then star_glob p (d # s) \<or> star_glob (c # p) s else c = d \<and> star_glob p s)"

lemma star_glob_star: "star_glob p s \<Longrightarrow> star_glob (42 # p) (x @ s)"
proof (induction x)
  case Nil
  then show ?case by (cases s) simp_all
qed simp

lemma star_glob_lit: "42 \<notin> set a \<Longrightarrow> star_glob (a @ p) (a @ s) = star_glob p s"
  by (induction a) auto

lemma star_pattern: "star_glob (thread_pattern (lit ''1'')) (PREFIX @ lit '':'' @ x @ lit '':'' @ lit ''1'' @ lit '':'' @ y)"
proof -
  have "star_glob (42 # []) (y @ [])" by (rule star_glob_star) simp
  then have "star_glob ((lit '':1:'') @ [42]) (lit '':1:'' @ y)"
    by (subst star_glob_lit) (simp_all add: lit_def)
  then have "star_glob ((PREFIX @ lit '':'') @ 42 # lit '':1:'' @ [42]) ((PREFIX @ lit '':'') @ x @ lit '':1:'' @ y)"
    by (subst star_glob_lit) (simp_all add: PREFIX_def lit_def star_glob_star)
  then show ?thesis by (simp add: thread_pattern_def lit_def)
qed

text \<open>A database of one checkpoint, and a scan of its two keys in two pages.\<close>

definition sample_stored :: "pystr saver_db conn" where
  "sample_stored = snd (aput sample_saver (sample_config None) [3] [2] sample_saver_db)"

definition sample_key :: pystr where "sample_key = checkpoint_key (lit ''review:1'') [] [3]"
definition sample_order :: pystr where "sample_order = order_key (lit ''review:1'') []"

definition sample_scan :: "pystr scan" where
  "sample_scan pat cursor db =
     (if cursor = 0 then (5, filter (\<lambda>k. star_glob pat k \<and> stored_key db k) [sample_key])
      else (0, filter (\<lambda>k. star_glob pat k \<and> stored_key db k) [sample_order]))"

lemma sample_stored_keys: "stored_key (conn_db sample_stored) k \<longleftrightarrow> k \<in> {sample_key, sample_order}"
  by (auto simp: sample_stored_def saver_eval stored_key_def sample_key_def sample_order_def)

lemma sample_scan_law: "scan_law star_glob {k. stored_key (conn_db sample_stored) k} sample_scan"
  unfolding scan_law_def sample_stored_keys
  by (intro exI [of _ "\<lambda>c. if c = 0 then 0 else 1"] exI [of _ "\<lambda>k. if k = sample_key then 0 else 1"] exI [of _ "1::nat"])
    (auto simp: sample_scan_def sample_key_def sample_order_def checkpoint_key_def order_key_def lit_def PREFIX_def split: if_splits)

theorem adelete_thread_returns_witness:
  "\<exists>r w'. adelete_thread sample_scan (lit ''1'') sample_stored = Some (r, w') \<and>
    (\<forall>k. same_key (conn_db sample_stored) (conn_db w') k \<or>
       star_glob (thread_pattern (lit ''1'')) k \<and> \<not> stored_key (conn_db w') k) \<and>
    (r = Inr () \<longrightarrow> \<not> stored_key (conn_db w') sample_key)"
proof -
  have "star_glob (thread_pattern (lit ''1'')) sample_key"
    using star_pattern [of "lit ''cp:review''" "lit '':'' @ [3]"] by (simp add: sample_key_def checkpoint_key_def lit_def)
  with adelete_thread_returns [OF sample_scan_law, of "lit ''1''"] show ?thesis by blast
qed

theorem delete_takes_other_threads_witness:
  "\<exists>w'. adelete_thread sample_scan (lit ''1'') sample_stored = Some (Inr (), w') \<and>
    sv_entries (conn_db sample_stored) (checkpoint_key (lit ''review:1'') [] [3]) \<noteq> None \<and>
    sv_entries (conn_db w') (checkpoint_key (lit ''review:1'') [] [3]) = None"
proof -
  have "map_option fst (adelete_thread sample_scan (lit ''1'') sample_stored) = Some (Inr ())" by code_simp
  then obtain w' where del: "adelete_thread sample_scan (lit ''1'') sample_stored = Some (Inr (), w')" by auto
  have "sv_entries (conn_db sample_stored) (checkpoint_key (lit ''review:1'') [] [3]) \<noteq> None"
    by (simp add: sample_stored_def saver_eval)
  moreover have "lit ''review:1'' = lit ''review'' @ lit '':'' @ lit ''1''" by (simp add: lit_def)
  ultimately show ?thesis
    using delete_takes_other_threads [OF sample_scan_law _ del, of "lit ''review''" "[]" "[3]"] star_pattern del by auto
qed

end
