(* ===== verification/ReviewGraph.thy ===== *)
theory ReviewGraph
  imports AggregateStep BaseAgent Checkpointer JobQueue
begin

text \<open>
  \<open>orchestrator/state.py\<close>, \<open>orchestrator/graph.py\<close>, \<open>orchestrator/langgraph_engine.py\<close> and \<open>run_review\<close> of
  \<open>job_queue/arq_worker.py\<close>: the state that crosses a node boundary, the specialist and aggregate nodes,
  the fan-out and join, and the worker's job. LangGraph's own execution of a compiled graph is a parameter
  of the engine; \<open>run_graph\<close> is one execution of it, the specialists one after the other in some order.
\<close>

definition SPECIALIST_NAMES :: "pystr list" where
  "SPECIALIST_NAMES = [lit ''security'', lit ''quality'', lit ''tests'', lit ''docs'']"

subsection \<open>State\<close>

text \<open>\<open>Finding.model_dump(mode="json")\<close> and \<open>Finding.model_validate\<close>.\<close>

record finding_json =
  fj_agent_type :: pystr
  fj_severity :: pystr
  fj_category :: pystr
  fj_file :: pystr
  fj_line :: "int option"
  fj_confidence :: rat
  fj_title :: pystr
  fj_rationale :: pystr

definition dump_finding :: "finding \<Rightarrow> finding_json" where
  "dump_finding f = \<lparr>fj_agent_type = agent_value (f_agent f), fj_severity = severity_value (f_severity f),
     fj_category = f_category f, fj_file = f_file f, fj_line = f_line f, fj_confidence = f_confidence f,
     fj_title = f_title f, fj_rationale = f_rationale f\<rparr>"

definition validate_finding :: "finding_json \<Rightarrow> exn + finding" where
  "validate_finding j = (case agent_of (fj_agent_type j) of Inl e \<Rightarrow> Inl (ValidationError (lit ''agent_type''))
     | Inr a \<Rightarrow> (case severity_of (fj_severity j) of Inl e \<Rightarrow> Inl (ValidationError (lit ''severity''))
     | Inr s \<Rightarrow> mk_finding \<lparr>f_agent = a, f_severity = s, f_category = fj_category j, f_file = fj_file j,
         f_line = fj_line j, f_confidence = fj_confidence j, f_title = fj_title j, f_rationale = fj_rationale j\<rparr>))"

record aggregated =
  ad_review_id :: uuid
  ad_decision :: pystr
  ad_confidence :: rat
  ad_github_review_id :: "int option"
  ad_hitl_review_id :: "uuid option"
  ad_findings :: nat

type_synonym node_results = "(pystr \<times> finding_json list) list"

record review_state =
  st_repo :: pystr
  st_pr :: int
  st_delivery :: pystr
  st_diff :: pystr
  st_review_id :: "uuid option"
  st_results :: node_results
  st_aggregated :: "aggregated option"

text \<open>What a \<open>Send\<close> hands to a specialist: the state with the specialist's name.\<close>

record sent_state = review_state +
  st_specialist_name :: pystr

subsection \<open>Nodes\<close>

record 'w graph_deps =
  gd_agents :: "pystr \<Rightarrow> 'w agent option"
  gd_collab :: "'w collaborators"
  gd_threshold :: rat

definition specialist_node :: "'w graph_deps \<Rightarrow> pystr \<Rightarrow> 'a review_state_scheme \<Rightarrow> ('w, node_results) io" where
  "specialist_node deps name st = (case gd_agents deps name of None \<Rightarrow> raise (KeyError name)
     | Some a \<Rightarrow> bind_io (review a \<lparr>dc_repo = st_repo st, dc_number = st_pr st, dc_diff = st_diff st\<rparr> (st_review_id st))
         (\<lambda>fs. ret [(name, map dump_finding fs)]))"

text \<open>The loop that fills \<open>by_agent\<close>; a later entry of an agent replaces an earlier one.\<close>

primrec by_agent :: "(pystr \<rightharpoonup> finding list) \<Rightarrow> node_results \<Rightarrow> exn + (pystr \<rightharpoonup> finding list)" where
  "by_agent m [] = Inr m"
| "by_agent m (e # es) = (case map_result validate_finding (snd e) of Inl x \<Rightarrow> Inl x
     | Inr fs \<Rightarrow> by_agent (m(fst e \<mapsto> fs)) es)"

definition findings_by_agent :: "(pystr \<rightharpoonup> finding list) \<Rightarrow> finding list list" where
  "findings_by_agent m = map (\<lambda>n. case m n of None \<Rightarrow> [] | Some fs \<Rightarrow> fs) SPECIALIST_NAMES"

definition aggregated_of :: "aggregate_result \<Rightarrow> aggregated" where
  "aggregated_of r = \<lparr>ad_review_id = ar_review_id r, ad_decision = decision_value (ar_decision r),
     ad_confidence = ar_confidence r, ad_github_review_id = ar_github_review_id r,
     ad_hitl_review_id = ar_hitl_review_id r, ad_findings = length (ar_findings r)\<rparr>"

definition aggregate_node :: "'w graph_deps \<Rightarrow> review_state \<Rightarrow> ('w, aggregated) io" where
  "aggregate_node deps st =
     bind_io (of_result (by_agent Map.empty (st_results st))) (\<lambda>m.
     bind_io (aggregate (gd_collab deps) (gd_threshold deps) (st_repo st) (st_pr st) (st_delivery st) (findings_by_agent m))
       (\<lambda>r. ret (aggregated_of r)))"

subsection \<open>The graph\<close>

definition START :: pystr where "START = lit ''__start__''"
definition END :: pystr where "END = lit ''__end__''"
definition AGGREGATE :: pystr where "AGGREGATE = lit ''aggregate''"

definition dispatch_to_specialists :: "review_state \<Rightarrow> (pystr \<times> sent_state) list" where
  "dispatch_to_specialists st = map (\<lambda>n. (n, review_state.extend st (sent_state.fields n))) SPECIALIST_NAMES"

definition review_edges :: "(pystr \<times> pystr) list" where
  "review_edges = map (\<lambda>n. (START, n)) SPECIALIST_NAMES @ map (\<lambda>n. (n, AGGREGATE)) SPECIALIST_NAMES @ [(AGGREGATE, END)]"

text \<open>The reducer of \<open>specialist_results\<close> is \<open>operator.add\<close>; the sends run in the order given.\<close>

definition run_graph :: "'w graph_deps \<Rightarrow> ((pystr \<times> sent_state) list \<Rightarrow> (pystr \<times> sent_state) list)
    \<Rightarrow> review_state \<Rightarrow> ('w, review_state) io" where
  "run_graph deps order st =
     bind_io (map_io (\<lambda>(n, s). specialist_node deps n s) (order (dispatch_to_specialists st))) (\<lambda>outs.
     let st1 = st\<lparr>st_results := st_results st @ concat outs\<rparr> in
     bind_io (aggregate_node deps st1) (\<lambda>a. ret (st1\<lparr>st_aggregated := Some a\<rparr>)))"

subsection \<open>The stub graph\<close>

record 'w hooks =
  hk_on_start :: "(pystr \<Rightarrow> rat \<Rightarrow> ('w, unit) io) option"
  hk_should_crash :: "(pystr \<Rightarrow> ('w, bool) io) option"
  hk_delay :: rat
  hk_on_complete :: "(pystr \<Rightarrow> rat \<Rightarrow> ('w, unit) io) option"
  hk_on_run :: "(pystr \<Rightarrow> ('w, unit) io) option"

record stub_entry =
  sb_agent :: pystr
  sb_status :: pystr
  sb_completed_at :: rat

definition stub_specialist_node :: "('w, rat) io \<Rightarrow> (rat \<Rightarrow> ('w, unit) io) \<Rightarrow> ('w, rat) io \<Rightarrow> 'w hooks \<Rightarrow> pystr
    \<Rightarrow> ('w, stub_entry list) io" where
  "stub_specialist_node monotonic sleep_for time hk name =
     then_io (case hk_on_start hk of None \<Rightarrow> ret () | Some f \<Rightarrow> bind_io monotonic (f name))
     (then_io (case hk_should_crash hk of None \<Rightarrow> ret ()
        | Some p \<Rightarrow> bind_io (p name) (\<lambda>b. if b
            then raise (RuntimeError (lit ''simulated crash in specialist node '' @ [39] @ name @ [39])) else ret ()))
     (then_io (sleep_for (hk_delay hk))
     (then_io (case hk_on_complete hk of None \<Rightarrow> ret () | Some f \<Rightarrow> bind_io monotonic (f name))
     (bind_io time (\<lambda>t. ret [\<lparr>sb_agent = name, sb_status = lit ''stub-complete'', sb_completed_at = t\<rparr>])))))"

definition stub_aggregate :: "'w hooks \<Rightarrow> stub_entry list \<Rightarrow> ('w, nat \<times> pystr list) io" where
  "stub_aggregate hk results =
     then_io (case hk_on_run hk of None \<Rightarrow> ret () | Some f \<Rightarrow> f AGGREGATE)
       (ret (length results, sort (map sb_agent results)))"

text \<open>\<open>build_graph\<close>, run: the nodes in some order, then the join.\<close>

definition run_stub_graph :: "('w, rat) io \<Rightarrow> (rat \<Rightarrow> ('w, unit) io) \<Rightarrow> ('w, rat) io \<Rightarrow> (pystr list \<Rightarrow> pystr list)
    \<Rightarrow> 'w hooks \<Rightarrow> ('w, nat \<times> pystr list) io" where
  "run_stub_graph monotonic sleep_for time order hk =
     bind_io (map_io (stub_specialist_node monotonic sleep_for time hk) (order SPECIALIST_NAMES))
       (\<lambda>outs. stub_aggregate hk (concat outs))"

lemma stub_node_entry:
  "stub_specialist_node monotonic sleep_for time hk name w = (Inr out, w') \<Longrightarrow> map sb_agent out = [name]"
  by (auto simp: stub_specialist_node_def then_io_def bind_io_Inr_iff ret_def)

lemma stub_nodes_entries:
  "map_io (stub_specialist_node monotonic sleep_for time hk) ns w = (Inr outs, w') \<Longrightarrow> map sb_agent (concat outs) = ns"
proof (induction ns arbitrary: w outs)
  case (Cons n ns)
  then obtain out w1 outs1 where "stub_specialist_node monotonic sleep_for time hk n w = (Inr out, w1)"
    "map_io (stub_specialist_node monotonic sleep_for time hk) ns w1 = (Inr outs1, w')" "outs = out # outs1"
    by (auto simp: bind_io_Inr_iff ret_def)
  with Cons.IH stub_node_entry show ?case by fastforce
qed (simp add: ret_def)

text \<open>Whatever the order, the join of a run that returns sees each specialist once.\<close>

lemma stub_graph_agents:
  assumes "run_stub_graph monotonic sleep_for time order hk w = (Inr (n, agents), w')"
    and "mset (order SPECIALIST_NAMES) = mset SPECIALIST_NAMES"
  shows "n = length SPECIALIST_NAMES \<and> agents = sort SPECIALIST_NAMES"
proof -
  obtain outs w1 where outs: "map_io (stub_specialist_node monotonic sleep_for time hk) (order SPECIALIST_NAMES) w = (Inr outs, w1)"
    and join: "n = length (concat outs)" "agents = sort (map sb_agent (concat outs))"
    using assms(1) by (auto simp: run_stub_graph_def stub_aggregate_def then_io_def bind_io_Inr_iff ret_def)
  note names = stub_nodes_entries [OF outs]
  have "length (concat outs) = length SPECIALIST_NAMES"
    using assms(2) names by (metis length_map mset_eq_length)
  moreover have "sort (order SPECIALIST_NAMES) = sort SPECIALIST_NAMES"
    by (rule properties_for_sort) (simp_all add: assms(2))
  ultimately show ?thesis using join unfolding names by simp
qed

subsection \<open>The engine\<close>

text \<open>\<open>lookup\<close> is the saver's \<open>aget_tuple\<close>, \<open>ainvoke\<close> the compiled graph's.\<close>

definition engine_run :: "(config \<Rightarrow> ('w, 'v checkpoint_tuple option) io) \<Rightarrow> (review_state option \<Rightarrow> config \<Rightarrow> ('w, review_state) io)
    \<Rightarrow> review_state \<Rightarrow> pystr \<Rightarrow> ('w, review_state) io" where
  "engine_run lookup ainvoke initial thread =
     (let c = \<lparr>cf_thread = thread, cf_ns = None, cf_id = None\<rparr> in
      bind_io (lookup c) (\<lambda>existing. ainvoke (case existing of None \<Rightarrow> Some initial | Some t \<Rightarrow> None) c))"

subsection \<open>The worker's review job\<close>

record 'w worker =
  wk_upsert :: "pystr \<Rightarrow> int \<Rightarrow> pystr \<Rightarrow> ('w, review_row) io"
  wk_diff :: "pystr \<Rightarrow> int \<Rightarrow> ('w, pystr) io"
  wk_engine :: "review_state \<Rightarrow> pystr \<Rightarrow> ('w, review_state) io"

datatype job_result = Replayed uuid pystr "int option" | Reviewed aggregated

definition PRIOR_STATUS_DECISION :: "(pystr \<times> pystr) list" where
  "PRIOR_STATUS_DECISION = [(lit ''posted'', lit ''auto_post''), (lit ''needs_human'', lit ''queued''),
     (lit ''escalated'', lit ''escalated'')]"

definition initial_state :: "review_job \<Rightarrow> pystr \<Rightarrow> uuid \<Rightarrow> review_state" where
  "initial_state j diff i = \<lparr>st_repo = rj_repo j, st_pr = rj_pr j, st_delivery = rj_delivery j, st_diff = diff,
     st_review_id = Some i, st_results = [], st_aggregated = None\<rparr>"

text \<open>The argument is the result of \<open>ReviewJob.model_validate\<close>.\<close>

definition run_review :: "'w worker \<Rightarrow> exn + review_job \<Rightarrow> ('w, job_result) io" where
  "run_review wk job =
     bind_io (of_result job) (\<lambda>j.
     bind_io (wk_upsert wk (rj_repo j) (rj_pr j) (rj_delivery j)) (\<lambda>row.
       if row_status row \<noteq> lit ''pending'' then
         ret (Replayed (row_id row)
           (case map_of PRIOR_STATUS_DECISION (row_status row) of None \<Rightarrow> lit ''queued'' | Some d \<Rightarrow> d)
           (row_github_review_id row))
       else
         bind_io (wk_diff wk (rj_repo j) (rj_pr j)) (\<lambda>diff.
         bind_io (wk_engine wk (initial_state j diff (row_id row)) (lit ''review:'' @ rj_delivery j)) (\<lambda>final.
           case st_aggregated final of None \<Rightarrow> raise (RuntimeError (lit ''review graph finished without an aggregate result''))
           | Some a \<Rightarrow> ret (Reviewed a)))))"

subsection \<open>Findings cross the node boundary\<close>

lemma validate_finding_iff: "validate_finding j = Inr f \<longleftrightarrow> valid_finding f \<and> j = dump_finding f"
proof
  assume v: "validate_finding j = Inr f"
  then obtain a s where a: "agent_of (fj_agent_type j) = Inr a" and s: "severity_of (fj_severity j) = Inr s"
    by (auto simp: validate_finding_def split: sum.splits)
  with v have m: "mk_finding \<lparr>f_agent = a, f_severity = s, f_category = fj_category j, f_file = fj_file j,
         f_line = fj_line j, f_confidence = fj_confidence j, f_title = fj_title j, f_rationale = fj_rationale j\<rparr> = Inr f"
    by (simp add: validate_finding_def)
  show "valid_finding f \<and> j = dump_finding f"
    using m a s unfolding mk_finding_def agent_of_iff severity_of_iff
    by (simp split: if_splits) (auto simp: dump_finding_def intro!: finding_json.equality)
next
  assume "valid_finding f \<and> j = dump_finding f"
  then show "validate_finding j = Inr f"
   by (cases f) (simp add: validate_finding_def dump_finding_def mk_finding_def valid_finding_def)
qed

lemma map_result_Cons_iff: "map_result f (x # xs) = Inr (y # ys) \<longleftrightarrow> f x = Inr y \<and> map_result f xs = Inr ys"
  by (simp split: sum.split)

lemma map_result_Cons_Nil: "map_result f (x # xs) \<noteq> Inr []"
  by (simp split: sum.split)

lemma validate_findings_iff:
  "map_result validate_finding js = Inr fs \<longleftrightarrow> list_all valid_finding fs \<and> js = map dump_finding fs"
proof (induction js arbitrary: fs)
  case (Cons j js)
  show ?case
    by (cases fs) (auto simp only: map_result_Cons_iff map_result_Cons_Nil validate_finding_iff Cons.IH list.pred_inject list.map list.inject list.distinct)
qed auto

lemma validate_dump: "valid_finding f \<Longrightarrow> validate_finding (dump_finding f) = Inr f"
  by (simp add: validate_finding_iff)

lemma validate_dumps: "list_all valid_finding fs \<Longrightarrow> map_result validate_finding (map dump_finding fs) = Inr fs"
  by (simp add: validate_findings_iff)


definition dumped :: "(pystr \<times> finding list) list \<Rightarrow> node_results" where
  "dumped rs = map (\<lambda>(n, fs). (n, map dump_finding fs)) rs"

lemma by_agent_dumped:
  "list_all (\<lambda>(n, fs). list_all valid_finding fs) rs \<Longrightarrow> by_agent m (dumped rs) = Inr (m ++ map_of (rev rs))"
  by (induction rs arbitrary: m) (auto simp: dumped_def validate_dumps)

text \<open>C32. The join is deterministic: whatever order the four specialists finish in, the aggregate node gives
  the gate the findings of each, unchanged by the JSON of the state, in the fixed order of the specialists,
  and a specialist without an entry as one without findings.\<close>

theorem join_order_irrelevant:
  assumes "mset rs' = mset rs" "distinct (map fst rs)" "list_all (\<lambda>(n, fs). list_all valid_finding fs) rs"
  shows "aggregate_node deps (st\<lparr>st_results := dumped rs'\<rparr>) w =
    bind_io (aggregate (gd_collab deps) (gd_threshold deps) (st_repo st) (st_pr st) (st_delivery st)
      (map (\<lambda>n. case map_of rs n of None \<Rightarrow> [] | Some fs \<Rightarrow> fs) SPECIALIST_NAMES)) (\<lambda>r. ret (aggregated_of r)) w"
proof -
  have dist: "distinct (map fst rs')" using assms(1,2) by (metis mset_map mset_eq_imp_distinct_iff)
  have same: "set rs' = set rs" using assms(1) by (metis set_mset_mset)
  have "map_of (rev rs') = map_of rs"
    using dist assms(2) same map_of_inject_set [of "rev rs'" rs] by (simp add: rev_map [symmetric])
  moreover have "list_all (\<lambda>(n, fs). list_all valid_finding fs) rs'"
    using assms(3) same by (simp add: list_all_iff)
  ultimately show ?thesis
    by (simp add: aggregate_node_def by_agent_dumped findings_by_agent_def of_result_def [abs_def] bind_io_def)
qed

definition sample_deps :: "int world graph_deps" where
  "sample_deps = \<lparr>gd_agents = (\<lambda>_. None), gd_collab = sample_collab, gd_threshold = 3 / 4\<rparr>"

definition sample_state :: review_state where
  "sample_state = initial_state \<lparr>rj_delivery = lit ''d1'', rj_repo = lit ''o/r'', rj_pr = 7, rj_action = lit ''opened''\<rparr> [] 0"

theorem join_order_irrelevant_witness:
  "aggregate_node sample_deps (sample_state\<lparr>st_results := dumped [(lit ''docs'', []), (lit ''security'', [])]\<rparr>) (sample_tiger []) =
    bind_io (aggregate sample_collab (3 / 4) (lit ''o/r'') 7 (lit ''d1'') [[], [], [], []]) (\<lambda>r. ret (aggregated_of r)) (sample_tiger [])"
proof -
  have "mset [(lit ''docs'', []), (lit ''security'', [])] = mset [(lit ''security'', []), (lit ''docs'', [])]"
    "distinct (map fst [(lit ''security'', []), (lit ''docs'', [])])"
    "list_all (\<lambda>(n, fs). list_all valid_finding fs) [(lit ''security'', []), (lit ''docs'', [])]"
    by simp_all
  from join_order_irrelevant [OF this, of sample_deps sample_state "sample_tiger []"] show ?thesis
    by (simp add: sample_deps_def sample_state_def initial_state_def SPECIALIST_NAMES_def)
qed

text \<open>The worker and the gate agree on a redelivered webhook: for a review that has left \<open>pending\<close> the job
  reports the decision the gate reports for that status, fetches no diff and runs no graph.\<close>

theorem worker_replays_gate:
  assumes "wk_upsert wk (rj_repo j) (rj_pr j) (rj_delivery j) w = (Inr row, w1)" "row_status row \<noteq> lit ''pending''"
  shows "run_review wk (Inr j) w =
    (Inr (Replayed (row_id row) (decision_value (prior_decision (row_status row))) (row_github_review_id row)), w1)"
  using assms by (simp add: run_review_def bind_io_def of_result_def ret_def PRIOR_STATUS_DECISION_def prior_decision_def)

definition sample_worker :: "string \<Rightarrow> unit worker" where
  "sample_worker st = \<lparr>wk_upsert = (\<lambda>repo n d. ret \<lparr>row_id = 3, row_status = lit st, row_github_review_id = Some 9\<rparr>),
     wk_diff = (\<lambda>repo n. raise (GitHubError [])), wk_engine = (\<lambda>st i. raise (GitHubError []))\<rparr>"

theorem worker_replays_gate_witness:
  "run_review (sample_worker ''posted'') (Inr \<lparr>rj_delivery = lit ''d1'', rj_repo = lit ''o/r'', rj_pr = 7, rj_action = lit ''opened''\<rparr>) () =
    (Inr (Replayed 3 (lit ''auto_post'') (Some 9)), ())"
proof -
  let ?j = "\<lparr>rj_delivery = lit ''d1'', rj_repo = lit ''o/r'', rj_pr = 7, rj_action = lit ''opened''\<rparr>"
  let ?row = "\<lparr>row_id = 3, row_status = lit ''posted'', row_github_review_id = Some 9\<rparr>"
  have "wk_upsert (sample_worker ''posted'') (rj_repo ?j) (rj_pr ?j) (rj_delivery ?j) () = (Inr ?row, ())"
    by (simp add: sample_worker_def ret_def)
  from worker_replays_gate [OF this] show ?thesis by (simp add: prior_decision_def)
qed

end
