(* ===== verification/Pipeline.thy ===== *)
theory Pipeline
  imports ReviewGraph
begin

text \<open>
  The review job on its production services: the wiring of \<open>startup\<close> in \<open>job_queue/arq_worker.py\<close>, the worker's
  attempts at jobs, and what they promise together. An attempt runs \<open>run_review\<close> with an engine that
  executes the graph's nodes in any order, any number of times and up to any point, from the initial
  state or from a checkpoint: every behaviour of LangGraph and of a worker that is killed and resumed is one of
  these schedules. The world is that of the gate, with the services of the agents beside GitHub.
\<close>

subsection \<open>The services\<close>

record ('h, 'e, 'c) job_services =
  svc_github :: 'h
  svc_retrieval :: "breaker option"
  svc_cost :: "breaker option"
  svc_embed :: "breaker option \<times> 'e rt"
  svc_chat :: "breaker option \<times> 'c rt"

type_synonym ('h, 'e, 'c) job_world = "('h, 'e, 'c) job_services world"

text \<open>The agents' part of it: the pool is the one of the truth store.\<close>

definition agents_of :: "('h, 'e, 'c) job_world \<Rightarrow> ('e, 'c) agent_world" where
  "agents_of w = \<lparr>aw_pool = snd (tiger w), aw_retrieval = svc_retrieval (github w), aw_cost = svc_cost (github w),
     aw_embed = svc_embed (github w), aw_chat = svc_chat (github w)\<rparr>"

definition put_agents :: "('e, 'c) agent_world \<Rightarrow> ('h, 'e, 'c) job_world \<Rightarrow> ('h, 'e, 'c) job_world" where
  "put_agents a w = w\<lparr>tiger := (fst (tiger w), aw_pool a),
     github := \<lparr>svc_github = svc_github (github w), svc_retrieval = aw_retrieval a, svc_cost = aw_cost a,
       svc_embed = aw_embed a, svc_chat = aw_chat a\<rparr>\<rparr>"

definition on_agents :: "(('e, 'c) agent_world, 'a) io \<Rightarrow> (('h, 'e, 'c) job_world, 'a) io" where
  "on_agents m = zoom agents_of put_agents m"

definition on_github :: "('h, 'a) io \<Rightarrow> (('h, 'e, 'c) job_services, 'a) io" where
  "on_github m = zoom svc_github (\<lambda>h s. s\<lparr>svc_github := h\<rparr>) m"

text \<open>An agent that lives in the job's world.\<close>

definition in_job :: "('e, 'c) agent_world agent \<Rightarrow> ('h, 'e, 'c) job_world agent" where
  "in_job a = \<lparr>ag_type = ag_type a, ag_system_prompt = ag_system_prompt a, ag_version = ag_version a,
     ag_model = ag_model a, ag_k = ag_k a, ag_hardening = ag_hardening a, ag_wrap = ag_wrap a,
     ag_budget = map_option (\<lambda>check name. on_agents (check name)) (ag_budget a),
     ag_emit = (\<lambda>e. on_agents (ag_emit a e)), ag_retrieve = (\<lambda>repo q k. on_agents (ag_retrieve a repo q k)),
     ag_parse = (\<lambda>q. on_agents (ag_parse a q)), ag_clock = (\<lambda>w. ag_clock a (agents_of w))\<rparr>"

subsection \<open>startup\<close>

text \<open>The four agents, each on its prompt, with no budget guard; the collaborators of the gate on the
  same pool. \<open>post\<close> is the GitHub client's \<open>post_review\<close>.\<close>

definition startup :: "(pystr \<Rightarrow> pystr) \<Rightarrow> (pystr \<Rightarrow> exn + pystr) \<Rightarrow> ('e, 'c) agent_setup
    \<Rightarrow> (pystr \<Rightarrow> int \<Rightarrow> pystr \<Rightarrow> pystr \<Rightarrow> ('h, int) io) \<Rightarrow> exn + ('h, 'e, 'c) job_world graph_deps" where
  "startup sha read s post =
     (let s' = s\<lparr>as_cap := None\<rparr> in
      case SecurityAgent sha read s' of Inl e \<Rightarrow> Inl e | Inr sec \<Rightarrow>
      (case QualityAgent sha read s' of Inl e \<Rightarrow> Inl e | Inr qual \<Rightarrow>
      (case TestsAgent sha read s' of Inl e \<Rightarrow> Inl e | Inr tst \<Rightarrow>
      (case DocsAgent sha read s' of Inl e \<Rightarrow> Inl e | Inr doc \<Rightarrow>
        Inr \<lparr>gd_agents = map_of [(lit ''security'', in_job sec), (lit ''quality'', in_job qual),
               (lit ''tests'', in_job tst), (lit ''docs'', in_job doc)],
             gd_collab = tiger_collab (as_num43 s) (as_num106 s) (\<lambda>repo n body evt. on_github (post repo n body evt)),
             gd_threshold = DEFAULT_CONFIDENCE_THRESHOLD\<rparr>))))"

subsection \<open>Attempts at a job\<close>

datatype graph_op = Run_specialist pystr | Run_aggregate

text \<open>Nodes executed one after the other; the outputs go to their channels.\<close>

definition run_op_node :: "'w graph_deps \<Rightarrow> graph_op \<Rightarrow> review_state \<Rightarrow> ('w, review_state) io" where
  "run_op_node deps x st = (case x of
     Run_specialist n \<Rightarrow> bind_io (specialist_node deps n st) (\<lambda>r. ret (st\<lparr>st_results := st_results st @ r\<rparr>))
   | Run_aggregate \<Rightarrow> bind_io (aggregate_node deps st) (\<lambda>a. ret (st\<lparr>st_aggregated := Some a\<rparr>)))"

primrec exec_ops :: "'w graph_deps \<Rightarrow> graph_op list \<Rightarrow> review_state \<Rightarrow> ('w, review_state) io" where
  "exec_ops deps [] st = ret st"
| "exec_ops deps (x # xs) st = bind_io (run_op_node deps x st) (exec_ops deps xs)"

text \<open>A job, the checkpoint found for its thread, and the nodes that run.\<close>

record attempt =
  at_job :: review_job
  at_found :: "review_state checkpoint_tuple option"
  at_ops :: "graph_op list"

definition attempt_engine :: "'w graph_deps \<Rightarrow> attempt \<Rightarrow> review_state \<Rightarrow> pystr \<Rightarrow> ('w, review_state) io" where
  "attempt_engine deps a = engine_run (\<lambda>c. ret (at_found a))
     (\<lambda>input c. case input of Some st \<Rightarrow> exec_ops deps (at_ops a) st
        | None \<Rightarrow> (case at_found a of Some t \<Rightarrow> exec_ops deps (at_ops a) (ct_checkpoint t)
            | None \<Rightarrow> raise (OtherError (lit ''nothing to resume''))))"

definition attempt_worker :: "(pystr \<Rightarrow> int \<Rightarrow> ('h, pystr) io) \<Rightarrow> ('h, 'e, 'c) job_world graph_deps \<Rightarrow> attempt
    \<Rightarrow> ('h, 'e, 'c) job_world worker" where
  "attempt_worker diff deps a =
     \<lparr>wk_upsert = (\<lambda>repo n d. on_tiger (upsert_review repo n d)),
      wk_diff = (\<lambda>repo n. zoom github (\<lambda>s w. w\<lparr>github := s\<rparr>) (on_github (diff repo n))),
      wk_engine = attempt_engine deps a\<rparr>"

primrec run_attempts :: "(pystr \<Rightarrow> int \<Rightarrow> ('h, pystr) io) \<Rightarrow> ('h, 'e, 'c) job_world graph_deps \<Rightarrow> attempt list
    \<Rightarrow> ('h, 'e, 'c) job_world \<Rightarrow> (exn + job_result) list \<times> ('h, 'e, 'c) job_world" where
  "run_attempts diff deps [] w = ([], w)"
| "run_attempts diff deps (a # as) w =
     (case run_review (attempt_worker diff deps a) (Inr (at_job a)) w of (r, w1) \<Rightarrow>
       (case run_attempts diff deps as w1 of (rs, w2) \<Rightarrow> (r # rs, w2)))"

text \<open>A checkpoint of a thread holds a state of its delivery, taken before the join.\<close>

definition own_checkpoint :: "attempt \<Rightarrow> bool" where
  "own_checkpoint a \<longleftrightarrow> (case at_found a of None \<Rightarrow> True
     | Some t \<Rightarrow> st_repo (ct_checkpoint t) = rj_repo (at_job a) \<and> st_pr (ct_checkpoint t) = rj_pr (at_job a) \<and>
         st_delivery (ct_checkpoint t) = rj_delivery (at_job a) \<and> st_aggregated (ct_checkpoint t) = None)"

subsection \<open>The specialists leave the gate's tables alone\<close>

definition quiet :: "'g world \<Rightarrow> 'g world \<Rightarrow> bool" where
  "quiet w0 w \<longleftrightarrow> w_ok w \<and> reviews (world_db w) = reviews (world_db w0) \<and>
     hitl_rows (world_db w) = hitl_rows (world_db w0) \<and> post_log w = post_log w0"

lemma quiet_same:
  "quiet w0 w \<Longrightarrow> w_ok w \<and> w_lookup w = w_lookup w0 \<and> w_status w = w_status w0 \<and> w_queued w = w_queued w0 \<and> post_log w = post_log w0"
  by (simp add: quiet_def w_defs fun_eq_iff lookup_db_def status_db_def queued_db_def find_delivery_def find_review_def)

lemma keeps_in_span:
  assumes "\<And>e. keeps I (ag_emit a e)" "keeps I m"
  shows "keeps I (in_span a i t0 m)"
proof -
  have "I (snd (in_span a i t0 m w))" if "I w" for w
  proof -
    obtain r w1 where m: "m w = (r, w1)" by (cases "m w")
    have "I w1" using keepsD [OF assms(2) that] m by simp
    then have "I (snd (ag_emit a e w1))" for e by (rule keepsD [OF assms(1)])
    then show ?thesis unfolding in_span_def m
      by (cases r) (auto split: prod.splits sum.splits, (metis snd_conv)+)
  qed
  then show ?thesis by (simp add: keeps_def)
qed

lemma keeps_review:
  assumes "\<And>e. keeps I (ag_emit a e)" "\<And>repo q k. keeps I (ag_retrieve a repo q k)" "\<And>q. keeps I (ag_parse a q)"
    and "\<And>check name. ag_budget a = Some check \<Longrightarrow> keeps I (check name)"
  shows "keeps I (review a d i)"
proof -
  have [intro]: "keeps I (clock_now a)" "keeps I (of_result x)" for x by (simp_all add: keeps_def clock_now_def of_result_def)
  have body: "keeps I (span_body a d j)" for j
    unfolding span_body_def agent_retrieve_def parse_completion_def
    by (intro keeps_bind assms) (auto split: option.split)
  show ?thesis
    unfolding review_def call_llm_def agent_retrieve_def parse_completion_def
    by (auto intro!: keeps_bind keeps_in_span assms body split: option.split)
qed

lemma on_agents_quiet:
  assumes "\<And>w r w'. m w = (r, w') \<Longrightarrow> wf_db (store (dep (aw_pool w))) \<Longrightarrow> wf_db (store (dep (aw_pool w'))) \<and>
      reviews (store (dep (aw_pool w'))) = reviews (store (dep (aw_pool w))) \<and>
      hitl_rows (store (dep (aw_pool w'))) = hitl_rows (store (dep (aw_pool w)))"
  shows "keeps (quiet w0) (on_agents m)"
  unfolding keeps_def
proof (intro allI impI)
  fix w assume q: "quiet w0 w"
  obtain r a where a: "m (agents_of w) = (r, a)" by (metis surj_pair)
  then have "on_agents m w = (r, put_agents a w)" by (simp add: on_agents_def zoom_def)
  with assms [OF a] q show "quiet w0 (snd (on_agents m w))"
    by (simp add: put_agents_def quiet_def w_ok_def agents_of_def)
qed

lemma world_emit_quiet: "keeps (quiet w0) (on_agents (world_emit s e))"
proof (rule on_agents_quiet)
  fix w r w' assume "world_emit s e w = (r, w')" and wf: "wf_db (store (dep (aw_pool w)))"
  then obtain c where c: "unguarded (emit_sql (as_num106 s) (as_num43 s) e) (None, aw_pool w) = (r, c)"
      and w': "w' = w\<lparr>aw_pool := snd c\<rparr>"
    by (auto simp: world_emit_def zoom_run sink_emit_def)
  from unguarded_once(1) [OF c] wf_emit [OF wf]
  show "wf_db (store (dep (aw_pool w'))) \<and> reviews (store (dep (aw_pool w'))) = reviews (store (dep (aw_pool w))) \<and>
      hitl_rows (store (dep (aw_pool w'))) = hitl_rows (store (dep (aw_pool w)))"
    using wf by (auto simp: w' emit_sql_def)
qed

lemma world_retrieve_quiet: "keeps (quiet w0) (on_agents (world_retrieve s repo q k))"
proof (rule on_agents_quiet)
  fix w r w' assume "world_retrieve s repo q k w = (r, w')" and wf: "wf_db (store (dep (aw_pool w)))"
  then have "store (dep (aw_pool w')) = store (dep (aw_pool w))"
    unfolding world_retrieve_def zoom_run using retrieve_reads by fastforce
  with wf show "wf_db (store (dep (aw_pool w'))) \<and> reviews (store (dep (aw_pool w'))) = reviews (store (dep (aw_pool w))) \<and>
      hitl_rows (store (dep (aw_pool w'))) = hitl_rows (store (dep (aw_pool w)))" by simp
qed

lemma world_spend_quiet: "keeps (quiet w0) (on_agents (budget_check cap world_spend name))"
proof (rule on_agents_quiet)
  fix w r w' assume b: "budget_check cap world_spend name w = (r, w')" and wf: "wf_db (store (dep (aw_pool w)))"
  obtain q w1 where q: "world_spend w = (q, w1)" by (cases "world_spend w")
  then have "store (dep (aw_pool w1)) = store (dep (aw_pool w))"
    unfolding world_spend_def zoom_run using spend_today_reads(1) by fastforce
  moreover have "w' = w1" using b q by (cases q) (auto simp: budget_check_def bind_io_def raise_def ret_def split: if_splits)
  ultimately show "wf_db (store (dep (aw_pool w'))) \<and> reviews (store (dep (aw_pool w'))) = reviews (store (dep (aw_pool w))) \<and>
      hitl_rows (store (dep (aw_pool w'))) = hitl_rows (store (dep (aw_pool w)))" using wf by simp
qed

lemma specialist_quiet: "keeps (quiet w0) (review (in_job (specialist s ty vp)) d i)"
proof (rule keeps_review)
  show "keeps (quiet w0) (ag_parse (in_job (specialist s ty vp)) q)" for q
    by (simp add: in_job_def specialist_def, rule on_agents_quiet) (auto simp: zoom_def split: prod.splits)
  show "keeps (quiet w0) (check name)" if "ag_budget (in_job (specialist s ty vp)) = Some check" for check name
    using that world_spend_quiet by (auto simp: in_job_def specialist_def)
qed (simp_all add: in_job_def specialist_def world_emit_quiet world_retrieve_quiet)

text \<open>The dependencies \<open>startup\<close> builds.\<close>

definition quiet_agents :: "'g world graph_deps \<Rightarrow> bool" where
  "quiet_agents deps \<longleftrightarrow> (\<forall>w0 n a d i. gd_agents deps n = Some a \<longrightarrow> keeps (quiet w0) (review a d i))"

lemma startup_deps:
  assumes "startup sha read s post = Inr deps"
  shows "quiet_agents deps"
    and "gd_collab deps = tiger_collab (as_num43 s) (as_num106 s) (\<lambda>repo n body evt. on_github (post repo n body evt))"
    and "gd_threshold deps = DEFAULT_CONFIDENCE_THRESHOLD"
  using assms specialist_quiet
  by (auto simp: startup_def Let_def SecurityAgent_def QualityAgent_def TestsAgent_def DocsAgent_def agent_from_registry_def
      quiet_agents_def split: sum.splits if_splits)

subsection \<open>What a job does to the gate\<close>

abbreviation done_with :: "pystr \<Rightarrow> 'g world \<Rightarrow> bool" where
  "done_with d w \<equiv> gate_world.settled w_lookup w_status d w"

abbreviation acted_for :: "rat \<Rightarrow> pystr \<Rightarrow> int \<Rightarrow> uuid \<Rightarrow> finding list \<Rightarrow> 'g world \<Rightarrow> 'g world \<Rightarrow> bool" where
  "acted_for \<equiv> gate_world.acted post_log w_queued"

definition idle :: "'g world \<Rightarrow> 'g world \<Rightarrow> bool" where
  "idle w w' \<longleftrightarrow> post_log w' = post_log w \<and> w_queued w' = w_queued w \<and> (\<forall>d. done_with d w' = done_with d w)"

text \<open>The gate's deed for a delivery between two worlds: the one action of its decision.\<close>

definition deed :: "rat \<Rightarrow> pystr \<Rightarrow> int \<Rightarrow> pystr \<Rightarrow> 'g world \<Rightarrow> 'g world \<Rightarrow> bool" where
  "deed t repo n d w w' \<longleftrightarrow> (\<exists>i fs. w_lookup w' d = Some i \<and> acted_for t repo n i fs w w')"

text \<open>How a run, returning or not, may change what the gate sees of a delivery.\<close>

definition careful :: "rat \<Rightarrow> pystr \<Rightarrow> int \<Rightarrow> pystr \<Rightarrow> 'g world \<Rightarrow> 'g world \<Rightarrow> bool" where
  "careful t repo n d w w' \<longleftrightarrow> w_ok w' \<and> w_lookup w \<subseteq>\<^sub>m w_lookup w' \<and> (\<forall>d'. done_with d' w \<longrightarrow> done_with d' w') \<and>
     (idle w w' \<or> \<not> done_with d w \<and> deed t repo n d w w')"

lemma careful_quiet: "w_ok w \<Longrightarrow> quiet w w' \<Longrightarrow> careful t repo n d w w'"
  using quiet_same [of w w'] by (simp add: careful_def idle_def tiger_gate.settled_def)

lemma deed_idle: "idle w w1 \<Longrightarrow> deed t repo n d w1 w' \<longleftrightarrow> deed t repo n d w w'"
  by (simp add: deed_def idle_def tiger_gate.acted_def Let_def)

lemma deed_then_idle:
  "deed t repo n d w w1 \<Longrightarrow> idle w1 w' \<Longrightarrow> w_lookup w1 \<subseteq>\<^sub>m w_lookup w' \<Longrightarrow> deed t repo n d w w'"
proof -
  assume d: "deed t repo n d w w1" and i: "idle w1 w'" and le: "w_lookup w1 \<subseteq>\<^sub>m w_lookup w'"
  from d obtain i fs where "w_lookup w1 d = Some i" "acted_for t repo n i fs w w1" by (auto simp: deed_def)
  moreover from this le have "w_lookup w' d = Some i" by (metis domI map_le_def)
  ultimately show "deed t repo n d w w'" using i
    unfolding deed_def by (intro exI [of _ i] exI [of _ fs]) (simp add: tiger_gate.acted_def idle_def Let_def)
qed

lemma careful_trans:
  assumes "careful t repo n d w w1" "careful t repo n d w1 w'" "idle w w1 \<or> done_with d w1"
  shows "careful t repo n d w w'"
proof -
  have le: "w_lookup w1 \<subseteq>\<^sub>m w_lookup w'" "w_lookup w \<subseteq>\<^sub>m w_lookup w'"
    using assms(1,2) by (auto simp: careful_def intro: map_le_trans)
  have mono: "done_with d' w \<longrightarrow> done_with d' w1" "done_with d' w1 \<longrightarrow> done_with d' w'" for d'
    using assms(1,2) by (simp_all add: careful_def)
  have one: "idle w w1 \<or> \<not> done_with d w \<and> deed t repo n d w w1" "idle w1 w' \<or> \<not> done_with d w1 \<and> deed t repo n d w1 w'"
    using assms(1,2) by (simp_all add: careful_def)
  have "idle w w' \<or> \<not> done_with d w \<and> deed t repo n d w w'"
  proof (cases "idle w w1")
    case True
    then show ?thesis using one(2) mono(1) [of d] deed_idle [OF True] by (auto simp: idle_def)
  next
    case False
    then have "idle w1 w'" "\<not> done_with d w \<and> deed t repo n d w w1" using assms(3) one by auto
    then show ?thesis using deed_then_idle [OF _ _ le(1)] by blast
  qed
  then show ?thesis using assms(2) le mono by (simp add: careful_def)
qed

lemma aggregate_careful:
  assumes co: "gd_collab deps = tiger_collab num43 num106 post" and ok: "w_ok w"
    and run: "aggregate_node deps st w = (r, w')"
  shows "careful (gd_threshold deps) (st_repo st) (st_pr st) (st_delivery st) w w'"
    and "r = Inr a \<Longrightarrow> done_with (st_delivery st) w' \<and>
      (\<not> done_with (st_delivery st) w \<longrightarrow> deed (gd_threshold deps) (st_repo st) (st_pr st) (st_delivery st) w w')"
proof -
  let ?t = "gd_threshold deps" and ?d = "st_delivery st"
  have "careful ?t (st_repo st) (st_pr st) ?d w w' \<and> (\<forall>a. r = Inr a \<longrightarrow> done_with ?d w' \<and>
      (\<not> done_with ?d w \<longrightarrow> deed ?t (st_repo st) (st_pr st) ?d w w'))"
  proof (cases "by_agent Map.empty (st_results st)")
    case (Inl e)
    then show ?thesis using run ok
      by (auto simp: aggregate_node_def of_result_def bind_io_def careful_def idle_def)
  next
    case (Inr m)
    obtain r1 w1 where agg: "aggregate (tiger_collab num43 num106 post) ?t (st_repo st) (st_pr st) ?d (findings_by_agent m) w = (r1, w1)"
      by (metis surj_pair)
    have w': "w' = w1" and r: "r = Inr a \<Longrightarrow> \<exists>x. r1 = Inr x" for a
      using run Inr agg by (auto simp: aggregate_node_def co of_result_def bind_io_def ret_def split: sum.splits)
    have mono: "done_with d' w \<longrightarrow> done_with d' w1" for d' using tiger_gate.aggregate_spec [OF ok agg, of d'] by blast
    then have "idle w w1" if "post_log w1 = post_log w" "w_queued w1 = w_queued w"
      using tiger_gate.aggregate_idle [OF ok agg that] that by (auto simp: idle_def)
    then have spec: "w_ok w1 \<and> (done_with d' w \<longrightarrow> done_with d' w1) \<and> (idle w w1 \<or> \<not> done_with ?d w \<and> deed ?t (st_repo st) (st_pr st) ?d w w1) \<and>
        (\<forall>x. r1 = Inr x \<longrightarrow> done_with ?d w1 \<and> (\<not> done_with ?d w \<longrightarrow> deed ?t (st_repo st) (st_pr st) ?d w w1))" for d'
      using tiger_gate.aggregate_spec [OF ok agg, of d'] unfolding deed_def by blast
    then show ?thesis
      using tiger_gate.aggregate_lookup [OF ok agg] r unfolding w' careful_def by blast
  qed
  then show "careful ?t (st_repo st) (st_pr st) ?d w w'"
    and "r = Inr a \<Longrightarrow> done_with ?d w' \<and> (\<not> done_with ?d w \<longrightarrow> deed ?t (st_repo st) (st_pr st) ?d w w')" by blast+
qed

text \<open>What is asked of the dependencies, and what \<open>startup\<close> provides.\<close>

definition sound_deps :: "'g world graph_deps \<Rightarrow> bool" where
  "sound_deps deps \<longleftrightarrow> quiet_agents deps \<and> (\<exists>num43 num106 post. gd_collab deps = tiger_collab num43 num106 post)"

lemma startup_sound: "startup sha read s post = Inr deps \<Longrightarrow> sound_deps deps"
  using startup_deps unfolding sound_deps_def by blast

text \<open>When a run of nodes has an aggregate, the delivery is done with.\<close>

definition concluded :: "rat \<Rightarrow> review_state \<Rightarrow> 'g world \<Rightarrow> 'g world \<Rightarrow> bool" where
  "concluded t st w w' \<longleftrightarrow> done_with (st_delivery st) w' \<and>
     (\<not> done_with (st_delivery st) w \<longrightarrow> deed t (st_repo st) (st_pr st) (st_delivery st) w w')"

definition same_job :: "review_state \<Rightarrow> review_state \<Rightarrow> bool" where
  "same_job st st' \<longleftrightarrow> st_repo st' = st_repo st \<and> st_pr st' = st_pr st \<and> st_delivery st' = st_delivery st"

lemma node_careful:
  assumes deps: "sound_deps deps" and ok: "w_ok w" and run: "run_op_node deps x st w = (r, w')"
  shows "careful (gd_threshold deps) (st_repo st) (st_pr st) (st_delivery st) w w' \<and>
    (\<forall>st1. r = Inr st1 \<longrightarrow> same_job st st1 \<and>
      (st_aggregated st1 = st_aggregated st \<and> idle w w' \<and> done_with (st_delivery st) w' = done_with (st_delivery st) w \<or>
        concluded (gd_threshold deps) st w w'))"
proof (cases x)
  case (Run_specialist n)
  have "keeps (quiet w) (specialist_node deps n st)"
    using deps by (auto simp: specialist_node_def sound_deps_def quiet_agents_def split: option.split intro!: keeps_bind)
  moreover have "quiet w w" using ok by (simp add: quiet_def)
  ultimately have q: "quiet w (snd (specialist_node deps n st w))" by (rule keepsD)
  obtain r1 w1 where s: "specialist_node deps n st w = (r1, w1)" by (metis surj_pair)
  with run have "w' = w1" and "\<And>st1. r = Inr st1 \<Longrightarrow> same_job st st1 \<and> st_aggregated st1 = st_aggregated st"
    by (auto simp: run_op_node_def Run_specialist bind_io_def ret_def same_job_def split: sum.splits)
  moreover have "idle w w1" "done_with (st_delivery st) w1 = done_with (st_delivery st) w"
    using q s quiet_same [of w w1] by (simp_all add: idle_def tiger_gate.settled_def)
  moreover have "quiet w w1" using q s by simp
  ultimately show ?thesis using careful_quiet [OF ok] by blast
next
  case Run_aggregate
  obtain num43 num106 post where co: "gd_collab deps = tiger_collab num43 num106 post" using deps by (auto simp: sound_deps_def)
  obtain r1 w1 where s: "aggregate_node deps st w = (r1, w1)" by (metis surj_pair)
  with run have "w' = w1" and "\<And>st1. r = Inr st1 \<Longrightarrow> same_job st st1 \<and> (\<exists>a. r1 = Inr a)"
    by (auto simp: run_op_node_def Run_aggregate bind_io_def ret_def same_job_def split: sum.splits)
  then show ?thesis using aggregate_careful [OF co ok s] unfolding concluded_def by blast
qed

lemma exec_careful:
  assumes deps: "sound_deps deps"
  shows "w_ok w \<Longrightarrow> exec_ops deps ops st w = (r, w') \<Longrightarrow>
    careful (gd_threshold deps) (st_repo st) (st_pr st) (st_delivery st) w w' \<and>
    (\<forall>st'. r = Inr st' \<longrightarrow> st_aggregated st = None \<longrightarrow> st_aggregated st' \<noteq> None \<longrightarrow> concluded (gd_threshold deps) st w w')"
proof (induction ops arbitrary: st w)
  case Nil
  then show ?case by (auto simp: ret_def careful_def idle_def)
next
  case (Cons x ops)
  let ?C = "careful (gd_threshold deps) (st_repo st) (st_pr st) (st_delivery st)"
  obtain r1 w1 where n: "run_op_node deps x st w = (r1, w1)" by (metis surj_pair)
  note node = node_careful [OF deps Cons.prems(1) n]
  show ?case
  proof (cases r1)
    case (Inl e)
    with Cons.prems n node show ?thesis by (auto simp: bind_io_def)
  next
    case (Inr st1)
    then have rest: "exec_ops deps ops st1 w1 = (r, w')" using Cons.prems n by (simp add: bind_io_def)
    have job: "st_repo st1 = st_repo st" "st_pr st1 = st_pr st" "st_delivery st1 = st_delivery st"
      using node Inr by (simp_all add: same_job_def)
    have "w_ok w1" using node by (simp add: careful_def)
    note IH = Cons.IH [OF this rest, unfolded job]
    have step: "st_aggregated st1 = st_aggregated st \<and> idle w w1 \<and> done_with (st_delivery st) w1 = done_with (st_delivery st) w \<or>
        concluded (gd_threshold deps) st w w1" using node Inr by simp
    then have C: "?C w w'" using careful_trans [of _ _ _ _ w w1 w'] node IH by (auto simp: concluded_def)
    moreover have "concluded (gd_threshold deps) st w w'" if "concluded (gd_threshold deps) st w w1"
      using that C IH deed_then_idle [of _ _ _ _ w w1 w'] unfolding concluded_def careful_def by blast
    moreover have "concluded (gd_threshold deps) st w w'" if "idle w w1"
        "done_with (st_delivery st) w1 = done_with (st_delivery st) w" "concluded (gd_threshold deps) st1 w1 w'"
      using that(2,3) deed_idle [OF that(1)] unfolding concluded_def job by simp
    ultimately show ?thesis using step IH by metis
  qed
qed

subsection \<open>What an attempt does\<close>

lemma upsert_seen:
  assumes ok: "w_ok w" and run: "on_tiger (upsert_review repo n d) w = (r, w1)"
  shows "careful t repo' n' d' w w1" "idle w w1" "github w1 = github w"
    and "r = Inr row \<Longrightarrow> w_lookup w1 d = Some (row_id row) \<and> w_status w1 (row_id row) = Some (row_status row)"
    and "r = Inr row \<Longrightarrow> done_with d w \<longleftrightarrow> row_status row \<noteq> lit ''pending''"
proof -
  have up: "co_upsert_review (tiger_collab id id undefined) repo n d w = (r, w1)" using run by (simp add: tiger_collab_def)
  note law = tiger_gate.upsert_law [OF ok up]
  then have grow: "done_with d'' w \<Longrightarrow> done_with d'' w1" for d'' using tiger_gate.settled_grow by blast
  moreover have "done_with d'' w1 \<Longrightarrow> done_with d'' w" for d''
    using tiger_gate.fresh_law [OF ok up] unfolding tiger_gate.settled_def by blast
  ultimately have same: "done_with d'' w1 = done_with d'' w" for d'' by blast
  then show "careful t repo' n' d' w w1" "idle w w1" using law by (simp_all add: careful_def idle_def)
  show "github w1 = github w" using run by (auto simp: on_tiger_def zoom_run)
  assume r: "r = Inr row"
  then show seen: "w_lookup w1 d = Some (row_id row) \<and> w_status w1 (row_id row) = Some (row_status row)" using law by blast
  show "done_with d w \<longleftrightarrow> row_status row \<noteq> lit ''pending''"
    using law r grow [of d] seen unfolding tiger_gate.settled_def by (metis option.inject)
qed

lemma diff_quiet:
  assumes "w_ok w" "wk_diff (attempt_worker diff deps a) repo n w = (r, w1)"
  shows "quiet w w1"
  using assms by (auto simp: attempt_worker_def zoom_run quiet_def w_ok_def)

lemma engine_careful:
  assumes deps: "sound_deps deps" and own: "own_checkpoint a" and ok: "w_ok w"
    and init: "init = initial_state (at_job a) df i"
    and run: "attempt_engine deps a init thread w = (r, w')"
  shows "careful (gd_threshold deps) (st_repo init) (st_pr init) (st_delivery init) w w' \<and>
    (\<forall>st. r = Inr st \<longrightarrow> st_aggregated st \<noteq> None \<longrightarrow> concluded (gd_threshold deps) init w w')"
proof (cases "at_found a")
  case None
  then have "exec_ops deps (at_ops a) init w = (r, w')" using run by (simp add: attempt_engine_def engine_run_def Let_def)
  from exec_careful [OF deps ok this] show ?thesis by (simp add: init initial_state_def)
next
  case (Some tup)
  then have "exec_ops deps (at_ops a) (ct_checkpoint tup) w = (r, w')"
    using run by (simp add: attempt_engine_def engine_run_def Let_def)
  from exec_careful [OF deps ok this] own Some show ?thesis
    by (simp add: init initial_state_def own_checkpoint_def concluded_def)
qed

definition attempt_outcome :: "rat \<Rightarrow> review_job \<Rightarrow> exn + job_result \<Rightarrow> 'g world \<Rightarrow> 'g world \<Rightarrow> bool" where
  "attempt_outcome t j r w w' \<longleftrightarrow> careful t (rj_repo j) (rj_pr j) (rj_delivery j) w w' \<and>
     (if done_with (rj_delivery j) w
      then github w' = github w \<and> (\<forall>x. r = Inr x \<longrightarrow> (\<exists>i dec g. x = Replayed i dec g))
      else \<forall>x. r = Inr x \<longrightarrow> (\<exists>a. x = Reviewed a) \<and> done_with (rj_delivery j) w' \<and>
             deed t (rj_repo j) (rj_pr j) (rj_delivery j) w w')"

text \<open>The part of an attempt after the diff: the graph and its report.\<close>

lemma graph_careful:
  assumes deps: "sound_deps deps" and own: "own_checkpoint a" and ok: "w_ok w" and fresh: "\<not> done_with (rj_delivery (at_job a)) w"
    and run: "bind_io (wk_engine (attempt_worker diff deps a) (initial_state (at_job a) df i) (lit ''review:'' @ rj_delivery (at_job a)))
      (\<lambda>final. case st_aggregated final of
         None \<Rightarrow> raise (RuntimeError (lit ''review graph finished without an aggregate result'')) | Some b \<Rightarrow> ret (Reviewed b)) w = (r, w')"
  shows "careful (gd_threshold deps) (rj_repo (at_job a)) (rj_pr (at_job a)) (rj_delivery (at_job a)) w w' \<and>
    (\<forall>x. r = Inr x \<longrightarrow> (\<exists>b. x = Reviewed b) \<and> done_with (rj_delivery (at_job a)) w' \<and>
       deed (gd_threshold deps) (rj_repo (at_job a)) (rj_pr (at_job a)) (rj_delivery (at_job a)) w w')"
proof -
  let ?j = "at_job a" and ?init = "initial_state (at_job a) df i"
  obtain e w3 where e: "attempt_engine deps a ?init (lit ''review:'' @ rj_delivery ?j) w = (e, w3)" by (metis surj_pair)
  have "wk_engine (attempt_worker diff deps a) = attempt_engine deps a" by (simp add: attempt_worker_def)
  then have "w' = w3" and fin: "\<And>x. r = Inr x \<Longrightarrow> \<exists>b st. x = Reviewed b \<and> e = Inr st \<and> st_aggregated st \<noteq> None"
    using run e by (auto simp: bind_io_def ret_def raise_def split: sum.splits option.splits)
  moreover have "careful (gd_threshold deps) (rj_repo ?j) (rj_pr ?j) (rj_delivery ?j) w w3 \<and>
      (\<forall>st. e = Inr st \<longrightarrow> st_aggregated st \<noteq> None \<longrightarrow> concluded (gd_threshold deps) ?init w w3)"
    using engine_careful [OF deps own ok refl e] by (simp add: initial_state_def)
  ultimately show ?thesis using fresh by (fastforce simp: concluded_def initial_state_def)
qed

lemma attempt_careful:
  assumes deps: "sound_deps deps" and own: "own_checkpoint a" and ok: "w_ok w"
    and run: "run_review (attempt_worker diff deps a) (Inr (at_job a)) w = (r, w')"
  shows "attempt_outcome (gd_threshold deps) (at_job a) r w w'"
proof -
  let ?j = "at_job a" and ?wk = "attempt_worker diff deps a"
  obtain q w1 where u: "on_tiger (upsert_review (rj_repo ?j) (rj_pr ?j) (rj_delivery ?j)) w = (q, w1)" by (metis surj_pair)
  note seen = upsert_seen [OF ok u]
  have up: "wk_upsert ?wk (rj_repo ?j) (rj_pr ?j) (rj_delivery ?j) w = (q, w1)" using u by (simp add: attempt_worker_def)
  consider (failed) e where "q = Inl e" | (replayed) row where "q = Inr row" "row_status row \<noteq> lit ''pending''"
    | (pending) row where "q = Inr row" "row_status row = lit ''pending''" by (cases q) auto
  then show ?thesis
  proof cases
    case failed
    then show ?thesis using run up seen(1,3) by (auto simp: attempt_outcome_def run_review_def bind_io_def of_result_def)
  next
    case replayed
    then show ?thesis using run up seen(1-3) seen(4,5) [OF replayed(1)]
      by (auto simp: attempt_outcome_def run_review_def bind_io_def of_result_def ret_def)
  next
    case pending
    obtain f w2 where f: "wk_diff ?wk (rj_repo ?j) (rj_pr ?j) w1 = (f, w2)" by (metis surj_pair)
    have ok1: "w_ok w1" using seen(1) by (simp add: careful_def)
    have fresh: "\<not> done_with (rj_delivery ?j) w" "\<not> done_with (rj_delivery ?j) w1"
      using pending(2) seen(1-3) seen(4,5) [OF pending(1)] by (auto simp: tiger_gate.settled_def)
    have q2: "quiet w1 w2" by (rule diff_quiet [OF ok1 f])
    note same = quiet_same [OF q2]
    have idle2: "idle w w2" and fresh2: "\<not> done_with (rj_delivery ?j) w2" and ok2: "w_ok w2"
      using same seen(2) fresh by (simp_all add: idle_def tiger_gate.settled_def)
    have C2: "careful t repo n d w w2" for t repo n d
      using careful_trans [OF seen(1) careful_quiet [OF ok1 q2]] seen(2) by blast
    show ?thesis
    proof (cases f)
      case (Inl e)
      then show ?thesis using run up pending f C2 fresh
        by (auto simp: attempt_outcome_def run_review_def bind_io_def of_result_def)
    next
      case (Inr df)
      note graph = graph_careful [OF deps own ok2 fresh2, where diff = diff and df = df and i = "row_id row" and r = r and w' = w']
      have "careful (gd_threshold deps) (rj_repo ?j) (rj_pr ?j) (rj_delivery ?j) w w' \<and>
          (\<forall>x. r = Inr x \<longrightarrow> (\<exists>b. x = Reviewed b) \<and> done_with (rj_delivery ?j) w' \<and>
             deed (gd_threshold deps) (rj_repo ?j) (rj_pr ?j) (rj_delivery ?j) w w')"
        using graph run up pending f Inr careful_trans [OF C2] idle2 deed_idle [OF idle2]
        by (simp add: run_review_def bind_io_def of_result_def)
      then show ?thesis using fresh by (simp add: attempt_outcome_def)
    qed
  qed
qed

lemma attempts_done:
  assumes deps: "sound_deps deps"
  shows "run_attempts diff deps as w = (rs, w') \<Longrightarrow> w_ok w \<Longrightarrow> list_all own_checkpoint as \<Longrightarrow>
    w_ok w' \<and> (done_with d w \<longrightarrow> done_with d w') \<and>
    (\<forall>k x. k < length as \<longrightarrow> rs ! k = Inr x \<longrightarrow> rj_delivery (at_job (as ! k)) = d \<longrightarrow> done_with d w')"
proof (induction as arbitrary: w rs)
  case (Cons a as)
  obtain r w1 where r: "run_review (attempt_worker diff deps a) (Inr (at_job a)) w = (r, w1)" by (metis surj_pair)
  obtain rs1 where rs: "run_attempts diff deps as w1 = (rs1, w')" "rs = r # rs1"
    using Cons.prems(1) r by (auto split: prod.splits)
  have one: "attempt_outcome (gd_threshold deps) (at_job a) r w w1"
    using attempt_careful [OF deps _ Cons.prems(2) r] Cons.prems(3) by simp
  then have ok1: "w_ok w1" and grow: "done_with d' w \<longrightarrow> done_with d' w1" for d'
    by (simp_all add: attempt_outcome_def careful_def)
  have fin: "done_with (rj_delivery (at_job a)) w1" if "r = Inr x" for x
    using one grow [of "rj_delivery (at_job a)"] that unfolding attempt_outcome_def by metis
  have rest: "w_ok w' \<and> (done_with d w1 \<longrightarrow> done_with d w') \<and>
      (\<forall>k x. k < length as \<longrightarrow> rs1 ! k = Inr x \<longrightarrow> rj_delivery (at_job (as ! k)) = d \<longrightarrow> done_with d w')"
    using Cons.IH [OF rs(1) ok1] Cons.prems(3) by simp
  have "done_with d w'" if "k < length (a # as)" "rs ! k = Inr x" "rj_delivery (at_job ((a # as) ! k)) = d" for k x
    using that rs(2) fin rest by (cases k) auto
  with rest grow [of d] show ?case by blast
qed simp

subsection \<open>A concrete job, for evaluation\<close>

definition sample_services :: "(int, unit, unit) job_services" where
  "sample_services = \<lparr>svc_github = 1, svc_retrieval = None, svc_cost = None,
     svc_embed = (None, \<lparr>clock = 0, slept = [], dep = ()\<rparr>), svc_chat = (None, \<lparr>clock = 0, slept = [], dep = ()\<rparr>)\<rparr>"

definition sample_job_world :: "(int, unit, unit) job_world" where
  "sample_job_world = \<lparr>tiger = truth_conn \<lparr>clock = 0, slept = [], dep = \<lparr>script = [], store = empty_db\<rparr>\<rparr>,
     post_log = [], github = sample_services\<rparr>"

text \<open>An attempt that resumes after the specialists, one of which found something critical.\<close>

definition sample_review_job :: review_job where
  "sample_review_job = \<lparr>rj_delivery = lit ''d1'', rj_repo = lit ''o/r'', rj_pr = 7, rj_action = lit ''opened''\<rparr>"

definition sample_checkpoint :: "review_state checkpoint_tuple" where
  "sample_checkpoint = (let c = \<lparr>cf_thread = lit ''review:d1'', cf_ns = None, cf_id = Some (lit ''2'')\<rparr>;
       st = (initial_state sample_review_job (lit ''+x'') 0)
         \<lparr>st_results := dumped [(lit ''docs'', []), (lit ''security'', [sample_finding SECURITY CRITICAL 7 (7 / 8)])]\<rparr>
     in \<lparr>ct_config = c, ct_checkpoint = st, ct_metadata = st, ct_pending = [], ct_parent = None\<rparr>)"

definition sample_attempt :: attempt where
  "sample_attempt = \<lparr>at_job = sample_review_job, at_found = Some sample_checkpoint, at_ops = [Run_aggregate]\<rparr>"

lemma sample_attempt_own: "own_checkpoint sample_attempt"
  by (simp add: own_checkpoint_def sample_attempt_def sample_checkpoint_def initial_state_def Let_def)

definition sample_diff_of :: "pystr \<Rightarrow> int \<Rightarrow> (int, pystr) io" where
  "sample_diff_of repo n = ret (lit ''+x'')"

abbreviation sample_startup :: "exn + (int, unit, unit) job_world graph_deps" where
  "sample_startup \<equiv> startup (\<lambda>_. []) (\<lambda>_. Inr (lit ''Review.'')) (sample_setup None) sample_post"

definition sample_gate_deps :: "(pystr \<Rightarrow> (int, unit, unit) job_world agent option) \<Rightarrow> (int, unit, unit) job_world graph_deps" where
  "sample_gate_deps ag = \<lparr>gd_agents = ag, gd_collab = tiger_collab id id (\<lambda>repo n body evt. on_github (sample_post repo n body evt)),
     gd_threshold = DEFAULT_CONFIDENCE_THRESHOLD\<rparr>"

lemma sample_startup_Inr: "\<exists>ag. sample_startup = Inr (sample_gate_deps ag)"
  by (simp add: startup_def Let_def SecurityAgent_def QualityAgent_def TestsAgent_def DocsAgent_def agent_from_registry_def
      prompt_get_def sample_gate_deps_def sample_setup_def)

definition sample_try :: "(pystr \<Rightarrow> (int, unit, unit) job_world agent option) \<Rightarrow> (int, unit, unit) job_world
    \<Rightarrow> (exn + job_result) \<times> (int, unit, unit) job_world" where
  "sample_try ag = run_review (attempt_worker sample_diff_of (sample_gate_deps ag) sample_attempt) (Inr (at_job sample_attempt))"

definition sample_aggregated :: aggregated where
  "sample_aggregated = \<lparr>ad_review_id = 0, ad_decision = lit ''escalated'', ad_confidence = 7 / 8, ad_github_review_id = None,
     ad_hitl_review_id = Some 2, ad_findings = 1\<rparr>"

lemma sample_try_result: "fst (sample_try ag sample_job_world) = Inr (Reviewed sample_aggregated)"
  by code_simp

lemma sample_job_world_wf: "wf_db (world_db sample_job_world)"
  by (simp add: sample_job_world_def truth_conn_def)

subsection \<open>Properties\<close>

text \<open>C1. The whole review job acts once per delivery, across redeliveries, worker crashes and resumed
  checkpoints: once one attempt at a delivery's job has returned, any later attempt, whatever attempts at this
  or other deliveries ran in between, posts nothing, queues nothing, calls neither GitHub nor a model, and
  returns only as a replay. Each attempt may run the graph's nodes in any order and stop anywhere, and every
  database statement, embedding and model call may fail.\<close>

theorem pipeline_never_acts_again:
  assumes "startup sha read s post = Inr deps" and "wf_db (world_db w)" and "list_all own_checkpoint (a # as)"
    and "run_attempts diff deps as w = (rs, w1)"
    and "k < length as" "rs ! k = Inr x" "rj_delivery (at_job (as ! k)) = rj_delivery (at_job a)"
    and "run_review (attempt_worker diff deps a) (Inr (at_job a)) w1 = (r, w2)"
  shows "post_log w2 = post_log w1 \<and> queued_db (world_db w2) = queued_db (world_db w1) \<and> github w2 = github w1 \<and>
    (case r of Inl e \<Rightarrow> True | Inr y \<Rightarrow> \<exists>i dec g. y = Replayed i dec g)"
proof -
  note deps = startup_sound [OF assms(1)]
  have ok: "w_ok w" using assms(2) by (simp add: w_ok_def)
  have own: "own_checkpoint a" "list_all own_checkpoint as" using assms(3) by simp_all
  have "w_ok w1" and "done_with (rj_delivery (at_job a)) w1"
    using attempts_done [OF deps assms(4) ok own(2)] assms(5-7) by blast+
  with attempt_careful [OF deps own(1) _ assms(8)] show ?thesis
    by (auto simp: attempt_outcome_def careful_def idle_def w_queued_def split: sum.split)
qed

theorem pipeline_never_acts_again_witness:
  "\<exists>deps. sample_startup = Inr deps \<and>
    (let run = run_review (attempt_worker sample_diff_of deps sample_attempt) (Inr (at_job sample_attempt));
         w1 = snd (run sample_job_world); (r, w2) = run w1
     in post_log w2 = post_log w1 \<and> queued_db (world_db w2) = queued_db (world_db w1) \<and> github w2 = github w1 \<and>
       (case r of Inl e \<Rightarrow> True | Inr y \<Rightarrow> \<exists>i dec g. y = Replayed i dec g))"
proof -
  obtain ag where ag: "sample_startup = Inr (sample_gate_deps ag)" using sample_startup_Inr by blast
  let ?run = "run_review (attempt_worker sample_diff_of (sample_gate_deps ag) sample_attempt) (Inr (at_job sample_attempt))"
  let ?w1 = "snd (?run sample_job_world)"
  obtain r w2 where again: "?run ?w1 = (r, w2)" by (metis surj_pair)
  have "run_attempts sample_diff_of (sample_gate_deps ag) [sample_attempt] sample_job_world = ([Inr (Reviewed sample_aggregated)], ?w1)"
    using sample_try_result [of ag] by (simp add: sample_try_def case_prod_beta)
  from pipeline_never_acts_again [OF ag sample_job_world_wf _ this _ _ _ again, of 0] ag again show ?thesis
    by (auto simp: sample_attempt_own Let_def)
qed



end
