(* ===== verification/Liveness.thy ===== *)
theory Liveness
  imports Pipeline
begin

text \<open>
  Progress of the review job. While its services answer, an attempt at a job returns, whatever state earlier
  attempts, crashed or not, have left the database in. \<open>total P m Q\<close> is total correctness of an effect: from
  every world with \<open>P\<close> it returns, to a value and a world with \<open>Q\<close>.
\<close>

definition total :: "('w \<Rightarrow> bool) \<Rightarrow> ('w, 'a) io \<Rightarrow> ('a \<Rightarrow> 'w \<Rightarrow> bool) \<Rightarrow> bool" where
  "total P m Q \<longleftrightarrow> (\<forall>w. P w \<longrightarrow> (\<exists>a w'. m w = (Inr a, w') \<and> Q a w'))"

lemma totalD: "total P m Q \<Longrightarrow> P w \<Longrightarrow> \<exists>a w'. m w = (Inr a, w') \<and> Q a w'"
  by (simp add: total_def)

lemma total_ret [intro]: "(\<And>w. P w \<Longrightarrow> Q a w) \<Longrightarrow> total P (ret a) Q"
  by (simp add: total_def ret_def)

lemma total_bind: "total P m Q \<Longrightarrow> (\<And>a. total (Q a) (f a) R) \<Longrightarrow> total P (bind_io m f) R"
  unfolding total_def bind_io_def by fastforce

lemma total_then: "total P m (\<lambda>_. Q) \<Longrightarrow> total Q k R \<Longrightarrow> total P (then_io m k) R"
  unfolding then_io_def by (rule total_bind)

lemma total_result: "\<exists>a. r = Inr a \<and> (\<forall>w. P w \<longrightarrow> Q a w) \<Longrightarrow> total P (of_result r) Q"
  by (auto simp: total_def of_result_def)

lemma total_pre: "total P m Q \<Longrightarrow> (\<And>w. P' w \<Longrightarrow> P w) \<Longrightarrow> total P' m Q"
  by (auto simp: total_def)

lemma total_zoom:
  assumes "total P m Q" "\<And>w. P' w \<Longrightarrow> P (get w)" "\<And>w a s. P' w \<Longrightarrow> Q a s \<Longrightarrow> Q' a (put s w)"
  shows "total P' (zoom get put m) Q'"
  unfolding total_def
proof (intro allI impI)
  fix w assume w: "P' w"
  obtain a s where "m (get w) = (Inr a, s)" "Q a s" using totalD [OF assms(1) assms(2) [OF w]] by blast
  then show "\<exists>a w'. zoom get put m w = (Inr a, w') \<and> Q' a w'" using assms(3) [OF w] by (simp add: zoom_def)
qed

subsection \<open>Calls that are answered\<close>

definition closed_breaker :: "breaker option \<Rightarrow> bool" where
  "closed_breaker bo \<longleftrightarrow> (case bo of None \<Rightarrow> True | Some b \<Rightarrow> opened_at b = None)"

lemma closed_success [simp]: "closed_breaker (map_option on_success bo)"
  by (cases bo) (simp_all add: closed_breaker_def on_success_def)

lemma guard_answered:
  assumes "closed_breaker bo" "1 \<le> g_attempts cfg" "outcome (f (dep w)) = Inr a"
    and "case g_timeout cfg of None \<Rightarrow> True | Some s \<Rightarrow> dur (f (dep w)) \<le> s"
  shows "guard_call cfg f name (bo, w) =
    (Inr a, (map_option on_success bo, w\<lparr>clock := clock w + dur (f (dep w)), dep := done_dep (f (dep w))\<rparr>))"
proof -
  have "guard_attempt cfg f name w = (Inr a, w\<lparr>clock := clock w + dur (f (dep w)), dep := done_dep (f (dep w))\<rparr>)"
    using assms(3,4) by (cases "g_timeout cfg") (simp_all add: guard_attempt_def await_op_def with_timeout_def Let_def)
  moreover have "(case bo of None \<Rightarrow> Inr () | Some b \<Rightarrow> before_call (clock w) b) = Inr ()"
    using assms(1) by (cases bo) (simp_all add: closed_breaker_def before_call_def state_of_def)
  ultimately show ?thesis using assms(2)
    by (simp add: guard_call_def retry_async_def retry_loop.simps)
qed

definition calm_conn :: "'db conn \<Rightarrow> bool" where
  "calm_conn c \<longleftrightarrow> closed_breaker (fst c) \<and> script (dep (snd c)) = []"

lemma guarded_calm:
  assumes "\<And>db. P db \<Longrightarrow> \<exists>a. stmt db = (Inr a, snd (stmt db)) \<and> Q a (snd (stmt db))"
  shows "total (\<lambda>c. calm_conn c \<and> P (conn_db c)) (guarded name stmt) (\<lambda>a c. calm_conn c \<and> Q a (conn_db c))"
  unfolding total_def
proof (intro allI impI)
  fix c assume c: "calm_conn c \<and> P (conn_db c)"
  then obtain a where a: "stmt (conn_db c) = (Inr a, snd (stmt (conn_db c)))" "Q a (snd (stmt (conn_db c)))" using assms by blast
  have "guarded name stmt (fst c, snd c) = (Inr a, (map_option on_success (fst c),
      (snd c)\<lparr>clock := clock (snd c) + dur (remote_op stmt (dep (snd c))), dep := done_dep (remote_op stmt (dep (snd c)))\<rparr>))"
    unfolding guarded_def using c a(1)
    by (intro guard_answered)
      (auto simp: calm_conn_def remote_op_def db_guard_def DB_COMMAND_TIMEOUT_SECONDS_def guard_defaults_def DEFAULT_ATTEMPTS_def split: prod.split)
  then show "\<exists>a c'. guarded name stmt c = (Inr a, c') \<and> calm_conn c' \<and> Q a (conn_db c')"
    using c a by (cases c) (auto simp: calm_conn_def remote_op_def split: prod.split)
qed

lemma unguarded_calm:
  assumes "\<And>db. P db \<Longrightarrow> \<exists>a. stmt db = (Inr a, snd (stmt db)) \<and> Q a (snd (stmt db))"
  shows "total (\<lambda>c. calm_conn c \<and> P (conn_db c)) (unguarded stmt) (\<lambda>a c. calm_conn c \<and> Q a (conn_db c))"
  unfolding total_def
proof (intro allI impI)
  fix c assume c: "calm_conn c \<and> P (conn_db c)"
  then obtain a where a: "stmt (conn_db c) = (Inr a, snd (stmt (conn_db c)))" "Q a (snd (stmt (conn_db c)))" using assms by blast
  then show "\<exists>a c'. unguarded stmt c = (Inr a, c') \<and> calm_conn c' \<and> Q a (conn_db c')"
    using c by (auto simp: unguarded_def await_op_def Let_def calm_conn_def remote_op_def split: prod.split)
qed

subsection \<open>The specialists return\<close>

text \<open>Services that answer in time: the embeddings endpoint, the model with a refusal or valid drafts, and GitHub.\<close>

definition answers :: "rat \<Rightarrow> ('d, 'a) op \<Rightarrow> ('a \<Rightarrow> bool) \<Rightarrow> bool" where
  "answers limit f good \<longleftrightarrow> (\<forall>d. dur (f d) \<le> limit \<and> (\<exists>a. outcome (f d) = Inr a \<and> good a))"

definition usable :: "completion \<Rightarrow> bool" where
  "usable c \<longleftrightarrow> (case cp_choices c of [] \<Rightarrow> False | None # ps \<Rightarrow> True | Some ds # ps \<Rightarrow> list_all valid_draft ds)"

definition github_up :: "(pystr \<Rightarrow> int \<Rightarrow> pystr \<Rightarrow> pystr \<Rightarrow> ('h, int) io) \<Rightarrow> (pystr \<Rightarrow> int \<Rightarrow> ('h, pystr) io) \<Rightarrow> bool" where
  "github_up post diff \<longleftrightarrow> (\<forall>repo n body evt. total (\<lambda>_. True) (post repo n body evt) (\<lambda>_ _. True)) \<and>
     (\<forall>repo n. total (\<lambda>_. True) (diff repo n) (\<lambda>_ _. True))"

definition calm_agents :: "('e, 'c) agent_world \<Rightarrow> bool" where
  "calm_agents w \<longleftrightarrow> wf_db (store (dep (aw_pool w))) \<and> script (dep (aw_pool w)) = [] \<and> closed_breaker (aw_retrieval w) \<and>
     closed_breaker (aw_cost w) \<and> closed_breaker (fst (aw_embed w)) \<and> closed_breaker (fst (aw_chat w))"

abbreviation returns :: "('w \<Rightarrow> bool) \<Rightarrow> ('w, 'a) io \<Rightarrow> bool" where
  "returns I m \<equiv> total I m (\<lambda>_. I)"

lemma returns_bind: "returns I m \<Longrightarrow> (\<And>a. returns I (f a)) \<Longrightarrow> returns I (bind_io m f)"
  by (rule total_bind)

lemma guard_total:
  assumes "answers limit f good" "g_timeout cfg = Some limit" "1 \<le> g_attempts cfg"
  shows "total (\<lambda>c. closed_breaker (fst c)) (guard_call cfg f name) (\<lambda>a c. closed_breaker (fst c) \<and> good a)"
  unfolding total_def
proof (intro allI impI)
  fix c :: "breaker option \<times> 'a rt" assume c: "closed_breaker (fst c)"
  obtain a where a: "outcome (f (dep (snd c))) = Inr a" "good a" "dur (f (dep (snd c))) \<le> limit"
    using assms(1) unfolding answers_def by blast
  show "\<exists>a c'. guard_call cfg f name c = (Inr a, c') \<and> closed_breaker (fst c') \<and> good a"
    using guard_answered [of "fst c" cfg f "snd c" a name] c a assms(2,3) by simp
qed

lemma emit_returns: "returns calm_agents (world_emit s e)"
proof -
  have "\<exists>a. emit_sql n m e db = (Inr a, snd (emit_sql n m e db)) \<and> wf_db (snd (emit_sql n m e db))" if "wf_db db" for n m db
    using wf_emit [OF that] by (auto simp: emit_sql_def)
  from unguarded_calm [where P = wf_db and Q = "\<lambda>_. wf_db", OF this] show ?thesis
    unfolding world_emit_def sink_emit_def
    by (rule total_zoom) (auto simp: calm_agents_def calm_conn_def closed_breaker_def)
qed

lemma retrieve_returns:
  assumes "\<And>q. answers LLM_TIMEOUT_SECONDS (as_embeddings s q) (\<lambda>_. True)" "0 \<le> k"
  shows "returns calm_agents (world_retrieve s repo query k)"
proof -
  let ?I = "\<lambda>w. closed_breaker (fst (rt_embed w)) \<and> calm_conn (rt_pool w) \<and> wf_db (conn_db (rt_pool w))"
  have emb: "returns ?I (embed (as_embeddings s) query)"
    unfolding embed_def
    by (rule total_zoom [OF guard_total [OF assms(1)]]) (simp_all add: embed_guard_def guard_defaults_def)
  have "\<exists>a. hybrid_sql rk v repo k q db = (Inr a, snd (hybrid_sql rk v repo k q db)) \<and> wf_db (snd (hybrid_sql rk v repo k q db))"
    if "wf_db db" for rk v q db using that assms(2) by (simp add: hybrid_sql_def)
  from guarded_calm [where P = wf_db and Q = "\<lambda>_. wf_db", OF this]
  have db: "returns ?I (zoom rt_pool (\<lambda>c w. w\<lparr>rt_pool := c\<rparr>)
      (guarded (lit ''context_retriever.retrieve'') (hybrid_sql rk v repo k q)))" for rk v q
    by (rule total_zoom) auto
  have "returns ?I (retrieve (as_embeddings s) (as_ranking s) repo query k)"
    unfolding retrieve_def by (rule returns_bind [OF emb db])
  then show ?thesis unfolding world_retrieve_def
    by (rule total_zoom) (auto simp: calm_agents_def calm_conn_def)
qed

lemma parse_returns:
  assumes "\<And>q. answers LLM_TIMEOUT_SECONDS (as_llm s q) usable"
  shows "total calm_agents (zoom aw_chat (\<lambda>c w. w\<lparr>aw_chat := c\<rparr>) (guarded_parse (as_llm s) q)) (\<lambda>c w. calm_agents w \<and> usable c)"
  unfolding guarded_parse_def
  by (rule total_zoom [OF guard_total [OF assms]]) (simp_all add: chat_guard_def guard_defaults_def calm_agents_def)

lemma stamp_valid: "list_all valid_draft ds \<Longrightarrow> \<exists>fs. stamp ty ds = Inr fs \<and> list_all valid_finding fs"
proof (induction ds)
  case (Cons d ds)
  then obtain fs where "stamp ty ds = Inr fs" "list_all valid_finding fs" by auto
  moreover obtain f where "from_draft d ty = Inr f" using from_draft_valid [of d ty] Cons.prems by auto
  ultimately show ?case using from_draft_Inr [of d ty f] by (simp add: stamp_def)
qed (simp add: stamp_def)

text \<open>What a traced review relies on to return: an invariant under which its sink, retriever and model answer.\<close>

locale answering_agent =
  fixes a :: "'w agent"
    and I :: "'w \<Rightarrow> bool"
  assumes emit_answers: "returns I (ag_emit a e)"
    and retrieve_answers: "returns I (agent_retrieve a d)"
    and parse_answers: "total I (ag_parse a q) (\<lambda>c w. I w \<and> usable c)"
    and no_budget: "ag_budget a = None"
begin

lemma clock_answers: "returns I (clock_now a)"
  by (simp add: total_def clock_now_def)

lemma parsed_returns:
  "total (\<lambda>w. I w \<and> usable c) (bind_io (of_result (first_parsed c)) (\<lambda>p. case p of None \<Rightarrow> ret (lit ''empty'', [])
       | Some ds \<Rightarrow> bind_io (of_result (stamp (ag_type a) ds)) (\<lambda>fs. ret (lit ''ok'', fs))))
    (\<lambda>(out, fs) w. I w \<and> list_all valid_finding fs)"
proof (cases "usable c")
  case True
  then obtain p ps where c: "cp_choices c = p # ps" by (auto simp: usable_def split: list.splits)
  show ?thesis
  proof (cases p)
    case (Some ds)
    then have "list_all valid_draft ds" using True c by (simp add: usable_def)
    then obtain fs where "stamp (ag_type a) ds = Inr fs" "list_all valid_finding fs" using stamp_valid by blast
    then show ?thesis using c Some by (simp add: total_def first_parsed_def of_result_def bind_io_def ret_def)
  qed (use c in \<open>simp add: total_def first_parsed_def of_result_def bind_io_def ret_def\<close>)
qed (simp add: total_def)

lemma body_returns: "total I (span_body a d i) (\<lambda>(out, fs) w. I w \<and> list_all valid_finding fs)"
proof -
  have parse: "total I (parse_completion a d g) (\<lambda>c w. I w \<and> usable c)" for g
    unfolding parse_completion_def by (rule parse_answers)
  have kept: "returns (\<lambda>w. I w \<and> usable c) (clock_now a)" "returns (\<lambda>w. I w \<and> usable c) (ag_emit a e)" for c e
    using clock_answers emit_answers [of e] by (auto simp: total_def)
  show ?thesis unfolding span_body_def
    by (rule total_bind [OF clock_answers] total_bind [OF retrieve_answers] total_bind [OF emit_answers]
        total_bind [OF parse] total_bind [OF kept(1)] total_bind [OF kept(2)] parsed_returns)+
qed

lemma span_returns: "total I (in_span a i t0 (span_body a d i)) (\<lambda>fs w. I w \<and> list_all valid_finding fs)"
  unfolding total_def
proof (intro allI impI)
  fix w assume w: "I w"
  obtain out fs w1 where b: "span_body a d i w = (Inr (out, fs), w1)" "I w1" "list_all valid_finding fs"
    using totalD [OF body_returns w, of d i] by auto
  obtain u w2 where "ag_emit a (end_event a i out (latency_ms t0 (ag_clock a w1))) w1 = (Inr u, w2)" "I w2"
    using totalD [OF emit_answers b(2)] by blast
  then show "\<exists>fs w'. in_span a i t0 (span_body a d i) w = (Inr fs, w') \<and> I w' \<and> list_all valid_finding fs"
    using b by (simp add: in_span_def)
qed

lemma review_returns: "total I (review a d (Some i)) (\<lambda>fs w. I w \<and> list_all valid_finding fs)"
proof -
  have "returns I (case ag_budget a of None \<Rightarrow> ret () | Some check \<Rightarrow> check (agent_value (ag_type a)))"
    by (simp add: no_budget total_ret)
  note budget = total_bind [OF this]
  show ?thesis unfolding review_def option.case
    by (rule budget total_bind [OF emit_answers] total_bind [OF clock_answers] span_returns)+
qed

end

text \<open>The specialists of a worker whose services are up.\<close>

definition calm :: "('e, 'c) agent_setup \<Rightarrow> ('h, 'e, 'c) job_world \<Rightarrow> bool" where
  "calm s w \<longleftrightarrow> (\<forall>q. answers LLM_TIMEOUT_SECONDS (as_embeddings s q) (\<lambda>_. True)) \<and>
     (\<forall>q. answers LLM_TIMEOUT_SECONDS (as_llm s q) usable) \<and> closed_breaker (fst (tiger w)) \<and> calm_agents (agents_of w)"

lemma on_agents_returns:
  assumes "(\<forall>q. answers LLM_TIMEOUT_SECONDS (as_embeddings s q) (\<lambda>_. True)) \<Longrightarrow>
      (\<forall>q. answers LLM_TIMEOUT_SECONDS (as_llm s q) usable) \<Longrightarrow> total calm_agents m (\<lambda>a w. calm_agents w \<and> good a)"
  shows "total (calm s) (on_agents m) (\<lambda>a w. calm s w \<and> good a)"
proof (cases "(\<forall>q. answers LLM_TIMEOUT_SECONDS (as_embeddings s q) (\<lambda>_. True)) \<and> (\<forall>q. answers LLM_TIMEOUT_SECONDS (as_llm s q) usable)")
  case True
  then have "total calm_agents m (\<lambda>a w. calm_agents w \<and> good a)" using assms by blast
  then show ?thesis unfolding on_agents_def
    by (rule total_zoom) (auto simp: calm_def calm_agents_def put_agents_def agents_of_def)
qed (auto simp: total_def calm_def)

interpretation answering: answering_agent "in_job (specialist (s\<lparr>as_cap := None\<rparr>) ty vp)" "calm s"
  for s :: "('e, 'c) agent_setup" and ty vp
proof unfold_locales
  note lift = on_agents_returns [where s = s and good = "\<lambda>_. True", simplified]
  show "returns (calm s) (ag_emit (in_job (specialist (s\<lparr>as_cap := None\<rparr>) ty vp)) e)" for e
    using lift [OF emit_returns [of "s\<lparr>as_cap := None\<rparr>"]] by (simp add: in_job_def specialist_def)
  show "returns (calm s) (agent_retrieve (in_job (specialist (s\<lparr>as_cap := None\<rparr>) ty vp)) d)" for d
    using lift [OF retrieve_returns [of s DEFAULT_GROUNDING_K]]
    by (simp add: in_job_def specialist_def agent_retrieve_def DEFAULT_GROUNDING_K_def world_retrieve_def)
  show "total (calm s) (ag_parse (in_job (specialist (s\<lparr>as_cap := None\<rparr>) ty vp)) q) (\<lambda>c w. calm s w \<and> usable c)" for q
    using on_agents_returns [OF parse_returns, of s s q] by (simp add: in_job_def specialist_def)
  show "ag_budget (in_job (specialist (s\<lparr>as_cap := None\<rparr>) ty vp)) = None" by (simp add: in_job_def specialist_def)
qed

subsection \<open>The gate returns\<close>

definition good_stmt :: "(tiger_db \<Rightarrow> bool) \<Rightarrow> (tiger_db, 'a) stmt \<Rightarrow> ('a \<Rightarrow> tiger_db \<Rightarrow> bool) \<Rightarrow> bool" where
  "good_stmt P stmt Q \<longleftrightarrow> (\<forall>db. wf_db db \<longrightarrow> P db \<longrightarrow>
     (\<exists>a. stmt db = (Inr a, snd (stmt db)) \<and> wf_db (snd (stmt db)) \<and> Q a (snd (stmt db))))"

lemma on_tiger_calm:
  assumes "good_stmt P stmt Q"
  shows "total (\<lambda>w. calm s w \<and> P (world_db w)) (on_tiger (guarded name stmt)) (\<lambda>a w. calm s w \<and> Q a (world_db w))"
    and "total (\<lambda>w. calm s w \<and> P (world_db w)) (on_tiger (unguarded stmt)) (\<lambda>a w. calm s w \<and> Q a (world_db w))"
proof -
  have "\<exists>a. stmt db = (Inr a, snd (stmt db)) \<and> wf_db (snd (stmt db)) \<and> Q a (snd (stmt db))" if "wf_db db \<and> P db" for db
    using assms that by (simp add: good_stmt_def)
  note calls = guarded_calm [where P = "\<lambda>db. wf_db db \<and> P db" and Q = "\<lambda>a db. wf_db db \<and> Q a db", OF this]
    unguarded_calm [where P = "\<lambda>db. wf_db db \<and> P db" and Q = "\<lambda>a db. wf_db db \<and> Q a db", OF this]
  show "total (\<lambda>w. calm s w \<and> P (world_db w)) (on_tiger (guarded name stmt)) (\<lambda>a w. calm s w \<and> Q a (world_db w))"
    unfolding on_tiger_def by (rule total_zoom [OF calls(1)]) (auto simp: calm_def calm_agents_def agents_of_def calm_conn_def)
  show "total (\<lambda>w. calm s w \<and> P (world_db w)) (on_tiger (unguarded stmt)) (\<lambda>a w. calm s w \<and> Q a (world_db w))"
    unfolding on_tiger_def by (rule total_zoom [OF calls(2)]) (auto simp: calm_def calm_agents_def agents_of_def calm_conn_def)
qed

definition knows :: "uuid \<Rightarrow> tiger_db \<Rightarrow> bool" where
  "knows i db \<longleftrightarrow> i \<in> pr_id ` set (reviews db)"

abbreviation ready :: "('e, 'c) agent_setup \<Rightarrow> uuid \<Rightarrow> ('h, 'e, 'c) job_world \<Rightarrow> bool" where
  "ready s i w \<equiv> calm s w \<and> knows i (world_db w)"

lemma knows_update: "(\<And>r. pr_id (g r) = pr_id r) \<Longrightarrow> knows i (update_reviews p g db) = knows i db"
proof -
  assume "\<And>r. pr_id (g r) = pr_id r"
  then have "(\<lambda>r. pr_id (if p r then g r else r)) = pr_id" by auto
  then show ?thesis by (simp only: knows_def update_reviews_simps list.set_map image_image)
qed

lemma knows_found: "find_delivery d db = Some r \<Longrightarrow> knows (pr_id r) db"
  using find_delivery_id by (auto simp: knows_def)

lemma statements_good:
  "good_stmt (\<lambda>_. True) (upsert_review_sql repo n d) (\<lambda>row. knows (row_id row))"
  "good_stmt (knows i) (insert_findings_sql (map (finding_row num43 i) fs)) (\<lambda>_. knows i)"
  "good_stmt (knows i) (emit_sql num106 num43 e) (\<lambda>_. knows i)"
  "good_stmt (knows i) (enqueue_sql i reason) (\<lambda>_. knows i)"
  "good_stmt (knows i) (mark_posted_sql num43 i gid c) (\<lambda>_. knows i)"
  "good_stmt (knows i) (set_status_sql num43 i st c) (\<lambda>_. knows i)"
proof -
  show "good_stmt (\<lambda>_. True) (upsert_review_sql repo n d) (\<lambda>row. knows (row_id row))"
    using wf_upsert [of _ repo n d] knows_found [of d]
    by (auto simp: good_stmt_def upsert_review_sql_def row_of_def Let_def knows_update split: option.splits) (simp add: knows_def)
  show "good_stmt (knows i) (insert_findings_sql (map (finding_row num43 i) fs)) (\<lambda>_. knows i)"
    unfolding good_stmt_def
  proof (intro allI impI)
    fix db assume db: "wf_db db" "knows i db"
    then have "insert_findings_sql (map (finding_row num43 i) fs) db =
        (Inr (), snd (insert_findings_sql (map (finding_row num43 i) fs) db))"
      and "knows i (snd (insert_findings_sql (map (finding_row num43 i) fs) db))"
      by (simp_all add: insert_findings_sql_def knows_def finding_row_def)
    with wf_insert_findings [OF db(1), of "map (finding_row num43 i) fs"]
    show "\<exists>a. insert_findings_sql (map (finding_row num43 i) fs) db = (Inr a, snd (insert_findings_sql (map (finding_row num43 i) fs) db)) \<and>
        wf_db (snd (insert_findings_sql (map (finding_row num43 i) fs) db)) \<and>
        knows i (snd (insert_findings_sql (map (finding_row num43 i) fs) db))" by blast
  qed
  show "good_stmt (knows i) (emit_sql num106 num43 e) (\<lambda>_. knows i)"
    using wf_emit by (auto simp: good_stmt_def emit_sql_def knows_def)
  show "good_stmt (knows i) (enqueue_sql i reason) (\<lambda>_. knows i)"
    unfolding good_stmt_def
  proof (intro allI impI)
    fix db assume db: "wf_db db" "knows i db"
    with wf_enqueue [OF db(1), of i reason]
    show "\<exists>a. enqueue_sql i reason db = (Inr a, snd (enqueue_sql i reason db)) \<and> wf_db (snd (enqueue_sql i reason db)) \<and>
        knows i (snd (enqueue_sql i reason db))" by (simp add: enqueue_sql_def knows_def)
  qed
  show "good_stmt (knows i) (mark_posted_sql num43 i gid c) (\<lambda>_. knows i)"
    using wf_mark_posted by (auto simp: good_stmt_def mark_posted_sql_def knows_update)
  show "good_stmt (knows i) (set_status_sql num43 i st c) (\<lambda>_. knows i)"
    using wf_set_status by (auto simp: good_stmt_def set_status_sql_def knows_update)
qed

text \<open>The collaborators of a worker whose GitHub answers.\<close>

lemma collab_returns:
  fixes num43 num106 :: "rat \<Rightarrow> rat" and s :: "('e, 'c) agent_setup"
    and post :: "pystr \<Rightarrow> int \<Rightarrow> pystr \<Rightarrow> pystr \<Rightarrow> ('h, int) io"
  assumes "\<And>repo n body evt. total (\<lambda>_. True) (post repo n body evt) (\<lambda>_ _. True)"
  defines "co \<equiv> tiger_collab num43 num106 (\<lambda>repo n body evt. on_github (post repo n body evt))"
  shows "total (calm s) (co_upsert_review co repo n d) (\<lambda>row. ready s (row_id row))"
    and "returns (ready s i) (co_insert_findings co i fs)" and "returns (ready s i) (co_emit co e)"
    and "returns (ready s i) (co_post_review co repo n body evt)" and "returns (ready s i) (co_mark_posted co i gid c)"
    and "returns (ready s i) (co_set_status co i st c)" and "returns (ready s i) (co_enqueue co i reason)"
proof -
  note calls = on_tiger_calm [where s = s]
  show "total (calm s) (co_upsert_review co repo n d) (\<lambda>row. ready s (row_id row))"
    using calls(1) [OF statements_good(1)] by (simp add: co_def tiger_collab_def upsert_review_def ts_run_def)
  show "returns (ready s i) (co_insert_findings co i fs)"
  proof (cases "fs = []")
    case True
    then show ?thesis by (simp add: co_def tiger_collab_def insert_findings_def on_tiger_def total_def zoom_def ret_def)
  next
    case False
    then show ?thesis using calls(1) [OF statements_good(2)] by (simp add: co_def tiger_collab_def insert_findings_def ts_run_def)
  qed
  show "returns (ready s i) (co_emit co e)"
    using calls(2) [OF statements_good(3)] by (simp add: co_def tiger_collab_def sink_emit_def)
  show "returns (ready s i) (co_enqueue co i reason)"
    using calls(2) [OF statements_good(4)] by (simp add: co_def tiger_collab_def hq_enqueue_def)
  show "returns (ready s i) (co_mark_posted co i gid c)"
    using calls(1) [OF statements_good(5)] by (simp add: co_def tiger_collab_def mark_posted_def ts_run_def)
  show "returns (ready s i) (co_set_status co i st c)"
    using calls(1) [OF statements_good(6)] by (simp add: co_def tiger_collab_def set_status_def ts_run_def)
  show "returns (ready s i) (co_post_review co repo n body evt)"
    unfolding total_def
  proof (intro allI impI)
    fix w :: "('h, 'e, 'c) job_world" assume w: "ready s i w"
    obtain a h where "post repo n body evt (svc_github (github w)) = (Inr a, h)" using totalD [OF assms(1)] by blast
    with w show "\<exists>a w'. co_post_review co repo n body evt w = (Inr a, w') \<and> ready s i w'"
      by (simp add: co_def tiger_collab_def logged_post_def on_github_def zoom_def calm_def calm_agents_def agents_of_def)
  qed
qed

lemma aggregate_returns:
  fixes s :: "('e, 'c) agent_setup" and post :: "pystr \<Rightarrow> int \<Rightarrow> pystr \<Rightarrow> pystr \<Rightarrow> ('h, int) io"
  assumes "\<And>repo n body evt. total (\<lambda>_. True) (post repo n body evt) (\<lambda>_ _. True)"
  shows "returns (calm s) (aggregate (tiger_collab num43 num106 (\<lambda>repo n body evt. on_github (post repo n body evt))) t repo n d fss)"
proof -
  let ?co = "tiger_collab num43 num106 (\<lambda>repo n body evt. on_github (post repo n body evt))"
  note co = collab_returns [OF assms, where s = s and ?num43.0 = num43 and ?num106.0 = num106]
  have done_ret: "total (ready s i) (ret x) (\<lambda>_. calm s)" for i and x :: aggregate_result by (rule total_ret) simp
  have act: "total (ready s i) (tiger_gate.act num43 num106 (\<lambda>repo n body evt. on_github (post repo n body evt)) t repo n i fs) (\<lambda>_. calm s)" for i fs
    unfolding tiger_gate.act_def Let_def
    by (cases "decide fs (overall_confidence fs) t = AUTO_POST")
      (simp_all, (rule total_bind [OF co(4)] total_bind [OF co(7)] total_then [OF co(5)] total_then [OF co(6)] done_ret)+)
  have "total (ready s i) (tiger_gate.gate num43 num106 (\<lambda>repo n body evt. on_github (post repo n body evt)) t repo n i fs) (\<lambda>_. calm s)" for i fs
    unfolding tiger_gate.gate_def by (rule total_then [OF co(2)] total_then [OF co(3)] act)+
  then show ?thesis unfolding tiger_gate.aggregate_gate
    by (intro total_bind [OF co(1)]) (simp add: done_ret)
qed

subsection \<open>The job returns\<close>

definition good_entry :: "pystr \<times> finding_json list \<Rightarrow> bool" where
  "good_entry e = (case map_result validate_finding (snd e) of Inl x \<Rightarrow> False | Inr fs \<Rightarrow> True)"

definition good_state :: "review_state \<Rightarrow> bool" where
  "good_state st \<longleftrightarrow> st_review_id st \<noteq> None \<and> list_all good_entry (st_results st)"

lemma by_agent_good: "list_all good_entry es \<Longrightarrow> \<exists>m'. by_agent m es = Inr m'"
  by (induction es arbitrary: m) (auto simp: good_entry_def split: sum.splits)

lemma startup_agents:
  assumes "startup sha read s post = Inr deps" "n \<in> set SPECIALIST_NAMES"
  shows "\<exists>ty vp. gd_agents deps n = Some (in_job (specialist (s\<lparr>as_cap := None\<rparr>) ty vp))"
  using assms
  by (auto simp: startup_def Let_def SecurityAgent_def QualityAgent_def TestsAgent_def DocsAgent_def agent_from_registry_def
      SPECIALIST_NAMES_def lit_def split: sum.splits) blast+

lemma specialist_returns:
  assumes "startup sha read s post = Inr deps" "n \<in> set SPECIALIST_NAMES" "good_state st"
  shows "total (calm s) (run_op_node deps (Run_specialist n) st) (\<lambda>st' w. calm s w \<and> good_state st')"
proof -
  obtain ty vp where a: "gd_agents deps n = Some (in_job (specialist (s\<lparr>as_cap := None\<rparr>) ty vp))"
    using startup_agents [OF assms(1,2)] by blast
  obtain i where i: "st_review_id st = Some i" using assms(3) by (auto simp: good_state_def)
  have entry: "good_entry (n, map dump_finding fs)" if "list_all valid_finding fs" for fs
    using validate_dumps [OF that] by (simp add: good_entry_def)
  have "total (\<lambda>w. calm s w \<and> list_all valid_finding fs)
      (bind_io (ret [(n, map dump_finding fs)]) (\<lambda>r. ret (st\<lparr>st_results := st_results st @ r\<rparr>)))
      (\<lambda>st' w. calm s w \<and> good_state st')" for fs
    using assms(3) entry [of fs] by (auto simp: total_def ret_def good_state_def)
  then show ?thesis
    unfolding run_op_node_def graph_op.case specialist_node_def a option.case i bind_assoc
    by (rule total_bind [OF answering.review_returns])
qed

lemma aggregate_node_returns:
  assumes deps: "startup sha read s post = Inr deps" and st: "good_state st"
    and post: "\<And>repo n body evt. total (\<lambda>_. True) (post repo n body evt) (\<lambda>_ _. True)"
  shows "total (calm s) (run_op_node deps Run_aggregate st) (\<lambda>st' w. calm s w \<and> st_aggregated st' \<noteq> None)"
proof -
  obtain m where m: "by_agent Map.empty (st_results st) = Inr m" using by_agent_good st by (auto simp: good_state_def)
  have "total (calm s) (bind_io (ret (aggregated_of r)) (\<lambda>a. ret (st\<lparr>st_aggregated := Some a\<rparr>)))
      (\<lambda>st' w. calm s w \<and> st_aggregated st' \<noteq> None)" for r
    by (simp add: total_def ret_def)
  then have "total (calm s) (bind_io (of_result (Inr m)) (\<lambda>m. bind_io (aggregate (gd_collab deps) (gd_threshold deps) (st_repo st) (st_pr st)
      (st_delivery st) (findings_by_agent m)) (\<lambda>r. bind_io (ret (aggregated_of r)) (\<lambda>a. ret (st\<lparr>st_aggregated := Some a\<rparr>)))))
      (\<lambda>st' w. calm s w \<and> st_aggregated st' \<noteq> None)"
    unfolding startup_deps(2) [OF deps]
    by (intro total_bind [OF total_result [of "Inr m" "calm s" "\<lambda>_. calm s"]] total_bind [OF aggregate_returns [OF post]]) auto
  then show ?thesis
    unfolding run_op_node_def graph_op.case aggregate_node_def m bind_assoc .
qed

lemma exec_returns:
  assumes deps: "startup sha read s post = Inr deps"
    and post: "\<And>repo n body evt. total (\<lambda>_. True) (post repo n body evt) (\<lambda>_ _. True)"
  shows "set ns \<subseteq> set SPECIALIST_NAMES \<Longrightarrow> good_state st \<Longrightarrow>
    total (calm s) (exec_ops deps (map Run_specialist ns @ [Run_aggregate]) st) (\<lambda>st' w. calm s w \<and> st_aggregated st' \<noteq> None)"
proof (induction ns arbitrary: st)
  case Nil
  have "exec_ops deps [] = ret" by (rule ext) simp
  then show ?case using aggregate_node_returns [OF deps Nil(2) post] by simp
next
  case (Cons n ns)
  have n: "n \<in> set SPECIALIST_NAMES" using Cons.prems(1) by simp
  have "total (\<lambda>w. calm s w \<and> good_state st') (exec_ops deps (map Run_specialist ns @ [Run_aggregate]) st')
      (\<lambda>st' w. calm s w \<and> st_aggregated st' \<noteq> None)" for st'
    using Cons.IH [of st'] Cons.prems(1) by (cases "good_state st'") (auto simp: total_def)
  then show ?case unfolding list.map append_Cons exec_ops.simps
    by (rule total_bind [OF specialist_returns [OF deps n Cons.prems(2)]])
qed

lemma fetch_returns:
  fixes s :: "('e, 'c) agent_setup" and diff :: "pystr \<Rightarrow> int \<Rightarrow> ('h, pystr) io"
  assumes "github_up post diff"
  shows "total (calm s) (wk_diff (attempt_worker diff deps a) repo n) (\<lambda>_. calm s)"
  unfolding total_def
proof (intro allI impI)
  fix w :: "('h, 'e, 'c) job_world" assume w: "calm s w"
  obtain df h where "diff repo n (svc_github (github w)) = (Inr df, h)" using assms totalD unfolding github_up_def by metis
  with w show "\<exists>df w'. wk_diff (attempt_worker diff deps a) repo n w = (Inr df, w') \<and> calm s w'"
    by (simp add: attempt_worker_def on_github_def zoom_def calm_def calm_agents_def agents_of_def)
qed

lemma engine_returns:
  assumes deps: "startup sha read s post = Inr deps" and post: "\<And>repo n body evt. total (\<lambda>_. True) (post repo n body evt) (\<lambda>_ _. True)"
    and ops: "at_ops a = map Run_specialist ns @ [Run_aggregate]" "set ns \<subseteq> set SPECIALIST_NAMES"
    and found: "case at_found a of None \<Rightarrow> True | Some t \<Rightarrow> good_state (ct_checkpoint t)"
  shows "total (calm s) (wk_engine (attempt_worker diff deps a) (initial_state j df i) thread)
    (\<lambda>st w. calm s w \<and> st_aggregated st \<noteq> None)"
proof (cases "at_found a")
  case None
  then show ?thesis
    using exec_returns [OF deps post ops(2), where st = "initial_state j df i"]
    by (simp add: attempt_worker_def attempt_engine_def engine_run_def ops(1) good_state_def initial_state_def Let_def)
next
  case (Some t)
  then show ?thesis
    using exec_returns [OF deps post ops(2), where st = "ct_checkpoint t"] found
    by (simp add: attempt_worker_def attempt_engine_def engine_run_def ops(1) Let_def)
qed

definition report :: "review_state \<Rightarrow> ('w, job_result) io" where
  "report final = (case st_aggregated final of
     None \<Rightarrow> raise (RuntimeError (lit ''review graph finished without an aggregate result'')) | Some a \<Rightarrow> ret (Reviewed a))"

lemma report_returns: "total (\<lambda>w. P w \<and> st_aggregated st \<noteq> None) (report st) (\<lambda>_. P)"
  by (cases "st_aggregated st") (auto simp: report_def total_def ret_def)

lemma run_review_job:
  "run_review wk (Inr j) = bind_io (wk_upsert wk (rj_repo j) (rj_pr j) (rj_delivery j)) (\<lambda>row.
     if row_status row \<noteq> lit ''pending'' then
       ret (Replayed (row_id row)
         (case map_of PRIOR_STATUS_DECISION (row_status row) of None \<Rightarrow> lit ''queued'' | Some d \<Rightarrow> d)
         (row_github_review_id row))
     else
       bind_io (wk_diff wk (rj_repo j) (rj_pr j)) (\<lambda>diff.
       bind_io (wk_engine wk (initial_state j diff (row_id row)) (lit ''review:'' @ rj_delivery j)) report))"
  unfolding report_def [abs_def] by (rule ext) (simp add: run_review_def of_result_def [abs_def] bind_io_def)

lemma total_if_ret: "total P m (\<lambda>_. P) \<Longrightarrow> total P (if c then ret x else m) (\<lambda>_. P)"
  by (simp add: total_def ret_def)

lemma attempt_returns:
  fixes s :: "('e, 'c) agent_setup" and post :: "pystr \<Rightarrow> int \<Rightarrow> pystr \<Rightarrow> pystr \<Rightarrow> ('h, int) io"
  assumes deps: "startup sha read s post = Inr deps" and up: "github_up post diff"
    and ops: "at_ops a = map Run_specialist ns @ [Run_aggregate]" "set ns \<subseteq> set SPECIALIST_NAMES"
    and found: "case at_found a of None \<Rightarrow> True | Some t \<Rightarrow> good_state (ct_checkpoint t)"
  shows "total (calm s) (run_review (attempt_worker diff deps a) (Inr (at_job a))) (\<lambda>_. calm s)"
proof -
  have post: "total (\<lambda>_. True) (post repo n body evt) (\<lambda>_ _. True)" for repo n body evt using up by (simp add: github_up_def)
  have upsert: "total (calm s) (wk_upsert (attempt_worker diff deps a) repo n d) (\<lambda>row. calm s)" for repo n d
    using collab_returns(1) [OF post, where s = s and repo = repo and n = n and d = d]
    by (auto simp: attempt_worker_def tiger_collab_def total_def)
  show ?thesis unfolding run_review_job
    by (rule total_bind [OF upsert] total_if_ret total_bind [OF fetch_returns [OF up]]
        total_bind [OF engine_returns [OF deps post ops found]] report_returns)+
qed

subsection \<open>Progress\<close>



end
