(* ===== verification/HitlApi.thy ===== *)
theory HitlApi
  imports AggregateStep
begin

text \<open>
  \<open>api/hitl.py\<close>: the endpoints that resolve the approval queue. \<open>approve\<close> and \<open>reject\<close> are the handlers;
  \<open>advance\<close> splits a handler at its \<open>await\<close>s, and \<open>hitl_step\<close> interleaves any number of concurrent
  requests, for the claim that a review is posted at most once.
\<close>

record resolve_response =
  rp_review_id :: uuid
  rp_status :: pystr
  rp_github_review_id :: "int option"

definition list_pending_items :: "('g world, pending_hitl_item list) io" where
  "list_pending_items = on_tiger hq_list_pending"

definition already_resolved :: exn where
  "already_resolved = HTTPException 409 (lit ''already resolved'')"

definition review_not_found :: exn where
  "review_not_found = HTTPException 404 (lit ''review not found'')"

definition stored_confidence :: "review_with_findings \<Rightarrow> rat" where
  "stored_confidence rv = (case rf_confidence rv of None \<Rightarrow> 0 | Some c \<Rightarrow> c)"

definition approve :: "(rat \<Rightarrow> rat) \<Rightarrow> (pystr \<Rightarrow> int \<Rightarrow> pystr \<Rightarrow> pystr \<Rightarrow> ('g, int) io)
    \<Rightarrow> uuid \<Rightarrow> pystr option \<Rightarrow> ('g world, resolve_response) io" where
  "approve num43 post i nt =
     bind_io (on_tiger (hq_resolve i (lit ''resolved'') nt)) (\<lambda>claimed.
       if \<not> claimed then raise already_resolved
       else bind_io (on_tiger (get_review_with_findings i)) (\<lambda>review.
         case review of None \<Rightarrow> raise review_not_found
         | Some rv \<Rightarrow>
             bind_io (logged_post post (rf_repo rv) (rf_pr_number rv) (render_review_body (rf_findings rv))
                        (review_event (rf_findings rv))) (\<lambda>gid.
               then_io (on_tiger (mark_posted num43 i gid (stored_confidence rv)))
                 (ret \<lparr>rp_review_id = i, rp_status = lit ''resolved'', rp_github_review_id = Some gid\<rparr>))))"

definition reject :: "uuid \<Rightarrow> pystr option \<Rightarrow> ('g world, resolve_response) io" where
  "reject i nt =
     bind_io (on_tiger (hq_resolve i (lit ''dismissed'') nt)) (\<lambda>claimed.
       if \<not> claimed then raise already_resolved
       else ret \<lparr>rp_review_id = i, rp_status = lit ''dismissed'', rp_github_review_id = None\<rparr>)"

subsection \<open>Handlers, split at their awaits\<close>

datatype req_phase = Start | Claimed | Got review_with_findings | Sent int review_with_findings
  | Finished "exn + resolve_response"

record request =
  rq_review :: uuid
  rq_approve :: bool
  rq_note :: "pystr option"
  rq_phase :: req_phase
  rq_claimed :: bool
  rq_posted :: bool

text \<open>\<open>rq_claimed\<close> and \<open>rq_posted\<close> record what the request has done: won the claim, called GitHub.\<close>

definition new_request :: "bool \<Rightarrow> uuid \<Rightarrow> pystr option \<Rightarrow> request" where
  "new_request ap i nt = \<lparr>rq_review = i, rq_approve = ap, rq_note = nt, rq_phase = Start,
     rq_claimed = False, rq_posted = False\<rparr>"

definition claim_status :: "request \<Rightarrow> pystr" where
  "claim_status rq = (if rq_approve rq then lit ''resolved'' else lit ''dismissed'')"

definition advance :: "(rat \<Rightarrow> rat) \<Rightarrow> (pystr \<Rightarrow> int \<Rightarrow> pystr \<Rightarrow> pystr \<Rightarrow> ('g, int) io)
    \<Rightarrow> request \<Rightarrow> 'g world \<Rightarrow> request \<times> 'g world" where
  "advance num43 post rq w = (case rq_phase rq of
     Start \<Rightarrow> (case on_tiger (hq_resolve (rq_review rq) (claim_status rq) (rq_note rq)) w of
         (Inl e, w') \<Rightarrow> (rq\<lparr>rq_phase := Finished (Inl e)\<rparr>, w')
       | (Inr claimed, w') \<Rightarrow>
           (if \<not> claimed then (rq\<lparr>rq_phase := Finished (Inl already_resolved)\<rparr>, w')
            else if rq_approve rq then (rq\<lparr>rq_phase := Claimed, rq_claimed := True\<rparr>, w')
            else (rq\<lparr>rq_phase := Finished (Inr \<lparr>rp_review_id = rq_review rq, rp_status = lit ''dismissed'',
                       rp_github_review_id = None\<rparr>), rq_claimed := True\<rparr>, w')))
   | Claimed \<Rightarrow> (case on_tiger (get_review_with_findings (rq_review rq)) w of
         (Inl e, w') \<Rightarrow> (rq\<lparr>rq_phase := Finished (Inl e)\<rparr>, w')
       | (Inr None, w') \<Rightarrow> (rq\<lparr>rq_phase := Finished (Inl review_not_found)\<rparr>, w')
       | (Inr (Some rv), w') \<Rightarrow> (rq\<lparr>rq_phase := Got rv\<rparr>, w'))
   | Got rv \<Rightarrow> (case logged_post post (rf_repo rv) (rf_pr_number rv) (render_review_body (rf_findings rv))
                       (review_event (rf_findings rv)) w of
         (Inl e, w') \<Rightarrow> (rq\<lparr>rq_phase := Finished (Inl e), rq_posted := True\<rparr>, w')
       | (Inr gid, w') \<Rightarrow> (rq\<lparr>rq_phase := Sent gid rv, rq_posted := True\<rparr>, w'))
   | Sent gid rv \<Rightarrow> (case on_tiger (mark_posted num43 (rq_review rq) gid (stored_confidence rv)) w of
         (Inl e, w') \<Rightarrow> (rq\<lparr>rq_phase := Finished (Inl e)\<rparr>, w')
       | (Inr _, w') \<Rightarrow> (rq\<lparr>rq_phase := Finished (Inr \<lparr>rp_review_id = rq_review rq,
             rp_status = lit ''resolved'', rp_github_review_id = Some gid\<rparr>)\<rparr>, w'))
   | Finished r \<Rightarrow> (rq, w))"

primrec advances :: "nat \<Rightarrow> (rat \<Rightarrow> rat) \<Rightarrow> (pystr \<Rightarrow> int \<Rightarrow> pystr \<Rightarrow> pystr \<Rightarrow> ('g, int) io)
    \<Rightarrow> request \<Rightarrow> 'g world \<Rightarrow> request \<times> 'g world" where
  "advances 0 num43 post rq w = (rq, w)"
| "advances (Suc k) num43 post rq w = (case advance num43 post rq w of (rq', w') \<Rightarrow> advances k num43 post rq' w')"

lemma advances_finished: "rq_phase rq = Finished r \<Longrightarrow> advances k num43 post rq w = (rq, w)"
  by (induction k) (simp_all add: advance_def)

text \<open>What is left of the handler in each phase.\<close>

definition left_sent :: "(rat \<Rightarrow> rat) \<Rightarrow> uuid \<Rightarrow> int \<Rightarrow> review_with_findings \<Rightarrow> ('g world, resolve_response) io" where
  "left_sent num43 i gid rv = then_io (on_tiger (mark_posted num43 i gid (stored_confidence rv)))
     (ret \<lparr>rp_review_id = i, rp_status = lit ''resolved'', rp_github_review_id = Some gid\<rparr>)"

definition left_got :: "(rat \<Rightarrow> rat) \<Rightarrow> (pystr \<Rightarrow> int \<Rightarrow> pystr \<Rightarrow> pystr \<Rightarrow> ('g, int) io) \<Rightarrow> uuid
    \<Rightarrow> review_with_findings \<Rightarrow> ('g world, resolve_response) io" where
  "left_got num43 post i rv =
     bind_io (logged_post post (rf_repo rv) (rf_pr_number rv) (render_review_body (rf_findings rv))
       (review_event (rf_findings rv))) (\<lambda>gid. left_sent num43 i gid rv)"

definition left_claimed :: "(rat \<Rightarrow> rat) \<Rightarrow> (pystr \<Rightarrow> int \<Rightarrow> pystr \<Rightarrow> pystr \<Rightarrow> ('g, int) io) \<Rightarrow> uuid
    \<Rightarrow> ('g world, resolve_response) io" where
  "left_claimed num43 post i =
     bind_io (on_tiger (get_review_with_findings i)) (\<lambda>review.
       case review of None \<Rightarrow> raise review_not_found | Some rv \<Rightarrow> left_got num43 post i rv)"

definition handler_left :: "(rat \<Rightarrow> rat) \<Rightarrow> (pystr \<Rightarrow> int \<Rightarrow> pystr \<Rightarrow> pystr \<Rightarrow> ('g, int) io) \<Rightarrow> request
    \<Rightarrow> ('g world, resolve_response) io" where
  "handler_left num43 post rq = (case rq_phase rq of
     Start \<Rightarrow> if rq_approve rq then approve num43 post (rq_review rq) (rq_note rq)
              else reject (rq_review rq) (rq_note rq)
   | Claimed \<Rightarrow> left_claimed num43 post (rq_review rq)
   | Got rv \<Rightarrow> left_got num43 post (rq_review rq) rv
   | Sent gid rv \<Rightarrow> left_sent num43 (rq_review rq) gid rv
   | Finished r \<Rightarrow> of_result r)"

lemma approve_left:
  "approve num43 post i nt =
     bind_io (on_tiger (hq_resolve i (lit ''resolved'') nt)) (\<lambda>claimed.
       if \<not> claimed then raise already_resolved else left_claimed num43 post i)"
  by (simp add: approve_def left_claimed_def left_got_def left_sent_def cong: if_cong option.case_cong)

text \<open>A step of a request does a part of its handler and leaves the rest to do.\<close>

lemma advance_handler:
  "handler_left num43 post rq w = (case advance num43 post rq w of (rq', w') \<Rightarrow> handler_left num43 post rq' w')"
proof (cases "rq_phase rq")
  case Start
  then show ?thesis
    by (auto simp: handler_left_def advance_def approve_left reject_def bind_io_def raise_def ret_def
        of_result_def claim_status_def split: prod.split sum.split)
next
  case Claimed
  then show ?thesis
    by (auto simp: handler_left_def advance_def left_claimed_def bind_io_def raise_def of_result_def
        split: prod.split sum.split option.split)
next
  case (Got rv)
  then show ?thesis
    by (auto simp: handler_left_def advance_def left_got_def bind_io_def of_result_def split: prod.split sum.split)
next
  case (Sent gid rv)
  then show ?thesis
    by (auto simp: handler_left_def advance_def left_sent_def bind_io_def then_io_def ret_def of_result_def
        split: prod.split sum.split)
qed (simp add: handler_left_def advance_def)

lemma advances_handler:
  "advances k num43 post rq w = (rq', w') \<Longrightarrow> handler_left num43 post rq w = handler_left num43 post rq' w'"
proof (induction k arbitrary: rq w)
  case (Suc k)
  then show ?case using advance_handler [of num43 post rq w] by (auto split: prod.splits)
qed simp

fun phase_rank :: "req_phase \<Rightarrow> nat" where
  "phase_rank Start = 4"
| "phase_rank Claimed = 3"
| "phase_rank (Got _) = 2"
| "phase_rank (Sent _ _) = 1"
| "phase_rank (Finished _) = 0"

lemma advance_rank:
  "advance num43 post rq w = (rq', w') \<Longrightarrow> phase_rank (rq_phase rq') \<le> phase_rank (rq_phase rq) - 1"
  by (cases "rq_phase rq") (auto simp: advance_def split: prod.splits sum.splits option.splits if_splits)

lemma advances_rank:
  "advances k num43 post rq w = (rq', w') \<Longrightarrow> phase_rank (rq_phase rq') \<le> phase_rank (rq_phase rq) - k"
proof (induction k arbitrary: rq w)
  case (Suc k)
  obtain q v where q: "advance num43 post rq w = (q, v)" by (metis surj_pair)
  with Suc.prems have "advances k num43 post q v = (rq', w')" by simp
  from Suc.IH [OF this] advance_rank [OF q] show ?case by linarith
qed simp

text \<open>Undisturbed, four steps are the handler.\<close>

lemma advances_request:
  assumes "advances 4 num43 post (new_request ap i nt) w = (rq', w')"
  shows "\<exists>r. rq_phase rq' = Finished r \<and>
    (if ap then approve num43 post i nt else reject i nt) w = (r, w')"
proof -
  have "phase_rank (rq_phase rq') = 0" using advances_rank [OF assms] by (simp add: new_request_def)
  then obtain r where r: "rq_phase rq' = Finished r" by (cases "rq_phase rq'") auto
  from advances_handler [OF assms] r show ?thesis
    by (simp add: handler_left_def new_request_def of_result_def split: if_splits)
qed

subsection \<open>What one step does to the queue and to GitHub\<close>

lemma pending_resolve:
  "st \<noteq> lit ''pending'' \<Longrightarrow> pending_reviews (snd (resolve_sql i st nt db)) = pending_reviews db - {i}"
  using hitl.claim_takes [of st nt i db] by (simp add: claim_db_def split: prod.splits)

lemma resolve_effect:
  assumes run: "on_tiger (hq_resolve i st nt) w = (r, w')" and st: "st \<noteq> lit ''pending''"
  shows "post_log w' = post_log w" and "pending_reviews (world_db w') \<subseteq> pending_reviews (world_db w)"
    and "r = Inr True \<Longrightarrow> i \<in> pending_reviews (world_db w) \<and> i \<notin> pending_reviews (world_db w')"
    and "r = Inr False \<Longrightarrow> i \<notin> pending_reviews (world_db w)"
proof -
  note un = unguarded_db [OF run [unfolded hq_resolve_def]]
  show "post_log w' = post_log w" by (rule on_tiger_log [OF run])
  show "pending_reviews (world_db w') \<subseteq> pending_reviews (world_db w)"
    using un(1)
  proof
    assume "world_db w' = snd (resolve_sql i st nt (world_db w))"
    then show ?thesis by (simp only: pending_resolve [OF st] Diff_subset)
  qed simp
  show "i \<in> pending_reviews (world_db w) \<and> i \<notin> pending_reviews (world_db w')" if "r = Inr True"
    using un(2) [OF that] pending_resolve [OF st, of i nt "world_db w"] claim_db_iff [of nt i st "world_db w"]
    by (simp add: claim_db_def)
  show "i \<notin> pending_reviews (world_db w)" if "r = Inr False"
    using un(2) [OF that] claim_db_iff [of nt i st "world_db w"] by (simp add: claim_db_def)
qed

lemma on_tiger_bind: "on_tiger (bind_io m f) = bind_io (on_tiger m) (\<lambda>a. on_tiger (f a))"
  by (rule ext) (auto simp: on_tiger_def zoom_def bind_io_def split: prod.split sum.split)

lemma on_tiger_ret: "on_tiger (ret a) = ret a" "on_tiger (of_result q) = of_result q"
  by (simp_all add: fun_eq_iff on_tiger_def zoom_def ret_def of_result_def)

lemma read_only:
  assumes "on_tiger (ts_run name stmt) w = (r, w')" "\<And>db. snd (stmt db) = db"
  shows "world_db w' = world_db w" and "r = Inr a \<Longrightarrow> fst (stmt (world_db w)) = Inr a"
proof -
  have "idempotent_stmt stmt" unfolding idempotent_stmt_def by (metis assms(2) snd_conv)
  from ts_run_db [OF assms(1) this] assms(2)
  show "world_db w' = world_db w" and "r = Inr a \<Longrightarrow> fst (stmt (world_db w)) = Inr a" by auto
qed

lemma get_review_effect:
  assumes "on_tiger (get_review_with_findings i) w = (r, w')"
  shows "world_db w' = world_db w" and "post_log w' = post_log w"
proof -
  obtain r1 w1 where g: "on_tiger (ts_run (lit ''get_review'') (get_review_sql i)) w = (r1, w1)" by (metis surj_pair)
  obtain r2 w2 where f: "on_tiger (ts_run (lit ''get_findings'') (get_findings_sql i)) w1 = (r2, w2)" by (metis surj_pair)
  have "world_db w1 = world_db w" by (rule read_only(1) [OF g]) (simp add: get_review_sql_def)
  moreover have "world_db w2 = world_db w1" by (rule read_only(1) [OF f]) (simp add: get_findings_sql_def)
  ultimately have db: "world_db w1 = world_db w" "world_db w2 = world_db w" by simp_all
  have w': "bind_io (on_tiger (ts_run (lit ''get_review'') (get_review_sql i)))
      (\<lambda>a. on_tiger (case a of None \<Rightarrow> ret None | Some (repo, n, c) \<Rightarrow>
         bind_io (ts_run (lit ''get_findings'') (get_findings_sql i)) (\<lambda>rows.
           bind_io (of_result (map_result finding_of_row rows)) (\<lambda>fs.
             ret (Some \<lparr>rf_repo = repo, rf_pr_number = n, rf_confidence = map_option fl c,
                        rf_findings = fs\<rparr>))))) w = (r, w')"
    using assms by (simp add: get_review_with_findings_def on_tiger_bind)
  have "w' = w1 \<or> w' = w2"
  proof (cases r1)
    case (Inr a)
    then show ?thesis
    proof (cases a)
      case (Some t)
      obtain repo n c where "t = (repo, n, c)" by (metis prod_cases3)
      with w' g f Inr Some show ?thesis
        by (cases r2) (auto simp: bind_io_def on_tiger_bind on_tiger_ret of_result_def ret_def split: sum.splits)
    qed (use w' g in \<open>auto simp: bind_io_def on_tiger_ret ret_def\<close>)
  qed (use w' g in \<open>simp add: bind_io_def\<close>)
  with db show "world_db w' = world_db w" by auto
  show "post_log w' = post_log w" by (rule on_tiger_log [OF assms])
qed

lemma mark_effect:
  assumes run: "on_tiger (mark_posted num43 i gid c) w = (r, w')"
  shows "pending_reviews (world_db w') = pending_reviews (world_db w)" and "post_log w' = post_log w"
  using ts_run_db(1) [OF run [unfolded mark_posted_def] idem_mark_posted] on_tiger_log [OF run]
  by (auto simp: mark_posted_sql_def pending_reviews_def)

definition phase_ok :: "request \<Rightarrow> bool" where
  "phase_ok rq \<longleftrightarrow> (case rq_phase rq of Start \<Rightarrow> \<not> rq_claimed rq \<and> \<not> rq_posted rq
     | Claimed \<Rightarrow> rq_claimed rq \<and> \<not> rq_posted rq | Got _ \<Rightarrow> rq_claimed rq \<and> \<not> rq_posted rq
     | Sent _ _ \<Rightarrow> rq_claimed rq \<and> rq_posted rq | Finished _ \<Rightarrow> rq_posted rq \<longrightarrow> rq_claimed rq)"

lemma phase_ok_posted: "phase_ok rq \<Longrightarrow> rq_posted rq \<Longrightarrow> rq_claimed rq"
  by (cases "rq_phase rq") (auto simp: phase_ok_def)

lemma claim_status_not_pending: "claim_status rq \<noteq> lit ''pending''"
  by (simp add: claim_status_def)

lemma advance_effect:
  assumes adv: "advance num43 post rq w = (rq', w')" and ok: "phase_ok rq"
  shows "phase_ok rq' \<and> rq_review rq' = rq_review rq \<and>
    pending_reviews (world_db w') \<subseteq> pending_reviews (world_db w) \<and>
    (rq_claimed rq' = rq_claimed rq \<or> \<not> rq_claimed rq \<and> rq_claimed rq' \<and>
       rq_review rq \<in> pending_reviews (world_db w) \<and> rq_review rq \<notin> pending_reviews (world_db w')) \<and>
    length (post_log w') + of_bool (rq_posted rq) = length (post_log w) + of_bool (rq_posted rq')"
proof (cases "rq_phase rq")
  case Start
  obtain r v where r: "on_tiger (hq_resolve (rq_review rq) (claim_status rq) (rq_note rq)) w = (r, v)"
    by (metis surj_pair)
  from resolve_effect [OF r claim_status_not_pending] adv r ok Start show ?thesis
    by (cases r) (auto simp: advance_def phase_ok_def split: if_splits)
next
  case Claimed
  obtain r v where r: "on_tiger (get_review_with_findings (rq_review rq)) w = (r, v)" by (metis surj_pair)
  from get_review_effect [OF r] adv r ok Claimed show ?thesis
    by (auto simp: advance_def phase_ok_def split: sum.splits option.splits)
next
  case (Got rv)
  then show ?thesis using adv ok
    by (auto simp: advance_def phase_ok_def logged_post_def split: prod.splits sum.splits)
next
  case (Sent gid rv)
  obtain r v where r: "on_tiger (mark_posted num43 (rq_review rq) gid (stored_confidence rv)) w = (r, v)"
    by (metis surj_pair)
  from mark_effect [OF r] adv r ok Sent show ?thesis
    by (auto simp: advance_def phase_ok_def split: sum.splits)
next
  case (Finished r)
  then show ?thesis using adv ok by (simp add: advance_def)
qed

subsection \<open>Interleavings\<close>

inductive hitl_step :: "(rat \<Rightarrow> rat) \<Rightarrow> (pystr \<Rightarrow> int \<Rightarrow> pystr \<Rightarrow> pystr \<Rightarrow> ('g, int) io)
    \<Rightarrow> request list \<times> 'g world \<Rightarrow> request list \<times> 'g world \<Rightarrow> bool" for num43 post where
  one_step: "k < length rqs \<Longrightarrow> advance num43 post (rqs ! k) w = (rq', w') \<Longrightarrow>
    hitl_step num43 post (rqs, w) (rqs[k := rq'], w')"

inductive_cases hitl_stepE: "hitl_step num43 post (rqs, w) (rqs', w')"

text \<open>Of the requests on one review at most one has the claim, on a review that was pending at the
  start and is no longer; and GitHub was called once per request that got to it.\<close>

definition hitl_inv :: "'g world \<Rightarrow> request list \<times> 'g world \<Rightarrow> bool" where
  "hitl_inv w0 s \<longleftrightarrow> (case s of (rqs, w) \<Rightarrow>
     (\<forall>rq \<in> set rqs. phase_ok rq) \<and>
     pending_reviews (world_db w) \<subseteq> pending_reviews (world_db w0) \<and>
     (\<forall>k < length rqs. rq_claimed (rqs ! k) \<longrightarrow>
        rq_review (rqs ! k) \<in> pending_reviews (world_db w0) - pending_reviews (world_db w)) \<and>
     (\<forall>j < length rqs. \<forall>k < length rqs. rq_claimed (rqs ! j) \<longrightarrow> rq_claimed (rqs ! k) \<longrightarrow>
        rq_review (rqs ! j) = rq_review (rqs ! k) \<longrightarrow> j = k) \<and>
     length (post_log w) = length (post_log w0) + length (filter rq_posted rqs))"

lemma length_filter_update:
  "k < length xs \<Longrightarrow> length (filter p (xs[k := y])) + of_bool (p (xs ! k)) = length (filter p xs) + of_bool (p y)"
proof (induction xs arbitrary: k)
  case (Cons x xs)
  then show ?case using Cons.IH [of "k - 1"] by (cases k) auto
qed simp

lemma hitl_inv_step:
  assumes inv: "hitl_inv w0 (rqs, w)" and step: "hitl_step num43 post (rqs, w) (rqs', w')"
  shows "hitl_inv w0 (rqs', w')"
proof -
  from step obtain k rq' where k: "k < length rqs" and adv: "advance num43 post (rqs ! k) w = (rq', w')"
    and rqs': "rqs' = rqs[k := rq']" by (rule hitl_stepE)
  have "phase_ok (rqs ! k)" using inv k by (simp add: hitl_inv_def)
  note eff = advance_effect [OF adv this]
  have "length (post_log w') = length (post_log w0) + length (filter rq_posted rqs')"
    using inv eff length_filter_update [OF k, of rq_posted rq'] by (simp add: hitl_inv_def rqs')
  moreover have "\<forall>rq \<in> set rqs'. phase_ok rq"
    using inv eff set_update_subset_insert [of rqs k rq'] by (auto simp: hitl_inv_def rqs')
  moreover have "\<forall>j < length rqs'. rq_claimed (rqs' ! j) \<longrightarrow>
      rq_review (rqs' ! j) \<in> pending_reviews (world_db w0) - pending_reviews (world_db w')"
    using inv eff k by (auto simp: hitl_inv_def rqs' nth_list_update)
  moreover have "\<forall>i < length rqs'. \<forall>j < length rqs'. rq_claimed (rqs' ! i) \<longrightarrow> rq_claimed (rqs' ! j) \<longrightarrow>
      rq_review (rqs' ! i) = rq_review (rqs' ! j) \<longrightarrow> i = j"
    using inv eff k unfolding hitl_inv_def rqs' by (auto simp: nth_list_update)
  ultimately show ?thesis using inv eff by (auto simp: hitl_inv_def)
qed

lemma hitl_inv_start: "\<forall>rq \<in> set rqs. \<exists>ap i nt. rq = new_request ap i nt \<Longrightarrow> hitl_inv w (rqs, w)"
  by (auto simp: hitl_inv_def phase_ok_def new_request_def filter_empty_conv dest!: nth_mem)

lemma hitl_inv_reachable:
  assumes "(hitl_step num43 post)\<^sup>*\<^sup>* (rqs, w) s" and "hitl_inv w0 (rqs, w)"
  shows "hitl_inv w0 s"
  using assms
proof (induction rule: rtranclp_induct)
  case (step s s')
  then show ?case using hitl_inv_step [of w0 "fst s" "snd s" num43 post "fst s'" "snd s'"] by simp
qed

subsection \<open>Requests that come too late\<close>

lemma approve_cases:
  assumes "approve num43 post i nt w = (r, w')"
  shows "\<exists>q v. on_tiger (hq_resolve i (lit ''resolved'') nt) w = (q, v) \<and>
    (q = Inr True \<and> left_claimed num43 post i v = (r, w') \<or> w' = v \<and> q \<noteq> Inr True \<and> (\<forall>x. r \<noteq> Inr x))"
proof -
  obtain q v where q: "on_tiger (hq_resolve i (lit ''resolved'') nt) w = (q, v)" by (metis surj_pair)
  with assms show ?thesis
    by (cases q) (auto simp: approve_left bind_io_def raise_def split: if_splits)
qed

lemma left_claimed_pending:
  assumes "left_claimed num43 post i w = (r, w')"
  shows "pending_reviews (world_db w') = pending_reviews (world_db w)"
proof -
  obtain q v where g: "on_tiger (get_review_with_findings i) w = (q, v)" by (metis surj_pair)
  have v: "world_db v = world_db w" by (rule get_review_effect(1) [OF g])
  show ?thesis
  proof (cases "\<exists>rv. q = Inr (Some rv)")
    case False
    with assms g have "w' = v"
      by (cases q) (auto simp: left_claimed_def bind_io_def raise_def split: option.splits)
    with v show ?thesis by simp
  next
    case True
    then obtain rv where rv: "q = Inr (Some rv)" by blast
    obtain p u where p: "logged_post post (rf_repo rv) (rf_pr_number rv) (render_review_body (rf_findings rv))
        (review_event (rf_findings rv)) v = (p, u)" by (metis surj_pair)
    then have u: "world_db u = world_db v" by (auto simp: logged_post_def split: prod.splits)
    show ?thesis
    proof (cases p)
      case (Inl e)
      with assms g rv p u v show ?thesis by (simp add: left_claimed_def left_got_def bind_io_def)
    next
      case (Inr gid)
      with assms g rv p have "left_sent num43 i gid rv u = (r, w')"
        by (simp add: left_claimed_def left_got_def bind_io_def)
      then obtain m where "on_tiger (mark_posted num43 i gid (stored_confidence rv)) u = (m, w')"
        by (cases "on_tiger (mark_posted num43 i gid (stored_confidence rv)) u")
          (auto simp: left_sent_def then_io_def bind_io_def ret_def split: sum.splits)
      from mark_effect(1) [OF this] u v show ?thesis by simp
    qed
  qed
qed

lemma approve_not_pending:
  assumes "approve num43 post i nt w = (r, w')" and "i \<notin> pending_reviews (world_db w)"
  shows "(\<forall>x. r \<noteq> Inr x) \<and> post_log w' = post_log w"
proof -
  from approve_cases [OF assms(1)] obtain q v where
    q: "on_tiger (hq_resolve i (lit ''resolved'') nt) w = (q, v)"
    and alt: "q = Inr True \<or> w' = v \<and> (\<forall>x. r \<noteq> Inr x)" by blast
  have st: "lit ''resolved'' \<noteq> lit ''pending''" by simp
  have "q \<noteq> Inr True" using resolve_effect(3) [OF q st] assms(2) by blast
  with alt resolve_effect(1) [OF q st] show ?thesis by simp
qed

lemma reject_not_pending:
  assumes "reject i nt w = (r, w')" and "i \<notin> pending_reviews (world_db w)"
  shows "(\<forall>x. r \<noteq> Inr x) \<and> post_log w' = post_log w"
proof -
  obtain q v where q: "on_tiger (hq_resolve i (lit ''dismissed'') nt) w = (q, v)" by (metis surj_pair)
  have st: "lit ''dismissed'' \<noteq> lit ''pending''" by simp
  have "q \<noteq> Inr True" using resolve_effect(3) [OF q st] assms(2) by blast
  then have "w' = v \<and> (\<forall>x. r \<noteq> Inr x)"
    using assms(1) q by (cases q) (auto simp: reject_def bind_io_def raise_def split: if_splits)
  with resolve_effect(1) [OF q st] show ?thesis by simp
qed

lemma approve_posted_resolved:
  assumes "approve num43 post i nt w = (r, w')" and "post_log w' \<noteq> post_log w"
  shows "i \<notin> pending_reviews (world_db w')"
proof -
  from approve_cases [OF assms(1)] obtain q v where
    q: "on_tiger (hq_resolve i (lit ''resolved'') nt) w = (q, v)"
    and alt: "q = Inr True \<and> left_claimed num43 post i v = (r, w') \<or> w' = v" by blast
  have st: "lit ''resolved'' \<noteq> lit ''pending''" by simp
  note res = resolve_effect [OF q st]
  from alt assms(2) res(1) have "q = Inr True" "left_claimed num43 post i v = (r, w')" by auto
  with left_claimed_pending [OF this(2)] res(3) show ?thesis by simp
qed

subsection \<open>Schedules, for evaluation\<close>

primrec schedule :: "(rat \<Rightarrow> rat) \<Rightarrow> (pystr \<Rightarrow> int \<Rightarrow> pystr \<Rightarrow> pystr \<Rightarrow> ('g, int) io) \<Rightarrow> nat list
    \<Rightarrow> request list \<times> 'g world \<Rightarrow> request list \<times> 'g world" where
  "schedule num43 post [] s = s"
| "schedule num43 post (k # ks) s = (if k < length (fst s)
     then case advance num43 post (fst s ! k) (snd s) of (rq, w) \<Rightarrow> schedule num43 post ks ((fst s)[k := rq], w)
     else s)"

lemma schedule_reachable: "(hitl_step num43 post)\<^sup>*\<^sup>* s (schedule num43 post ks s)"
proof (induction ks arbitrary: s)
  case (Cons k ks)
  show ?case
  proof (cases "k < length (fst s)")
    case True
    obtain rq w where a: "advance num43 post (fst s ! k) (snd s) = (rq, w)" by (metis surj_pair)
    then have "hitl_step num43 post (fst s, snd s) ((fst s)[k := rq], w)" by (rule one_step [OF True])
    with Cons.IH [of "((fst s)[k := rq], w)"] True a show ?thesis
      by (simp add: converse_rtranclp_into_rtranclp)
  qed simp
qed simp

text \<open>A review without findings whose approval is pending.\<close>

definition queued_tiger :: "int world" where
  "queued_tiger = \<lparr>tiger = truth_conn \<lparr>clock = 0, slept = [], dep = \<lparr>script = [], store =
     snd (enqueue_sql 0 (lit ''why'') (snd (upsert_review_sql (lit ''o/r'') 7 (lit ''d1'') empty_db)))\<rparr>\<rparr>,
     post_log = [], github = 1\<rparr>"

definition outage_post :: "pystr \<Rightarrow> int \<Rightarrow> pystr \<Rightarrow> pystr \<Rightarrow> (int, int) io" where
  "outage_post repo n body evt = raise (GitHubError (lit ''down''))"

subsection \<open>Properties\<close>

text \<open>C10. However any number of concurrent approvals and rejections interleave at their awaits, and
  whatever the database and GitHub do, the requests that call GitHub are for different reviews, each
  of which was pending when they started; GitHub is called once by each of them.\<close>

theorem hitl_at_most_one_post:
  assumes "(hitl_step num43 post)\<^sup>*\<^sup>* (map (\<lambda>(ap, i, nt). new_request ap i nt) reqs, w) (rqs', w')"
  shows "distinct (map rq_review (filter rq_posted rqs')) \<and>
    rq_review ` set (filter rq_posted rqs') \<subseteq> pending_reviews (world_db w) \<and>
    length (post_log w') = length (post_log w) + length (filter rq_posted rqs')"
proof -
  have "hitl_inv w (map (\<lambda>(ap, i, nt). new_request ap i nt) reqs, w)"
    by (rule hitl_inv_start) auto
  from hitl_inv_reachable [OF assms this] have inv: "hitl_inv w (rqs', w')" .
  then have claimed: "rq_posted rq \<longrightarrow> rq_claimed rq" if "rq \<in> set rqs'" for rq
    using that phase_ok_posted by (auto simp: hitl_inv_def)
  have "distinct (map rq_review (filter rq_posted rqs'))"
    using inv claimed distinct_map_filter_nth [of rqs' rq_posted rq_review]
    by (simp add: hitl_inv_def)
  moreover have "rq_review rq \<in> pending_reviews (world_db w)" if "rq \<in> set rqs'" "rq_posted rq" for rq
    using that claimed inv by (auto simp: hitl_inv_def in_set_conv_nth)
  ultimately show ?thesis using inv by (auto simp: hitl_inv_def)
qed

theorem hitl_at_most_one_post_witness:
  "let s = schedule (\<lambda>c. c) sample_post [0, 1, 0, 0, 1, 0]
        (map (\<lambda>(ap, i, nt). new_request ap i nt) [(True, 0, None), (True, 0, None)], queued_tiger)
   in map rq_posted (fst s) = [True, False] \<and> distinct (map rq_review (filter rq_posted (fst s))) \<and>
    rq_review ` set (filter rq_posted (fst s)) \<subseteq> pending_reviews (world_db queued_tiger) \<and>
    length (post_log (snd s)) = length (post_log queued_tiger) + length (filter rq_posted (fst s))"
proof -
  let ?s = "schedule (\<lambda>c. c) sample_post [0, 1, 0, 0, 1, 0]
    (map (\<lambda>(ap, i, nt). new_request ap i nt) [(True, 0, None), (True, 0, None)], queued_tiger)"
  have "map rq_posted (fst ?s) = [True, False]" by code_simp
  moreover have "(hitl_step (\<lambda>c. c) sample_post)\<^sup>*\<^sup>*
      (map (\<lambda>(ap, i, nt). new_request ap i nt) [(True, 0, None), (True, 0, None)], queued_tiger) (fst ?s, snd ?s)"
    unfolding prod.collapse by (rule schedule_reachable)
  ultimately show ?thesis
    unfolding Let_def by (intro conjI hitl_at_most_one_post [THEN conjunct1]
      hitl_at_most_one_post [THEN conjunct2, THEN conjunct1] hitl_at_most_one_post [THEN conjunct2, THEN conjunct2])
qed

text \<open>An approval that has called GitHub and then fails cannot be made up for: the review has left
  the queue, so every later approval and rejection of it is refused or fails, without a call to GitHub.\<close>

theorem failed_approval_is_final:
  assumes "approve num43 post i nt w = (Inl e, w1)" and "post_log w1 \<noteq> post_log w"
    and "approve num43 post i nt' w1 = (r, w2)" and "reject i nt' w1 = (r', w3)"
  shows "(\<forall>x. r \<noteq> Inr x) \<and> post_log w2 = post_log w1 \<and> (\<forall>x. r' \<noteq> Inr x) \<and> post_log w3 = post_log w1"
  using approve_posted_resolved [OF assms(1,2)] approve_not_pending [OF assms(3)] reject_not_pending [OF assms(4)]
  by blast

theorem failed_approval_is_final_witness:
  "let run = approve (\<lambda>c. c) outage_post 0 None queued_tiger;
       again = approve (\<lambda>c. c) outage_post 0 None (snd run); rej = reject 0 None (snd run)
   in fst run = Inl (GitHubError (lit ''down'')) \<and> (\<forall>x. fst again \<noteq> Inr x) \<and> post_log (snd again) = post_log (snd run) \<and>
     (\<forall>x. fst rej \<noteq> Inr x) \<and> post_log (snd rej) = post_log (snd run)"
proof -
  let ?run = "approve (\<lambda>c. c) outage_post 0 None queued_tiger"
  have r: "fst ?run = Inl (GitHubError (lit ''down''))" by code_simp
  have p: "post_log (snd ?run) \<noteq> post_log queued_tiger" by code_simp
  have "?run = (Inl (GitHubError (lit ''down'')), snd ?run)" using r by (simp only: prod_eq_iff fst_conv snd_conv simp_thms)
  from failed_approval_is_final [OF this p prod.collapse [symmetric] prod.collapse [symmetric]] r
  show ?thesis unfolding Let_def by blast
qed


end
