(* ===== verification/Webhook.thy ===== *)
theory Webhook
  imports Auth JobQueue RepoStatus
begin

text \<open>
  \<open>webhook_receiver/app.py\<close> with the payload schemas of \<open>api/schemas.py\<close>: signature check, dedup claim,
  enqueue and rollback. The job queue and the status store are the handler's Protocols, as effects on
  a world; \<open>ingress\<close> is their contract, met by the model of \<open>job_queue/queue.py\<close>. Pydantic's parsers of
  the four payloads and the HMAC are parameters.
\<close>

subsection \<open>Payloads\<close>

record pr_payload =
  pp_action :: pystr
  pp_number :: int
  pp_repo :: pystr

record installation_payload =
  in_action :: pystr
  in_repositories :: "pystr list"

record installation_repos_payload =
  ir_action :: pystr
  ir_added :: "pystr list"

record push_commit =
  pc_added :: "pystr list"
  pc_removed :: "pystr list"
  pc_modified :: "pystr list"

record push_payload =
  pu_before :: pystr
  pu_after :: pystr
  pu_repo :: pystr
  pu_commits :: "push_commit list"

record parsers =
  parse_pr :: "pystr \<Rightarrow> exn + pr_payload"
  parse_installation :: "pystr \<Rightarrow> exn + installation_payload"
  parse_installation_repos :: "pystr \<Rightarrow> exn + installation_repos_payload"
  parse_push :: "pystr \<Rightarrow> exn + push_payload"

subsection \<open>_build_enqueue_ops\<close>

text \<open>The closures, by what they carry.\<close>

datatype enqueue_op = ReviewOp review_job | IndexOp index_job | ReindexOp reindex_job

fun op_job :: "enqueue_op \<Rightarrow> job" where
  "op_job (ReviewOp j) = RunReview j"
| "op_job (IndexOp j) = IndexRepo j"
| "op_job (ReindexOp j) = ReindexRepo j"

definition index_op :: "pystr \<Rightarrow> pystr \<Rightarrow> enqueue_op" where
  "index_op d repo = IndexOp \<lparr>ij_delivery = d, ij_repo = repo\<rparr>"

definition push_job :: "pystr \<Rightarrow> push_payload \<Rightarrow> reindex_job" where
  "push_job d p = \<lparr>xj_delivery = d, xj_repo = pu_repo p, xj_before = pu_before p, xj_after = pu_after p,
     xj_added = concat (map pc_added (pu_commits p)), xj_modified = concat (map pc_modified (pu_commits p)),
     xj_removed = concat (map pc_removed (pu_commits p))\<rparr>"

definition build_enqueue_ops :: "parsers \<Rightarrow> pystr \<Rightarrow> pystr \<Rightarrow> pystr \<Rightarrow> exn + enqueue_op list option" where
  "build_enqueue_ops ps evt d body =
     (if evt = lit ''pull_request'' then
        (case parse_pr ps body of Inl e \<Rightarrow> Inl e
         | Inr p \<Rightarrow> Inr (Some [ReviewOp \<lparr>rj_delivery = d, rj_repo = pp_repo p, rj_pr = pp_number p,
                                       rj_action = pp_action p\<rparr>]))
      else if evt = lit ''installation'' then
        (case parse_installation ps body of Inl e \<Rightarrow> Inl e
         | Inr p \<Rightarrow> if in_action p \<noteq> lit ''created'' \<or> in_repositories p = [] then Inr None
                    else Inr (Some (map (index_op d) (in_repositories p))))
      else if evt = lit ''installation_repositories'' then
        (case parse_installation_repos ps body of Inl e \<Rightarrow> Inl e
         | Inr p \<Rightarrow> if ir_added p = [] then Inr None else Inr (Some (map (index_op d) (ir_added p))))
      else if evt = lit ''push'' then
        (case parse_push ps body of Inl e \<Rightarrow> Inl e
         | Inr p \<Rightarrow>
             (let j = push_job d p in
              if xj_added j = [] \<and> xj_modified j = [] \<and> xj_removed j = [] then Inr None
              else Inr (Some [ReindexOp j])))
      else Inr None)"

subsection \<open>The handler\<close>

record 'w services =
  sv_mark_seen :: "pystr \<Rightarrow> ('w, bool) io"
  sv_unclaim :: "pystr \<Rightarrow> ('w, unit) io"
  sv_enqueue_review :: "review_job \<Rightarrow> ('w, pystr option) io"
  sv_enqueue_index_repo :: "index_job \<Rightarrow> ('w, pystr option) io"
  sv_enqueue_reindex_repo :: "reindex_job \<Rightarrow> ('w, pystr option) io"
  sv_mark_pending :: "pystr \<Rightarrow> ('w, unit) io"

fun run_op :: "'w services \<Rightarrow> enqueue_op \<Rightarrow> ('w, unit) io" where
  "run_op sv (ReviewOp j) = then_io (sv_enqueue_review sv j) (ret ())"
| "run_op sv (IndexOp j) = then_io (sv_mark_pending sv (ij_repo j)) (then_io (sv_enqueue_index_repo sv j) (ret ()))"
| "run_op sv (ReindexOp j) =
     then_io (sv_mark_pending sv (xj_repo j)) (then_io (sv_enqueue_reindex_repo sv j) (ret ()))"

record response =
  rs_code :: nat
  rs_content :: pystr

definition ok_response :: "pystr \<Rightarrow> response" where
  "ok_response c = \<lparr>rs_code = 200, rs_content = c\<rparr>"

definition queue_unavailable :: exn where
  "queue_unavailable = HTTPException 503 (lit ''job queue temporarily unavailable'')"

definition accepted :: response where "accepted = ok_response (lit ''accepted'')"

definition duplicate :: response where
  "duplicate = ok_response (lit ''duplicate delivery, already processed'')"

definition handled_events :: "pystr list" where
  "handled_events = [lit ''pull_request'', lit ''installation'', lit ''installation_repositories'', lit ''push'']"

text \<open>The part of the handler that runs the operations, with the rollback of the claim.\<close>

definition enqueue_all :: "'w services \<Rightarrow> pystr \<Rightarrow> enqueue_op list \<Rightarrow> ('w, response) io" where
  "enqueue_all sv d ops =
     then_io
       (try_except (for_io ops (run_op sv)) is_Exception (\<lambda>e.
          then_io (try_except (sv_unclaim sv d) is_Exception (\<lambda>e'. ret ())) (raise queue_unavailable)))
       (ret accepted)"

definition receive_webhook :: "(pystr \<Rightarrow> pystr \<Rightarrow> pystr) \<Rightarrow> parsers \<Rightarrow> 'w services \<Rightarrow> pystr \<Rightarrow> pystr
    \<Rightarrow> pystr option \<Rightarrow> pystr option \<Rightarrow> pystr option \<Rightarrow> ('w, response) io" where
  "receive_webhook hmac ps sv secret body signature delivery evt =
     bind_io (of_result (verify_signature hmac body secret signature)) (\<lambda>valid.
       if \<not> valid then raise (HTTPException 401 (lit ''invalid signature''))
       else (case delivery of
         None \<Rightarrow> raise (HTTPException 400 (lit ''missing X-GitHub-Delivery header''))
       | Some d \<Rightarrow>
         if d = [] then raise (HTTPException 400 (lit ''missing X-GitHub-Delivery header''))
         else (case evt of
           None \<Rightarrow> ret (ok_response (lit ''ignored: unhandled event None''))
         | Some ev \<Rightarrow>
           if ev \<notin> set handled_events then ret (ok_response (lit ''ignored: unhandled event '' @ ev))
           else bind_io (of_result (case build_enqueue_ops ps ev d body of
                    Inl (ValidationError m) \<Rightarrow> Inl (HTTPException 422 m) | r \<Rightarrow> r)) (\<lambda>ops.
             case ops of
               None \<Rightarrow> ret (ok_response (lit ''ignored: nothing to enqueue for '' @ ev))
             | Some os \<Rightarrow>
                 bind_io (try_except (sv_mark_seen sv d) is_Exception (\<lambda>e. raise queue_unavailable)) (\<lambda>is_new.
                   if \<not> is_new then ret duplicate else enqueue_all sv d os)))))"

subsection \<open>The contract of the services\<close>

locale ingress =
  fixes sv :: "'w services"
    and taken :: "'w \<Rightarrow> pystr \<Rightarrow> bool"
    and jobs :: "'w \<Rightarrow> job list"
  assumes mark_law: "sv_mark_seen sv d w = (r, w') \<Longrightarrow>
      jobs w' = jobs w \<and> (r = Inr True \<longrightarrow> \<not> taken w d \<and> taken w' d)"
    and unclaim_law: "sv_unclaim sv d w = (r0, w') \<Longrightarrow> jobs w' = jobs w \<and> (r0 = Inr () \<longrightarrow> \<not> taken w' d)"
    and pending_law: "sv_mark_pending sv repo w = (r0, w') \<Longrightarrow> jobs w' = jobs w \<and> taken w' = taken w"
    and review_law: "sv_enqueue_review sv j1 w = (r1, w') \<Longrightarrow>
      taken w' = taken w \<and> (\<exists>n. jobs w' = jobs w @ replicate n (RunReview j1) \<and> ((\<exists>a. r1 = Inr a) \<longrightarrow> 1 \<le> n))"
    and index_law: "sv_enqueue_index_repo sv j2 w = (r1, w') \<Longrightarrow>
      taken w' = taken w \<and> (\<exists>n. jobs w' = jobs w @ replicate n (IndexRepo j2) \<and> ((\<exists>a. r1 = Inr a) \<longrightarrow> 1 \<le> n))"
    and reindex_law: "sv_enqueue_reindex_repo sv j3 w = (r1, w') \<Longrightarrow>
      taken w' = taken w \<and> (\<exists>n. jobs w' = jobs w @ replicate n (ReindexRepo j3) \<and> ((\<exists>a. r1 = Inr a) \<longrightarrow> 1 \<le> n))"
begin

text \<open>One operation queues copies of its job only, at least one when it returns.\<close>

lemma run_op_spec:
  assumes "run_op sv p w = (r, w')"
  shows "taken w' = taken w \<and> (\<exists>n. jobs w' = jobs w @ replicate n (op_job p) \<and> (r = Inr () \<longrightarrow> 1 \<le> n))"
proof (cases p)
  case (ReviewOp j)
  obtain x v where x: "sv_enqueue_review sv j w = (x, v)" by (metis surj_pair)
  with assms ReviewOp have "w' = v" "r = Inr () \<longrightarrow> (\<exists>a. x = Inr a)"
    by (auto simp: then_io_def bind_io_def ret_def split: sum.splits)
  with review_law [OF x] show ?thesis using ReviewOp by auto
next
  case (IndexOp j)
  obtain y u where y: "sv_mark_pending sv (ij_repo j) w = (y, u)" by (metis surj_pair)
  obtain x v where x: "sv_enqueue_index_repo sv j u = (x, v)" by (metis surj_pair)
  have "w' = u \<and> (\<forall>a. r \<noteq> Inr a) \<or> w' = v \<and> (r = Inr () \<longrightarrow> (\<exists>a. x = Inr a))"
    using assms IndexOp x y by (auto simp: then_io_def bind_io_def ret_def split: sum.splits)
  with index_law [OF x] pending_law [OF y] IndexOp show ?thesis
    by (metis append_Nil2 op_job.simps(2) replicate_0)
next
  case (ReindexOp j)
  obtain y u where y: "sv_mark_pending sv (xj_repo j) w = (y, u)" by (metis surj_pair)
  obtain x v where x: "sv_enqueue_reindex_repo sv j u = (x, v)" by (metis surj_pair)
  have "w' = u \<and> (\<forall>a. r \<noteq> Inr a) \<or> w' = v \<and> (r = Inr () \<longrightarrow> (\<exists>a. x = Inr a))"
    using assms ReindexOp x y by (auto simp: then_io_def bind_io_def ret_def split: sum.splits)
  with reindex_law [OF x] pending_law [OF y] ReindexOp show ?thesis
    by (metis append_Nil2 op_job.simps(3) replicate_0)
qed

lemma run_ops_spec:
  "for_io ops (run_op sv) w = (r, w') \<Longrightarrow> taken w' = taken w \<and>
    (\<exists>js. jobs w' = jobs w @ js \<and> set js \<subseteq> op_job ` set ops \<and> (r = Inr () \<longrightarrow> set js = op_job ` set ops))"
proof (induction ops arbitrary: w)
  case Nil
  then show ?case by (simp add: ret_def)
next
  case (Cons p ops)
  obtain x v where x: "run_op sv p w = (x, v)" by (metis surj_pair)
  obtain n where v: "taken v = taken w" "jobs v = jobs w @ replicate n (op_job p)" "x = Inr () \<longrightarrow> 1 \<le> n"
    using run_op_spec [OF x] by blast
  show ?case
  proof (cases x)
    case (Inl e)
    with Cons.prems x have "w' = v" "r = Inl e" by (simp_all add: then_io_def bind_io_def)
    with v show ?thesis by (intro conjI exI [of _ "replicate n (op_job p)"]) (auto simp: set_replicate_conv_if)
  next
    case (Inr u)
    with Cons.prems x have rest: "for_io ops (run_op sv) v = (r, w')" by (simp add: then_io_def bind_io_def)
    from Cons.IH [OF rest] obtain js where js: "taken w' = taken v" "jobs w' = jobs v @ js"
      "set js \<subseteq> op_job ` set ops" "r = Inr () \<longrightarrow> set js = op_job ` set ops" by blast
    have "set (replicate n (op_job p)) = {op_job p}" using v(3) Inr by (simp add: set_replicate_conv_if)
    with js v show ?thesis by (intro conjI exI [of _ "replicate n (op_job p) @ js"]) auto
  qed
qed

text \<open>The enqueue step: accepted with every job queued, or the claim rolled back.\<close>

lemma enqueue_all_spec:
  assumes "enqueue_all sv d ops w = (r, w')"
  shows "\<exists>js. jobs w' = jobs w @ js \<and> set js \<subseteq> op_job ` set ops \<and>
    (case r of Inr resp \<Rightarrow> resp = accepted \<and> set js = op_job ` set ops \<and> taken w' = taken w
     | Inl e \<Rightarrow> is_Exception e \<longrightarrow> e = queue_unavailable)"
proof -
  obtain x v where x: "for_io ops (run_op sv) w = (x, v)" by (metis surj_pair)
  obtain js where v: "taken v = taken w" "jobs v = jobs w @ js" "set js \<subseteq> op_job ` set ops"
    "x = Inr () \<longrightarrow> set js = op_job ` set ops" using run_ops_spec [OF x] by blast
  obtain y u where y: "sv_unclaim sv d v = (y, u)" by (metis surj_pair)
  note y' = unclaim_law [OF y]
  show ?thesis
  proof (cases x)
    case (Inr a)
    with assms x have "r = Inr accepted" "w' = v"
      by (simp_all add: enqueue_all_def then_io_def bind_io_def try_except_def ret_def)
    with v Inr show ?thesis by auto
  next
    case (Inl e)
    show ?thesis
    proof (cases "is_Exception e")
      case False
      with assms x Inl have "r = Inl e" "w' = v"
        by (simp_all add: enqueue_all_def then_io_def bind_io_def try_except_def ret_def)
      with v False show ?thesis by auto
    next
      case True
      with assms x Inl y have "w' = u" "\<exists>e'. r = Inl e' \<and> (e' = queue_unavailable \<or> \<not> is_Exception e')"
        by (auto simp: enqueue_all_def then_io_def bind_io_def try_except_def ret_def raise_def
            split: sum.splits if_splits)
      with v y' show ?thesis by auto
    qed
  qed
qed

text \<open>The whole handler.\<close>

lemma receive_spec:
  assumes run: "receive_webhook hmac ps sv secret body sig (Some d) evt w = (r, w')"
  shows "\<exists>js. jobs w' = jobs w @ js \<and>
    (r = Inr accepted \<longrightarrow> (\<exists>ev ops. evt = Some ev \<and> build_enqueue_ops ps ev d body = Inr (Some ops) \<and>
       set js = op_job ` set ops \<and> \<not> taken w d \<and> taken w' d \<and> verify_signature hmac body secret sig = Inr True)) \<and>
    (\<forall>resp. r = Inr resp \<longrightarrow> resp \<noteq> accepted \<longrightarrow> js = [])"
proof (cases "verify_signature hmac body secret sig = Inr True \<and> d \<noteq> [] \<and> (\<exists>ev ops. evt = Some ev \<and>
    ev \<in> set handled_events \<and> build_enqueue_ops ps ev d body = Inr (Some ops))")
  case True
  then obtain ev ops where ev: "evt = Some ev" "ev \<in> set handled_events"
    and ops: "build_enqueue_ops ps ev d body = Inr (Some ops)" by blast
  obtain x v where x: "sv_mark_seen sv d w = (x, v)" by (metis surj_pair)
  note mark = mark_law [OF x]
  have run': "(case x of Inl e \<Rightarrow> if is_Exception e then (Inl queue_unavailable, v) else (Inl e, v)
      | Inr is_new \<Rightarrow> if is_new then enqueue_all sv d ops v else (Inr duplicate, v)) = (r, w')"
    using run True ev ops x
    by (auto simp: receive_webhook_def of_result_def bind_io_def try_except_def raise_def ret_def
        split: sum.splits if_splits)
  show ?thesis
  proof (cases "x = Inr True")
    case True
    with run' have "enqueue_all sv d ops v = (r, w')" by simp
    from enqueue_all_spec [OF this] obtain js where js: "jobs w' = jobs v @ js"
      "case r of Inr resp \<Rightarrow> resp = accepted \<and> set js = op_job ` set ops \<and> taken w' = taken v
       | Inl e \<Rightarrow> is_Exception e \<longrightarrow> e = queue_unavailable" by blast
    show ?thesis
      using js mark True ev ops \<open>verify_signature _ _ _ _ = _ \<and> _\<close>
      by (intro exI [of _ js]) (auto split: sum.splits)
  next
    case False
    with run' have "w' = v" "r = Inr resp \<Longrightarrow> resp = duplicate" for resp
      by (auto split: sum.splits if_splits)
    moreover have "duplicate \<noteq> accepted" by (simp add: duplicate_def accepted_def ok_response_def)
    ultimately show ?thesis using mark by (intro exI [of _ "[]"]) auto
  qed
next
  case False
  have other: "ok_response (lit ''ignored: unhandled event None'') \<noteq> accepted"
    "ok_response (lit ''ignored: unhandled event '' @ s) \<noteq> accepted"
    "ok_response (lit ''ignored: nothing to enqueue for '' @ s) \<noteq> accepted" for s
    by (simp_all add: accepted_def ok_response_def lit_def)
  have "w' = w \<and> (\<forall>resp. r = Inr resp \<longrightarrow> resp \<noteq> accepted)"
    using run False
    by (auto simp: other receive_webhook_def of_result_def bind_io_def raise_def ret_def
        split: sum.splits if_splits option.splits exn.splits)
  then show ?thesis by (intro exI [of _ "[]"]) auto
qed

end

subsection \<open>The program's services\<close>

type_synonym ingress_world = "rq \<times> tiger_db conn"

definition on_queue :: "(rq, 'a) io \<Rightarrow> (ingress_world, 'a) io" where
  "on_queue m = zoom fst (\<lambda>q w. (q, snd w)) m"

definition on_status :: "(tiger_db conn, 'a) io \<Rightarrow> (ingress_world, 'a) io" where
  "on_status m = zoom snd (\<lambda>c w. (fst w, c)) m"

definition ingress_services :: "arq \<Rightarrow> ingress_world services" where
  "ingress_services arq =
     \<lparr>sv_mark_seen = (\<lambda>d. on_queue (mark_seen d)), sv_unclaim = (\<lambda>d. on_queue (unclaim d)),
      sv_enqueue_review = (\<lambda>j. on_queue (enqueue_review arq j)),
      sv_enqueue_index_repo = (\<lambda>j. on_queue (enqueue_index_repo arq j)),
      sv_enqueue_reindex_repo = (\<lambda>j. on_queue (enqueue_reindex_repo arq j)),
      sv_mark_pending = (\<lambda>repo. on_status (mark_pending repo))\<rparr>"

lemma on_queue_run: "on_queue m w = (r, w') \<longleftrightarrow> m (fst w) = (r, fst w') \<and> snd w' = snd w"
  by (cases w; cases w') (auto simp: on_queue_def zoom_def split: prod.splits)

lemma on_status_run: "on_status m w = (r, w') \<longleftrightarrow> m (snd w) = (r, snd w') \<and> fst w' = fst w"
  by (cases w; cases w') (auto simp: on_status_def zoom_def split: prod.splits)

definition claim_taken :: "ingress_world \<Rightarrow> pystr \<Rightarrow> bool" where
  "claim_taken w d \<longleftrightarrow> claimed (jq_redis (fst w)) (delivery_key d)"

definition queued_jobs :: "ingress_world \<Rightarrow> job list" where
  "queued_jobs w = rd_jobs (jq_redis (fst w))"

locale arq_spec =
  fixes arq :: arq
  assumes appends: "arq_appends arq"

sublocale arq_spec \<subseteq> ingress "ingress_services arq" claim_taken queued_jobs
proof (unfold_locales, goal_cases)
  case (1 d w r w')
  then have "mark_seen d (fst w) = (r, fst w')" by (simp add: ingress_services_def on_queue_run)
  from mark_seen_spec(1,4) [OF this] show ?case by (simp add: claim_taken_def queued_jobs_def)
next
  case (2 d w r w')
  then have "unclaim d (fst w) = (r, fst w')" by (simp add: ingress_services_def on_queue_run)
  from unclaim_spec [OF this] show ?case by (simp add: claim_taken_def queued_jobs_def)
next
  case (3 repo w r w')
  then have "fst w' = fst w" by (simp add: ingress_services_def on_status_run)
  then show ?case by (simp add: fun_eq_iff claim_taken_def queued_jobs_def)
next
  case (4 j w r w')
  then have "enqueue_job arq (RunReview j) (lit ''failed to enqueue review job for delivery '' @ rj_delivery j) (fst w)
      = (r, fst w')" by (simp add: ingress_services_def on_queue_run enqueue_review_def)
  from enqueue_job_spec(1,2) [OF appends this] show ?case
    by (simp add: fun_eq_iff claim_taken_def queued_jobs_def)
next
  case (5 j w r w')
  then have "enqueue_job arq (IndexRepo j) (lit ''failed to enqueue index_repo job for '' @ ij_repo j) (fst w)
      = (r, fst w')" by (simp add: ingress_services_def on_queue_run enqueue_index_repo_def)
  from enqueue_job_spec(1,2) [OF appends this] show ?case
    by (simp add: fun_eq_iff claim_taken_def queued_jobs_def)
next
  case (6 j w r w')
  then have "enqueue_job arq (ReindexRepo j) (lit ''failed to enqueue reindex_repo job for '' @ xj_repo j) (fst w)
      = (r, fst w')" by (simp add: ingress_services_def on_queue_run enqueue_reindex_repo_def)
  from enqueue_job_spec(1,2) [OF appends this] show ?case
    by (simp add: fun_eq_iff claim_taken_def queued_jobs_def)
qed

context arq_spec
begin

lemmas receive_arq = receive_spec

end

text \<open>An \<open>arq\<close> that numbers its jobs.\<close>

definition counting_arq :: arq where
  "counting_arq j s = (Inr (Some (dec_nat (length (rd_jobs s)))), s\<lparr>rd_jobs := rd_jobs s @ [j]\<rparr>)"

interpretation counting: arq_spec counting_arq
  by unfold_locales (auto simp: arq_appends_def counting_arq_def)

subsection \<open>Samples, for evaluation\<close>

definition sample_parsers :: parsers where
  "sample_parsers =
     \<lparr>parse_pr = (\<lambda>b. Inr \<lparr>pp_action = lit ''opened'', pp_number = 7, pp_repo = lit ''o/r''\<rparr>),
      parse_installation = (\<lambda>b. Inr \<lparr>in_action = lit ''created'', in_repositories = [lit ''o/a'', lit ''o/b'']\<rparr>),
      parse_installation_repos = (\<lambda>b. Inr \<lparr>ir_action = lit ''added'', ir_added = []\<rparr>),
      parse_push = (\<lambda>b. Inl (ValidationError (lit ''body'')))\<rparr>"

definition sample_hmac :: "pystr \<Rightarrow> pystr \<Rightarrow> pystr" where
  "sample_hmac s b = lit ''ab12''"

definition sample_ingress :: "fault list \<Rightarrow> ingress_world" where
  "sample_ingress fts = (sample_rq fts, (None, \<lparr>clock = 0, slept = [], dep = \<lparr>script = [], store = empty_db\<rparr>\<rparr>))"

definition sample_receive :: "pystr \<Rightarrow> fault list \<Rightarrow> (exn + response) \<times> ingress_world" where
  "sample_receive evt fts = receive_webhook sample_hmac sample_parsers (ingress_services counting_arq) (lit ''s'') (lit ''b'')
     (Some (lit ''sha256=ab12'')) (Some (lit ''d'')) (Some evt) (sample_ingress fts)"

subsection \<open>Properties\<close>



text \<open>Without a valid signature nothing happens: the handler raises, and neither the queue nor the
  database is touched, whatever the event and its body.\<close>

theorem webhook_unauthenticated:
  assumes "verify_signature hmac body secret sig \<noteq> Inr True"
  shows "\<exists>e. receive_webhook hmac ps sv secret body sig d evt w = (Inl e, w) \<and>
    (verify_signature hmac body secret sig = Inr False \<longrightarrow> e = HTTPException 401 (lit ''invalid signature''))"
  using assms by (auto simp: receive_webhook_def of_result_def bind_io_def raise_def split: sum.splits)

theorem webhook_unauthenticated_witness:
  "receive_webhook sample_hmac sample_parsers (ingress_services counting_arq) (lit ''s'') (lit ''b'') None
      (Some (lit ''d'')) (Some (lit ''push'')) (sample_ingress []) =
    (Inl (HTTPException 401 (lit ''invalid signature'')), sample_ingress [])"
proof -
  have "verify_signature sample_hmac (lit ''b'') (lit ''s'') None = Inr False"
    by (simp add: verify_signature_def)
  then show ?thesis
    using webhook_unauthenticated [of sample_hmac "lit ''b''" "lit ''s''" None sample_parsers
        "ingress_services counting_arq" "Some (lit ''d'')" "Some (lit ''push'')" "sample_ingress []"] by auto
qed

text \<open>The handler promises never to drop an event silently, but a lost reply to the claim does: a
  first delivery is answered 200 as a duplicate, no job is queued, and the claim stays.\<close>

theorem webhook_silent_loss:
  "\<not> claim_taken (sample_ingress [lost_reply]) (lit ''d'') \<and>
   fst (sample_receive (lit ''pull_request'') [lost_reply]) = Inr duplicate \<and>
   queued_jobs (snd (sample_receive (lit ''pull_request'') [lost_reply])) = [] \<and>
   claim_taken (snd (sample_receive (lit ''pull_request'') [lost_reply])) (lit ''d'')"
proof -
  have mark: "mark_seen (lit ''d'') (sample_rq [lost_reply]) = (Inr False, snd (mark_seen (lit ''d'') (sample_rq [lost_reply])))"
    using mark_seen_lost by (metis prod.collapse)
  note spec = mark_seen_spec(1,5) [OF mark]
  have "sample_receive (lit ''pull_request'') [lost_reply] =
      (Inr duplicate, (snd (mark_seen (lit ''d'') (sample_rq [lost_reply])), snd (sample_ingress [lost_reply])))"
  proof -
    have v: "verify_signature sample_hmac (lit ''b'') (lit ''s'') (Some (lit ''sha256=ab12'')) = Inr True"
      by code_simp
    have b: "build_enqueue_ops sample_parsers (lit ''pull_request'') (lit ''d'') (lit ''b'') =
        Inr (Some [ReviewOp \<lparr>rj_delivery = lit ''d'', rj_repo = lit ''o/r'', rj_pr = 7, rj_action = lit ''opened''\<rparr>])"
      by (simp add: build_enqueue_ops_def sample_parsers_def)
    have m: "sv_mark_seen (ingress_services counting_arq) (lit ''d'') (sample_ingress [lost_reply]) =
        (Inr False, (snd (mark_seen (lit ''d'') (sample_rq [lost_reply])), snd (sample_ingress [lost_reply])))"
      using mark by (simp add: ingress_services_def on_queue_run sample_ingress_def)
    show ?thesis
      by (simp add: sample_receive_def receive_webhook_def of_result_def bind_io_def v b m try_except_def
          handled_events_def ret_def)
  qed
  then show ?thesis using spec mark_seen_lost by (simp add: claim_taken_def queued_jobs_def sample_ingress_def)
qed

end
