(* ===== verification/Service.thy ===== *)
theory Service
  imports Consistency Liveness HitlApi Webhook RepoStatus
begin

text \<open>
  The whole service on its one database. A \<open>deployment\<close> fixes what the processes share: the code outside the
  repository and the configuration. \<open>service_step\<close> runs one handler or job of one process to its end, returning
  or failing, with whatever faults its connections have: a webhook, a review attempt, an index job, an approval or
  a rejection, an evaluation run. Each of them only ever changes the database by the statements of \<open>Consistency\<close>, so
  what holds of every sequence of statements holds of the service, also where handlers interleave.
\<close>

subsection \<open>Effects that only write\<close>

definition only_writes :: "(rat \<Rightarrow> rat) \<Rightarrow> (rat \<Rightarrow> rat) \<Rightarrow> ('w \<Rightarrow> tiger_db) \<Rightarrow> ('w, 'a) io \<Rightarrow> bool" where
  "only_writes num43 num106 db m \<longleftrightarrow> (\<forall>w. db_writes num43 num106 (db w) (db (snd (m w))))"

lemma only_writes_keeps:
  "only_writes num43 num106 db m \<longleftrightarrow> (\<forall>d. keeps (\<lambda>w. db_writes num43 num106 d (db w)) m)"
  by (auto simp: only_writes_def keeps_def intro: rtranclp_trans)

lemma only_writes_run: "only_writes num43 num106 db m \<Longrightarrow> m w = (r, w') \<Longrightarrow> db_writes num43 num106 (db w) (db w')"
  by (metis only_writes_def snd_conv)

named_theorems writing

lemma ow_ret [writing]: "only_writes num43 num106 db (ret a)"
  and ow_raise [writing]: "only_writes num43 num106 db (raise e)"
  and ow_of_result [writing]: "only_writes num43 num106 db (of_result r)"
  by (simp_all add: only_writes_def ret_def raise_def of_result_def)

lemma ow_bind [writing]:
  "only_writes num43 num106 db m \<Longrightarrow> (\<And>a. only_writes num43 num106 db (f a)) \<Longrightarrow> only_writes num43 num106 db (bind_io m f)"
  unfolding only_writes_keeps by blast

lemma ow_then [writing]:
  "only_writes num43 num106 db m \<Longrightarrow> only_writes num43 num106 db k \<Longrightarrow> only_writes num43 num106 db (then_io m k)"
  unfolding only_writes_keeps by blast

lemma ow_for [writing]:
  "(\<And>x. x \<in> set xs \<Longrightarrow> only_writes num43 num106 db (f x)) \<Longrightarrow> only_writes num43 num106 db (for_io xs f)"
  unfolding only_writes_keeps by blast

lemma ow_map_io [writing]:
  "(\<And>x. x \<in> set xs \<Longrightarrow> only_writes num43 num106 db (f x)) \<Longrightarrow> only_writes num43 num106 db (map_io f xs)"
  by (induction xs) (auto intro!: ow_bind ow_ret)

lemma ow_result_bind:
  "(\<And>a. r = Inr a \<Longrightarrow> only_writes num43 num106 db (f a)) \<Longrightarrow> only_writes num43 num106 db (bind_io (of_result r) f)"
  by (cases r) (simp_all add: only_writes_def bind_io_def of_result_def)

lemma ow_try_except [writing]:
  assumes "only_writes num43 num106 db m" "\<And>e. only_writes num43 num106 db (h e)"
  shows "only_writes num43 num106 db (try_except m c h)"
  unfolding only_writes_def
proof
  fix w obtain r w1 where m: "m w = (r, w1)" by (metis surj_pair)
  have "db_writes num43 num106 (db w) (db (snd (h e w1)))" for e
    using only_writes_run [OF assms(1) m] assms(2) [of e] unfolding only_writes_def by (meson rtranclp_trans)
  with only_writes_run [OF assms(1) m] show "db_writes num43 num106 (db w) (db (snd (try_except m c h w)))"
    by (simp add: try_except_def m split: sum.split)
qed

lemma ow_try_finally [writing]:
  assumes "only_writes num43 num106 db m" "only_writes num43 num106 db f"
  shows "only_writes num43 num106 db (try_finally m f)"
  unfolding only_writes_def
proof
  fix w
  obtain r w1 where m: "m w = (r, w1)" by (metis surj_pair)
  obtain q w2 where f: "f w1 = (q, w2)" by (metis surj_pair)
  from rtranclp_trans [OF only_writes_run [OF assms(1) m] only_writes_run [OF assms(2) f]]
  show "db_writes num43 num106 (db w) (db (snd (try_finally m f w)))"
    by (simp add: try_finally_def m f split: sum.split)
qed

text \<open>On a part of the world that holds the database, and on one that does not.\<close>

lemma ow_zoom:
  assumes "only_writes num43 num106 db m" "\<And>w. db (get w) = db' w" "\<And>s w. db' (put s w) = db s"
  shows "only_writes num43 num106 db' (zoom get put m)"
  using assms by (auto simp: only_writes_def zoom_def split: prod.split) (metis snd_conv)

lemma ow_beside: "(\<And>s w. db (put s w) = db w) \<Longrightarrow> only_writes num43 num106 db (zoom get put m)"
  by (simp add: only_writes_def zoom_def split: prod.split)

text \<open>A statement that writes, behind a guard with its retries, or on the bare pool.\<close>

lemma ow_guarded:
  assumes "\<And>d. db_writes num43 num106 d (snd (stmt d))"
  shows "only_writes num43 num106 conn_db (guarded name stmt)"
  unfolding only_writes_def
proof
  fix c :: "tiger_db conn"
  let ?m = "guard_attempt db_guard (remote_op stmt) name"
  let ?J = "\<lambda>w. db_writes num43 num106 (conn_db c) (store (dep w))"
  have step: "?J (snd (?m w))" if "?J w" for w
  proof -
    obtain r v where v: "?m w = (r, v)" by (metis surj_pair)
    from remote_attempt(1) [OF v] that assms show ?thesis by (auto simp: v intro: rtranclp_trans)
  qed
  have tries: "?J (tries ?m d k (snd c))" for d k
    by (induction k) (simp_all add: sleep_def step)
  obtain q v where q: "retry_async ?m (g_attempts db_guard) (g_base_delay db_guard) DEFAULT_MAX_DELAY
      (g_retry_on db_guard) (snd c) = (q, v)"
    by (metis surj_pair)
  have "?J v"
    using retry_async_decided [of "g_attempts db_guard" ?m "g_retry_on db_guard" "g_base_delay db_guard" DEFAULT_MAX_DELAY "snd c"]
      step [OF tries] q by (metis db_guard_attempts one_le_numeral snd_conv)
  then show "db_writes num43 num106 (conn_db c) (conn_db (snd (guarded name stmt c)))"
    using q by (cases c) (auto simp: guarded_def guard_call_def split: option.splits sum.splits)
qed

lemma ow_unguarded:
  assumes "\<And>d. db_writes num43 num106 d (snd (stmt d))"
  shows "only_writes num43 num106 conn_db (unguarded stmt)"
  unfolding only_writes_def
proof
  fix c
  obtain r c' where u: "unguarded stmt c = (r, c')" by (metis surj_pair)
  from unguarded_once(1) [OF u] assms show "db_writes num43 num106 (conn_db c) (conn_db (snd (unguarded stmt c)))"
    by (auto simp: u)
qed

subsection \<open>The stores\<close>

lemma one_write: "db_write num43 num106 d d' \<Longrightarrow> db_writes num43 num106 d d'"
  by (rule r_into_rtranclp)

lemma ow_read: "(\<And>d. snd (stmt d) = d) \<Longrightarrow> only_writes num43 num106 conn_db (guarded name stmt)"
  by (rule ow_guarded) simp

lemma ow_upsert: "only_writes num43 num106 conn_db (upsert_review repo n d)"
  unfolding upsert_review_def ts_run_def by (intro ow_guarded one_write db_write.intros)

lemma ow_insert_findings:
  "list_all valid_finding fs \<Longrightarrow> only_writes num43 num106 conn_db (insert_findings num43 i fs)"
  unfolding insert_findings_def ts_run_def by (simp add: ow_ret) (intro impI ow_guarded one_write db_write.intros)

lemma ow_mark_posted: "only_writes num43 num106 conn_db (mark_posted num43 i gid c)"
  unfolding mark_posted_def ts_run_def by (intro ow_guarded one_write db_write.intros)

lemma ow_set_status: "only_writes num43 num106 conn_db (set_status num43 i (hitl_status dec) c)"
  unfolding set_status_def ts_run_def by (intro ow_guarded one_write db_write.intros) (simp add: hitl_status_def)

lemma ow_get_review: "only_writes num43 num106 conn_db (get_review_with_findings i)"
  unfolding get_review_with_findings_def ts_run_def
  by (auto intro!: writing ow_read simp: get_review_sql_def get_findings_sql_def split: option.split)

lemma ow_enqueue: "only_writes num43 num106 conn_db (hq_enqueue i reason)"
  unfolding hq_enqueue_def by (intro ow_unguarded one_write db_write.intros)

lemma ow_resolve:
  "st \<in> {lit ''resolved'', lit ''dismissed''} \<Longrightarrow> only_writes num43 num106 conn_db (hq_resolve i st nt)"
  unfolding hq_resolve_def by (intro ow_unguarded one_write db_write.intros)

lemma ow_emit: "only_writes num43 num106 conn_db (sink_emit num106 num43 a)"
  unfolding sink_emit_def by (intro ow_unguarded one_write db_write.intros)

lemma ow_mark_pending: "only_writes num43 num106 conn_db (mark_pending repo)"
  unfolding mark_pending_def by (intro ow_unguarded one_write db_write.intros)

lemma ow_on_tiger: "only_writes num43 num106 conn_db m \<Longrightarrow> only_writes num43 num106 world_db (on_tiger m)"
  unfolding on_tiger_def by (erule ow_zoom) simp_all

lemma ow_logged_post: "only_writes num43 num106 world_db (logged_post post repo n body evt)"
  by (simp add: only_writes_def logged_post_def split: prod.split)

subsection \<open>The handlers\<close>

lemma ow_aggregate:
  assumes "\<forall>f \<in> set (concat fss). valid_finding f"
  shows "only_writes num43 num106 world_db (aggregate (tiger_collab num43 num106 post) t repo n d fss)"
proof -
  have "list_all valid_finding (dedup_findings (concat fss))" using valid_dedup [OF assms] by (simp add: list_all_iff)
  then show ?thesis
    unfolding aggregate_def Let_def
    by (auto simp: tiger_collab_def intro!: writing ow_on_tiger ow_upsert ow_insert_findings ow_mark_posted ow_set_status
        ow_enqueue ow_emit ow_logged_post)
qed

lemma by_agent_valid:
  "by_agent m es = Inr m' \<Longrightarrow> (\<And>n fs. m n = Some fs \<Longrightarrow> list_all valid_finding fs) \<Longrightarrow>
    m' n = Some fs \<Longrightarrow> list_all valid_finding fs"
proof (induction es arbitrary: m)
  case (Cons e es)
  then obtain gs where gs: "map_result validate_finding (snd e) = Inr gs" "by_agent (m(fst e \<mapsto> gs)) es = Inr m'"
    by (auto split: sum.splits)
  show ?case
  proof (rule Cons.IH [OF gs(2)])
    show "list_all valid_finding fs" if "(m(fst e \<mapsto> gs)) n = Some fs" for n fs
      using that Cons.prems(2) gs(1) by (auto simp: validate_findings_iff split: if_splits)
  qed (rule Cons.prems(3))
qed simp

lemma ow_aggregate_node:
  assumes "gd_collab deps = tiger_collab num43 num106 post"
  shows "only_writes num43 num106 world_db (aggregate_node deps st)"
proof -
  have entry: "list_all valid_finding fs" if "by_agent Map.empty (st_results st) = Inr m" "m n = Some fs" for m n fs
    using by_agent_valid [OF that(1) _ that(2)] by simp
  have "\<forall>f \<in> set (concat (findings_by_agent m)). valid_finding f" if "by_agent Map.empty (st_results st) = Inr m" for m
  proof -
    have "list_all valid_finding (case m n of None \<Rightarrow> [] | Some fs \<Rightarrow> fs)" for n
      using entry [OF that, of n] by (cases "m n") auto
    then show ?thesis by (auto simp: findings_by_agent_def list_all_iff)
  qed
  then show ?thesis
    unfolding aggregate_node_def assms by (intro ow_result_bind ow_bind ow_aggregate ow_ret)
qed

text \<open>The specialists write events only.\<close>

abbreviation agent_db :: "('e, 'c) agent_world \<Rightarrow> tiger_db" where
  "agent_db w \<equiv> store (dep (aw_pool w))"

lemma ow_world_emit: "only_writes (as_num43 s) (as_num106 s) agent_db (world_emit s e)"
  unfolding world_emit_def by (rule ow_zoom [OF ow_emit]) simp_all

lemma ow_world_retrieve: "only_writes num43 num106 agent_db (world_retrieve s repo q k :: (('e, 'c) agent_world, retrieved_chunk list) io)"
  unfolding only_writes_def
proof
  fix w :: "('e, 'c) agent_world"
  obtain r c where c: "retrieve (as_embeddings s) (as_ranking s) repo q k
      \<lparr>rt_embed = aw_embed w, rt_pool = (aw_retrieval w, aw_pool w)\<rparr> = (r, c)" by (metis surj_pair)
  with retrieve_reads [OF c] show "db_writes num43 num106 (agent_db w) (agent_db (snd (world_retrieve s repo q k w)))"
    by (simp add: world_retrieve_def zoom_def)
qed

lemma ow_budget: "only_writes num43 num106 agent_db (budget_check cap world_spend name :: (('e, 'c) agent_world, unit) io)"
proof -
  have "only_writes num43 num106 agent_db (world_spend :: (('e, 'c) agent_world, rat) io)"
    unfolding only_writes_def
  proof
    fix w :: "('e, 'c) agent_world"
    obtain r c where c: "spend_today_usd (aw_cost w, aw_pool w) = (r, c)" by (metis surj_pair)
    with spend_today_reads(1) [OF c] show "db_writes num43 num106 (agent_db w) (agent_db (snd (world_spend w)))"
      by (simp add: world_spend_def zoom_def)
  qed
  then show ?thesis unfolding budget_check_def by (auto intro!: ow_bind ow_ret ow_raise split: if_split)
qed

lemma ow_review:
  assumes "\<And>e. only_writes num43 num106 db (ag_emit a e)" "\<And>repo q k. only_writes num43 num106 db (ag_retrieve a repo q k)"
    and "\<And>q. only_writes num43 num106 db (ag_parse a q)"
    and "\<And>check name. ag_budget a = Some check \<Longrightarrow> only_writes num43 num106 db (check name)"
  shows "only_writes num43 num106 db (review a d i)"
  using assms unfolding only_writes_keeps by (blast intro: keeps_review)

lemma ow_chat: "only_writes num43 num106 agent_db (zoom aw_chat (\<lambda>c w. w\<lparr>aw_chat := c\<rparr>) m)"
  by (rule ow_beside) simp

lemma ow_specialist: "only_writes (as_num43 s) (as_num106 s) agent_db (review (specialist s ty vp) d i)"
  by (rule ow_review) (auto simp: specialist_def ow_world_emit ow_world_retrieve ow_budget ow_chat)

lemma ow_on_agents: "only_writes num43 num106 agent_db m \<Longrightarrow> only_writes num43 num106 world_db (on_agents m)"
  unfolding on_agents_def by (erule ow_zoom) (simp_all add: agents_of_def put_agents_def)

lemma ow_in_job: "only_writes (as_num43 s) (as_num106 s) world_db (review (in_job (specialist s ty vp)) d i)"
  by (rule ow_review)
    (auto simp: in_job_def specialist_def ow_world_emit ow_world_retrieve ow_budget ow_chat intro!: ow_on_agents)

text \<open>A review job, whatever nodes of the graph its attempt runs.\<close>

lemma agents_only_write:
  assumes "startup sha read s post = Inr deps" "gd_agents deps n = Some a"
  shows "only_writes (as_num43 s) (as_num106 s) world_db (review a d i)"
  using assms ow_in_job [of "s\<lparr>as_cap := None\<rparr>"]
  by (auto simp: startup_def Let_def SecurityAgent_def QualityAgent_def TestsAgent_def DocsAgent_def
      agent_from_registry_def split: sum.splits if_splits)

lemma ow_run_review:
  assumes "startup sha read s post = Inr deps"
  shows "only_writes (as_num43 s) (as_num106 s) world_db (run_review (attempt_worker diff deps a) job)"
proof -
  have collab: "gd_collab deps = tiger_collab (as_num43 s) (as_num106 s) (\<lambda>repo n body evt. on_github (post repo n body evt))"
    by (rule startup_deps(2) [OF assms])
  have node: "only_writes (as_num43 s) (as_num106 s) world_db (run_op_node deps x st)" for x st
    using agents_only_write [OF assms] ow_aggregate_node [OF collab]
    by (auto simp: run_op_node_def specialist_node_def intro!: ow_bind ow_ret ow_raise split: graph_op.split option.split)
  have "only_writes (as_num43 s) (as_num106 s) world_db (exec_ops deps xs st)" for xs st
    by (induction xs arbitrary: st) (simp_all add: ow_ret ow_bind node)
  moreover have "only_writes (as_num43 s) (as_num106 s) world_db (zoom github (\<lambda>s w. w\<lparr>github := s\<rparr>) m)" for m
    by (rule ow_beside) simp
  ultimately show ?thesis
    unfolding run_review_def attempt_worker_def attempt_engine_def engine_run_def Let_def
    by (auto intro!: writing ow_on_tiger ow_upsert split: option.split)
qed

lemma ow_approve: "only_writes num43 num106 world_db (approve num43 post i nt)"
  unfolding approve_def
  by (auto intro!: writing ow_on_tiger ow_resolve ow_get_review ow_logged_post ow_mark_posted split: option.split)

lemma ow_reject: "only_writes num43 num106 world_db (reject i nt)"
  unfolding reject_def by (auto intro!: writing ow_on_tiger ow_resolve)

text \<open>The index jobs.\<close>

abbreviation index_db :: "('s, 'e) ix_world \<Rightarrow> tiger_db" where
  "index_db w \<equiv> conn_db (ix_pool w)"

lemma ow_on_pool: "only_writes num43 num106 conn_db m \<Longrightarrow> only_writes num43 num106 index_db (on_pool m)"
  unfolding on_pool_def by (erule ow_zoom) simp_all

lemma ow_ix_write: "only_writes num43 num106 index_db (ix_write repo es paths sha)"
  unfolding ix_write_def by (intro ow_on_pool ow_guarded one_write db_write.intros)

lemma ow_mark_failed: "only_writes num43 num106 index_db (mark_failed repo err)"
  unfolding mark_failed_def by (intro ow_on_pool ow_guarded one_write db_write.intros)

lemma ow_existing: "only_writes num43 num106 index_db (on_pool (guarded name (existing_paths_sql repo)))"
  by (intro ow_on_pool ow_read) (simp add: existing_paths_sql_def)

lemma ow_on_source: "only_writes num43 num106 index_db (on_source m)"
  unfolding on_source_def by (rule ow_beside) simp

lemma ow_embed_chunks: "only_writes num43 num106 index_db (embed_chunks x cs)"
proof -
  have "only_writes num43 num106 index_db (ix_embed x t)" for t unfolding ix_embed_def by (rule ow_beside) simp
  then show ?thesis unfolding embed_chunks_def by (intro writing)
qed

lemma ow_finally_rmtree: "only_writes num43 num106 index_db m \<Longrightarrow> only_writes num43 num106 index_db (finally_rmtree x dir m)"
  by (simp add: only_writes_def finally_rmtree_def split: prod.split) (metis snd_conv)

lemma ow_recording: "only_writes num43 num106 index_db m \<Longrightarrow> only_writes num43 num106 index_db (recording_failure show_exn repo m)"
  unfolding recording_failure_def by (intro writing ow_mark_failed)

lemma ow_index_repo: "only_writes num43 num106 index_db (index_repo show_exn x job)"
  unfolding index_repo_def full_index_def Let_def
  by (intro writing ow_recording ow_on_source ow_finally_rmtree ow_embed_chunks ow_existing ow_ix_write)

lemma ow_reindex_repo: "only_writes num43 num106 index_db (reindex_repo show_exn x job)"
  unfolding reindex_repo_def incremental_index_def
  by (auto intro!: writing ow_recording ow_on_source ow_finally_rmtree ow_embed_chunks ow_ix_write)

text \<open>The webhook handler marks repositories pending.\<close>

abbreviation ingress_db :: "ingress_world \<Rightarrow> tiger_db" where
  "ingress_db w \<equiv> conn_db (snd w)"

lemma ow_on_queue: "only_writes num43 num106 ingress_db (on_queue m)"
  unfolding on_queue_def by (rule ow_beside) simp

lemma ow_on_status: "only_writes num43 num106 ingress_db (on_status (mark_pending repo))"
  unfolding on_status_def by (rule ow_zoom [OF ow_mark_pending]) simp_all

lemma ow_run_op: "only_writes num43 num106 ingress_db (run_op (ingress_services arq) x)"
  by (cases x) (auto simp: ingress_services_def intro!: writing ow_on_queue ow_on_status)

lemma ow_webhook: "only_writes num43 num106 ingress_db
    (receive_webhook hmac ps (ingress_services arq) secret body sg delivery evt)"
proof -
  have all: "only_writes num43 num106 ingress_db (enqueue_all (ingress_services arq) d ops)" for d ops
    unfolding enqueue_all_def
    by (intro writing ow_run_op) (auto simp: ingress_services_def intro: ow_on_queue)
  have "only_writes num43 num106 ingress_db (sv_mark_seen (ingress_services arq) d)" for d
    by (simp add: ingress_services_def ow_on_queue)
  then show ?thesis unfolding receive_webhook_def
    by (auto intro!: writing all split: option.split)
qed

text \<open>The evaluation runner seeds and cleans up its own repository.\<close>

lemma ow_bare_pool:
  "(\<And>d. db_writes num43 num106 d (snd (stmt d))) \<Longrightarrow> only_writes num43 num106 agent_db (on_bare_pool stmt)"
  unfolding on_bare_pool_def by (rule ow_zoom [OF ow_unguarded]) simp_all

lemma ow_run_suite:
  "only_writes (as_num43 s) (as_num106 s) agent_db (run_suite lower s (map (\<lambda>(ty, vp). specialist s ty vp) types) cases)"
proof -
  have "only_writes (as_num43 s) (as_num106 s) agent_db (world_embed s q)" for q
    unfolding world_embed_def by (rule ow_beside) simp
  then have "only_writes (as_num43 s) (as_num106 s) agent_db (seed_context s repo c)" for repo c
    unfolding seed_context_def by (auto intro!: writing ow_bare_pool one_write db_write.intros)
  then have "only_writes (as_num43 s) (as_num106 s) agent_db (run_case s (map (\<lambda>(ty, vp). specialist s ty vp) types) hex c)" for hex c
    unfolding run_case_def Let_def by (auto intro!: writing ow_specialist ow_bare_pool one_write db_write.intros)
  then show ?thesis unfolding run_suite_def by (auto intro!: writing)
qed

subsection \<open>The service\<close>

record ('h, 'e, 'c, 's, 'x) deployment =
  dp_sha :: "pystr \<Rightarrow> pystr"
  dp_read :: "pystr \<Rightarrow> exn + pystr"
  dp_setup :: "('e, 'c) agent_setup"
  dp_post :: "pystr \<Rightarrow> int \<Rightarrow> pystr \<Rightarrow> pystr \<Rightarrow> ('h, int) io"
  dp_diff :: "pystr \<Rightarrow> int \<Rightarrow> ('h, pystr) io"
  dp_indexer :: "('s, 'x) indexer"
  dp_show :: "exn \<Rightarrow> pystr"
  dp_arq :: arq
  dp_hmac :: "pystr \<Rightarrow> pystr \<Rightarrow> pystr"
  dp_parsers :: parsers
  dp_secret :: pystr
  dp_lower :: "pystr \<Rightarrow> pystr"

definition dp_num43 :: "('h, 'e, 'c, 's, 'x) deployment \<Rightarrow> rat \<Rightarrow> rat" where
  "dp_num43 dp = as_num43 (dp_setup dp)"

definition dp_num106 :: "('h, 'e, 'c, 's, 'x) deployment \<Rightarrow> rat \<Rightarrow> rat" where
  "dp_num106 dp = as_num106 (dp_setup dp)"

inductive service_step :: "('h, 'e, 'c, 's, 'x) deployment \<Rightarrow> tiger_db \<Rightarrow> tiger_db \<Rightarrow> bool" for dp where
  webhook: "receive_webhook (dp_hmac dp) (dp_parsers dp) (ingress_services (dp_arq dp)) (dp_secret dp) body sg delivery evt wh
      = (r, wh') \<Longrightarrow> service_step dp (ingress_db wh) (ingress_db wh')"
| review_job: "startup (dp_sha dp) (dp_read dp) (dp_setup dp) (dp_post dp) = Inr deps \<Longrightarrow>
    run_review (attempt_worker (dp_diff dp) deps a) job wj = (rj, wj') \<Longrightarrow> service_step dp (world_db wj) (world_db wj')"
| index_job: "index_repo (dp_show dp) (dp_indexer dp) ij wx = (rx, wx') \<Longrightarrow> service_step dp (index_db wx) (index_db wx')"
| reindex_job: "reindex_repo (dp_show dp) (dp_indexer dp) xj wx = (rx, wx') \<Longrightarrow> service_step dp (index_db wx) (index_db wx')"
| approval: "approve (dp_num43 dp) (dp_post dp) i nt wa = (ra, wa') \<Longrightarrow> service_step dp (world_db wa) (world_db wa')"
| rejection: "reject i nt (wa :: 'h world) = (ra, wa') \<Longrightarrow> service_step dp (world_db wa) (world_db wa')"
| evaluation: "run_suite (dp_lower dp) (dp_setup dp) (map (\<lambda>(ty, vp). specialist (dp_setup dp) ty vp) types) cases we = (re, we')
    \<Longrightarrow> service_step dp (agent_db we) (agent_db we')"
| time_passes: "db_now db \<le> t \<Longrightarrow> service_step dp db (db\<lparr>db_now := t\<rparr>)"

lemma step_writes:
  assumes "service_step dp db db'"
  shows "db_writes (dp_num43 dp) (dp_num106 dp) db db'"
  using assms
proof cases
  case (webhook body sg delivery evt wh r wh')
  then show ?thesis using only_writes_run [OF ow_webhook webhook(3)] by simp
next
  case (review_job deps a job wj rj wj')
  then show ?thesis using only_writes_run [OF ow_run_review [OF review_job(3)] review_job(4)] by (simp add: dp_num43_def dp_num106_def)
next
  case (index_job ij wx rx wx')
  then show ?thesis using only_writes_run [OF ow_index_repo index_job(3)] by simp
next
  case (reindex_job xj wx rx wx')
  then show ?thesis using only_writes_run [OF ow_reindex_repo reindex_job(3)] by simp
next
  case (approval i nt wa ra wa')
  then show ?thesis using only_writes_run [OF ow_approve approval(3)] by simp
next
  case (rejection i nt wa ra wa')
  then show ?thesis using only_writes_run [OF ow_reject rejection(3)] by simp
next
  case (evaluation types cases we re we')
  then show ?thesis using only_writes_run [OF ow_run_suite evaluation(3)] by (simp add: dp_num43_def dp_num106_def)
next
  case (time_passes t)
  then show ?thesis by (simp add: one_write db_write.w_time)
qed

lemma steps_write: "(service_step dp)\<^sup>*\<^sup>* db db' \<Longrightarrow> db_writes (dp_num43 dp) (dp_num106 dp) db db'"
  by (induction rule: rtranclp_induct) (auto intro: rtranclp_trans step_writes)

subsection \<open>A sample deployment\<close>

definition sample_deployment :: "(int, unit, unit, unit, unit) deployment" where
  "sample_deployment = \<lparr>dp_sha = (\<lambda>s. s), dp_read = (\<lambda>s. Inr s), dp_setup = sample_setup None, dp_post = sample_post,
     dp_diff = sample_diff_of, dp_indexer = sample_indexer [], dp_show = (\<lambda>e. []), dp_arq = counting_arq,
     dp_hmac = sample_hmac, dp_parsers = sample_parsers, dp_secret = lit ''secret'', dp_lower = (\<lambda>s. s)\<rparr>"

definition sample_approval :: "(exn + resolve_response) \<times> int world" where
  "sample_approval = approve (\<lambda>c. c) sample_post 0 None queued_tiger"

lemma sample_rounding: "dp_num43 sample_deployment = (\<lambda>c. c)" "dp_num106 sample_deployment = (\<lambda>c. c)"
  by (simp_all add: dp_num43_def dp_num106_def sample_deployment_def sample_setup_def id_def)

lemma sample_step: "service_step sample_deployment (world_db queued_tiger) (world_db (snd sample_approval))"
proof (rule service_step.approval)
  show "approve (dp_num43 sample_deployment) (dp_post sample_deployment) 0 None queued_tiger = (fst sample_approval, snd sample_approval)"
    by (simp add: sample_approval_def sample_rounding) (simp add: sample_deployment_def)
qed

lemma sample_approved:
  "map pr_status (reviews (world_db (snd sample_approval))) = [lit ''posted'']"
  "map hr_status (hitl_rows (world_db (snd sample_approval))) = [lit ''resolved'']"
  by code_simp+

subsection \<open>Properties\<close>

text \<open>C6. The handlers refine the statements: a webhook, a review attempt in any schedule of its graph and resumed from
  any checkpoint, an index or re-index job, an approval, a rejection and an evaluation run, whether they return or
  fail, and under any faults, change the database by a sequence of the program's own statements with valid arguments.\<close>

theorem handlers_only_write:
  assumes "(service_step dp)\<^sup>*\<^sup>* db db'"
  shows "db_writes (dp_num43 dp) (dp_num106 dp) db db'"
  using assms by (rule steps_write)

theorem handlers_only_write_witness:
  "map pr_status (reviews (world_db (snd sample_approval))) = [lit ''posted''] \<and>
   db_writes (\<lambda>c. c) (\<lambda>c. c) (world_db queued_tiger) (world_db (snd sample_approval))"
  using handlers_only_write [OF r_into_rtranclp, OF sample_step] sample_approved(1) by (simp add: sample_rounding)

text \<open>C5. The database is always consistent: whatever statements its processes have run since it was empty, in any
  interleaving and with retries and lost replies, its keys hold, and every stored value is one its readers expect:
  each stored finding is read back as a valid finding, statuses are of their vocabulary and agree with the other
  columns of their row, and embeddings have the dimension of the index.\<close>

theorem database_consistent:
  assumes "db_writes num43 num106 empty_db db" and "storable num43"
  shows "wf_db db \<and> typed_db db"
  using writes_keep [OF assms] by simp

theorem database_consistent_witness:
  "let db = snd (insert_findings_sql (map (finding_row (\<lambda>c. c) 0) sample_findings) sample_db)
   in map fr_agent_type (finding_rows db) = [lit ''security'', lit ''docs''] \<and> wf_db db \<and> typed_db db"
proof -
  let ?db = "snd (insert_findings_sql (map (finding_row (\<lambda>c. c) 0) sample_findings) sample_db)"
  have "list_all valid_finding sample_findings" by (simp add: sample_findings_def valid_finding_def confidence_ok_def)
  then have "db_write (\<lambda>c. c) (\<lambda>c. c) sample_db ?db" by (rule db_write.w_findings)
  moreover have "db_write (\<lambda>c. c) (\<lambda>c. c) empty_db sample_db" unfolding sample_db_def by (rule db_write.w_upsert)
  ultimately have "db_writes (\<lambda>c. c) (\<lambda>c. c) empty_db ?db" by (blast intro: converse_rtranclp_into_rtranclp)
  from database_consistent [OF this] have "wf_db ?db \<and> typed_db ?db" by (simp add: storable_def)
  moreover have "map fr_agent_type (finding_rows ?db) = [lit ''security'', lit ''docs'']" by code_simp
  ultimately show ?thesis by (simp only: Let_def)
qed

text \<open>C7. Nothing is forgotten: whatever handlers and jobs run, no review, queue entry, finding or event is
  deleted, findings, events and decided queue entries are never changed, and a review that has left \<open>pending\<close>
  never returns to it.\<close>

theorem service_keeps_history:
  assumes "(service_step dp)\<^sup>*\<^sup>* db db'"
  shows "history_kept db db'"
  by (rule history_writes [OF steps_write [OF assms]])

theorem service_keeps_history_witness:
  "map hr_status (hitl_rows (world_db (snd sample_approval))) = [lit ''resolved''] \<and>
   history_kept (world_db queued_tiger) (world_db (snd sample_approval))"
  using service_keeps_history [OF r_into_rtranclp, OF sample_step] sample_approved(2) by simp

end
