(* ===== verification/ReadApi.thy ===== *)
theory ReadApi
  imports HitlApi Auth RepoStatus "HOL-Library.Product_Lexorder" "HOL-Library.List_Lexorder"
begin

text \<open>
  \<open>api/reviews.py\<close>, \<open>api/repos.py\<close> and the routes of \<open>api/app.py\<close>: the read model behind the dashboard, and the
  application that puts every route behind the token dependency. \<open>parse_uuid\<close> is the driver's reading of a
  text parameter as a UUID, \<open>diff\<close> the GitHub client's \<open>get_pull_request_diff\<close>. Rows the database may order
  either way keep table order; text columns are collated by code points.
\<close>

definition REVIEW_LIMIT :: nat where "REVIEW_LIMIT = 100"

record review_summary =
  vs_id :: uuid
  vs_repo :: pystr
  vs_pr :: int
  vs_status :: pystr
  vs_confidence :: "rat option"
  vs_cost :: rat
  vs_created_at :: rat

record finding_summary =
  fm_agent :: pystr
  fm_severity :: pystr
  fm_category :: pystr
  fm_summary :: pystr
  fm_file :: pystr
  fm_line :: "int option"
  fm_confidence :: rat
  fm_rationale :: pystr

record diff_stats =
  df_files :: nat
  df_additions :: nat
  df_deletions :: nat

record review_detail =
  vd_summary :: review_summary
  vd_findings :: "finding_summary list"
  vd_stats :: "diff_stats option"

record repo_summary =
  rp_repo :: pystr
  rp_state :: pystr
  rp_commit :: "pystr option"
  rp_indexed_at :: rat
  rp_chunks :: nat
  rp_reviews :: nat
  rp_error :: "pystr option"

subsection \<open>parse_diff_stats\<close>

definition count_line :: "pystr \<Rightarrow> diff_stats \<Rightarrow> diff_stats" where
  "count_line l st =
     (if py_startswith l (lit ''diff --git '') then st\<lparr>df_files := df_files st + 1\<rparr>
      else if py_startswith l (lit ''+++'') \<or> py_startswith l (lit ''---'') then st
      else if py_startswith l (lit ''+'') then st\<lparr>df_additions := df_additions st + 1\<rparr>
      else if py_startswith l (lit ''-'') then st\<lparr>df_deletions := df_deletions st + 1\<rparr>
      else st)"

definition parse_diff_stats :: "pystr \<Rightarrow> diff_stats" where
  "parse_diff_stats s = fold count_line (splitlines s) \<lparr>df_files = 0, df_additions = 0, df_deletions = 0\<rparr>"

subsection \<open>The queries\<close>

definition summary_of :: "tiger_db \<Rightarrow> pr_review_record \<Rightarrow> review_summary" where
  "summary_of db r = \<lparr>vs_id = pr_id r, vs_repo = pr_repo r, vs_pr = pr_num r, vs_status = pr_status r,
     vs_confidence = map_option fl (pr_confidence r), vs_cost = sum_cost (\<lambda>e. ev_review_id e = pr_id r) db,
     vs_created_at = pr_created_at r\<rparr>"

definition list_reviews_sql :: "(tiger_db, review_summary list) stmt" where
  "list_reviews_sql db = (Inr (map (summary_of db)
     (take REVIEW_LIMIT (sort_key (\<lambda>r. (- pr_created_at r, pr_id r)) (reviews db)))), db)"

definition review_row_sql :: "uuid \<Rightarrow> (tiger_db, review_summary option) stmt" where
  "review_row_sql i db = (Inr (map_option (summary_of db) (find_review i db)), db)"

text \<open>\<open>ORDER BY severity, file_path, line_start\<close>: the severity is a text column, an absent line comes last.\<close>

definition findings_order :: "finding_record \<Rightarrow> pystr \<times> pystr \<times> bool \<times> int" where
  "findings_order f = (fr_severity f, fr_file_path f, fr_line_start f = None, (case fr_line_start f of None \<Rightarrow> 0 | Some n \<Rightarrow> n))"

definition findings_sql :: "uuid \<Rightarrow> (tiger_db, finding_record list) stmt" where
  "findings_sql i db = (Inr (sort_key findings_order (filter (\<lambda>f. fr_review_id f = i) (finding_rows db))), db)"

definition finding_summary_of :: "finding_record \<Rightarrow> finding_summary" where
  "finding_summary_of f = \<lparr>fm_agent = fr_agent_type f, fm_severity = fr_severity f, fm_category = fr_category f,
     fm_summary = fr_summary f, fm_file = fr_file_path f, fm_line = fr_line_start f,
     fm_confidence = fl (fr_confidence f), fm_rationale = fr_rationale f\<rparr>"

definition list_repos_sql :: "(tiger_db, repo_summary list) stmt" where
  "list_repos_sql db = (Inr (map (\<lambda>s. \<lparr>rp_repo = rs_repo s, rp_state = rs_status s, rp_commit = rs_commit s,
       rp_indexed_at = rs_indexed_at s, rp_chunks = rs_chunk_count s,
       rp_reviews = length (filter (\<lambda>r. pr_repo r = rs_repo s) (reviews db)), rp_error = rs_error s\<rparr>)
     (sort_key (\<lambda>s. - rs_indexed_at s) (repo_index_state db))), db)"

subsection \<open>The endpoints\<close>

definition list_reviews :: "('g world, review_summary list) io" where
  "list_reviews = on_tiger (unguarded list_reviews_sql)"

definition get_review :: "(pystr \<Rightarrow> uuid option) \<Rightarrow> (pystr \<Rightarrow> int \<Rightarrow> ('g, pystr) io) option \<Rightarrow> pystr
    \<Rightarrow> ('g world, review_detail) io" where
  "get_review parse_uuid diff s = (case parse_uuid s of None \<Rightarrow> raise (OtherError (lit ''invalid UUID''))
     | Some i \<Rightarrow>
       bind_io (on_tiger (unguarded (review_row_sql i))) (\<lambda>row. case row of None \<Rightarrow> raise review_not_found
       | Some r \<Rightarrow>
         bind_io (on_tiger (unguarded (findings_sql i))) (\<lambda>fs.
         bind_io (case diff of None \<Rightarrow> ret None
             | Some get \<Rightarrow> try_except
                 (bind_io (zoom github (\<lambda>g w. w\<lparr>github := g\<rparr>) (get (vs_repo r) (vs_pr r))) (\<lambda>d. ret (Some (parse_diff_stats d))))
                 is_Exception (\<lambda>e. ret None)) (\<lambda>stats.
           ret \<lparr>vd_summary = r, vd_findings = map finding_summary_of fs, vd_stats = stats\<rparr>))))"

definition list_repos :: "('g world, repo_summary list) io" where
  "list_repos = on_tiger (unguarded list_repos_sql)"

subsection \<open>The application\<close>

datatype api_request = ListReviews | GetReview pystr | ListRepos | ListPending
  | Approve uuid "pystr option" | Reject uuid "pystr option"

datatype api_response = Reviews "review_summary list" | Review review_detail | Repos "repo_summary list"
  | Pending "pending_hitl_item list" | Resolved resolve_response

definition map_response :: "('a \<Rightarrow> 'b) \<Rightarrow> ('w, 'a) io \<Rightarrow> ('w, 'b) io" where
  "map_response f m = bind_io m (\<lambda>a. ret (f a))"

text \<open>\<open>create_api_app\<close>: three routers, each with the dependency \<open>require_auth\<close>. \<open>env\<close> is the configured token.\<close>

definition api_app :: "pystr option \<Rightarrow> (pystr \<Rightarrow> uuid option) \<Rightarrow> (rat \<Rightarrow> rat) \<Rightarrow> (pystr \<Rightarrow> int \<Rightarrow> pystr \<Rightarrow> pystr \<Rightarrow> ('g, int) io)
    \<Rightarrow> (pystr \<Rightarrow> int \<Rightarrow> ('g, pystr) io) option \<Rightarrow> pystr option \<Rightarrow> api_request \<Rightarrow> ('g world, api_response) io" where
  "api_app env parse_uuid num43 post diff authorization req =
     bind_io (of_result (require_auth env authorization)) (\<lambda>_. case req of
       ListReviews \<Rightarrow> map_response Reviews list_reviews
     | GetReview s \<Rightarrow> map_response Review (get_review parse_uuid diff s)
     | ListRepos \<Rightarrow> map_response Repos list_repos
     | ListPending \<Rightarrow> map_response Pending list_pending_items
     | Approve i nt \<Rightarrow> map_response Resolved (approve num43 post i nt)
     | Reject i nt \<Rightarrow> map_response Resolved (reject i nt))"

subsection \<open>Diff statistics of a diff\<close>

text \<open>A unified diff as its files and lines, and its text.\<close>

datatype diff_line = Context pystr | Added pystr | Removed pystr

record file_diff =
  fd_path :: pystr
  fd_hunk :: pystr
  fd_lines :: "diff_line list"

fun line_text :: "diff_line \<Rightarrow> pystr" where
  "line_text (Context s) = 32 # s"
| "line_text (Added s) = 43 # s"
| "line_text (Removed s) = 45 # s"

definition file_lines :: "file_diff \<Rightarrow> pystr list" where
  "file_lines f = [lit ''diff --git a/'' @ fd_path f @ lit '' b/'' @ fd_path f, lit ''--- a/'' @ fd_path f,
     lit ''+++ b/'' @ fd_path f, lit ''@@ '' @ fd_hunk f] @ map line_text (fd_lines f)"

definition diff_text :: "file_diff list \<Rightarrow> pystr" where
  "diff_text fs = concat (map (\<lambda>l. l @ [10]) (concat (map file_lines fs)))"

text \<open>What the counting relies on: one line of text per line, and no added or removed text that looks like a
  file header.\<close>

fun plain_line :: "diff_line \<Rightarrow> bool" where
  "plain_line (Context s) \<longleftrightarrow> \<not> list_ex is_linebreak s"
| "plain_line (Added s) \<longleftrightarrow> \<not> list_ex is_linebreak s \<and> \<not> py_startswith s (lit ''++'')"
| "plain_line (Removed s) \<longleftrightarrow> \<not> list_ex is_linebreak s \<and> \<not> py_startswith s (lit ''--'')"

definition plain_file :: "file_diff \<Rightarrow> bool" where
  "plain_file f \<longleftrightarrow> \<not> list_ex is_linebreak (fd_path f) \<and> \<not> list_ex is_linebreak (fd_hunk f) \<and> list_all plain_line (fd_lines f)"

definition is_added :: "diff_line \<Rightarrow> bool" where "is_added l \<longleftrightarrow> (case l of Added s \<Rightarrow> True | _ \<Rightarrow> False)"
definition is_removed :: "diff_line \<Rightarrow> bool" where "is_removed l \<longleftrightarrow> (case l of Removed s \<Rightarrow> True | _ \<Rightarrow> False)"

lemma split_keep_line:
  "\<not> list_ex is_linebreak l \<Longrightarrow> split_keep cur (l @ 10 # s) = (rev cur @ l @ [10]) # split_keep [] s"
proof (induction l arbitrary: cur)
  case Nil
  then show ?case by (cases s) (simp_all add: is_linebreak_def)
next
  case (Cons c l)
  have "c \<noteq> 13 \<and> \<not> is_linebreak c" using Cons.prems by (auto simp: is_linebreak_def)
  then show ?case using Cons by (cases l) simp_all
qed

lemma chomp_line: "\<not> list_ex is_linebreak l \<Longrightarrow> chomp (l @ [10]) = l"
  by (cases l rule: rev_cases) (auto simp: chomp_def is_linebreak_def)

lemma splitlines_of_lines:
  "list_all (\<lambda>l. \<not> list_ex is_linebreak l) ls \<Longrightarrow> splitlines (concat (map (\<lambda>l. l @ [10]) ls)) = ls"
proof (induction ls)
  case (Cons l ls)
  then show ?case by (simp add: splitlines_def splitlines_keep_def split_keep_line chomp_line)
qed (simp add: splitlines_def splitlines_keep_def)

lemma count_line_kinds:
  "count_line (lit ''diff --git a/'' @ s) st = st\<lparr>df_files := df_files st + 1\<rparr>"
  "count_line (lit ''--- a/'' @ s) st = st" "count_line (lit ''+++ b/'' @ s) st = st" "count_line (lit ''@@ '' @ s) st = st"
  by (simp_all add: count_line_def py_startswith_def lit_def)

lemma count_line_text:
  "plain_line l \<Longrightarrow> count_line (line_text l) st =
    st\<lparr>df_additions := df_additions st + of_bool (is_added l), df_deletions := df_deletions st + of_bool (is_removed l)\<rparr>"
  by (cases l) (auto simp: count_line_def py_startswith_def lit_def is_added_def is_removed_def)

lemma count_lines:
  "list_all plain_line ls \<Longrightarrow> fold count_line (map line_text ls) st =
    st\<lparr>df_additions := df_additions st + length (filter is_added ls), df_deletions := df_deletions st + length (filter is_removed ls)\<rparr>"
  by (induction ls arbitrary: st) (auto simp: count_line_text)

lemma count_file:
  "plain_file f \<Longrightarrow> fold count_line (file_lines f) st =
    st\<lparr>df_files := df_files st + 1, df_additions := df_additions st + length (filter is_added (fd_lines f)),
       df_deletions := df_deletions st + length (filter is_removed (fd_lines f))\<rparr>"
  by (simp add: file_lines_def count_line_kinds count_lines plain_file_def)

text \<open>The statistics are those of the diff: for files whose lines hold no line break of their own, and where
  no added text begins with two plus signs and no removed text with two dashes, \<open>parse_diff_stats\<close> returns
  the number of files, added lines and removed lines.\<close>

theorem diff_stats_exact:
  assumes "list_all plain_file fs"
  shows "parse_diff_stats (diff_text fs) = \<lparr>df_files = length fs,
    df_additions = length (filter is_added (concat (map fd_lines fs))),
    df_deletions = length (filter is_removed (concat (map fd_lines fs)))\<rparr>"
proof -
  have plain: "list_all (\<lambda>l. \<not> list_ex is_linebreak l) (file_lines f)" if "plain_file f" for f
  proof -
    have "\<not> list_ex is_linebreak (line_text l)" if "plain_line l" for l
      using that by (cases l) (auto simp: is_linebreak_def)
    then show ?thesis using that
      by (auto simp: file_lines_def plain_file_def list_all_iff) (auto simp: lit_def is_linebreak_def)
  qed
  then have "list_all (\<lambda>l. \<not> list_ex is_linebreak l) (concat (map file_lines fs))"
    using assms by (auto simp: list_all_iff)
  then have "splitlines (diff_text fs) = concat (map file_lines fs)"
    unfolding diff_text_def by (rule splitlines_of_lines)
  moreover have "fold count_line (concat (map file_lines fs)) st = st\<lparr>df_files := df_files st + length fs,
      df_additions := df_additions st + length (filter is_added (concat (map fd_lines fs))),
      df_deletions := df_deletions st + length (filter is_removed (concat (map fd_lines fs)))\<rparr>" for st
    using assms by (induction fs arbitrary: st) (simp_all add: count_file)
  ultimately show ?thesis by (simp add: parse_diff_stats_def)
qed

definition sample_diff :: "string \<Rightarrow> file_diff" where
  "sample_diff s = \<lparr>fd_path = lit ''a.c'', fd_hunk = lit ''-1,2 +1,2 @@'', fd_lines = [Context (lit ''x''), Removed (lit ''y''), Added (lit s)]\<rparr>"

theorem diff_stats_exact_witness:
  "parse_diff_stats (diff_text [sample_diff ''i++;'']) = \<lparr>df_files = 1, df_additions = 1, df_deletions = 1\<rparr>"
proof -
  have "list_all plain_file [sample_diff ''i++;'']"
    by (simp add: plain_file_def sample_diff_def lit_def is_linebreak_def py_startswith_def)
  from diff_stats_exact [OF this] show ?thesis by (simp add: sample_diff_def is_added_def is_removed_def)
qed

text \<open>An added line whose text begins with two plus signs is read as a file header and not counted.\<close>

lemma diff_stats_miss_plus_plus:
  "parse_diff_stats (diff_text [sample_diff ''++i;'']) = \<lparr>df_files = 1, df_additions = 0, df_deletions = 1\<rparr>"
proof -
  let ?ls = "concat (map file_lines [sample_diff ''++i;''])"
  have "splitlines (diff_text [sample_diff ''++i;'']) = ?ls"
    unfolding diff_text_def
    by (rule splitlines_of_lines) (simp add: file_lines_def sample_diff_def lit_def is_linebreak_def)
  then show ?thesis
    by (simp add: parse_diff_stats_def file_lines_def sample_diff_def count_line_def lit_def py_startswith_def)
qed

subsection \<open>Effects of a request\<close>

definition is_read :: "api_request \<Rightarrow> bool" where
  "is_read req \<longleftrightarrow> (case req of Approve i nt \<Rightarrow> False | Reject i nt \<Rightarrow> False | _ \<Rightarrow> True)"

definition view :: "'g world \<Rightarrow> tiger_db \<times> post list" where
  "view w = (world_db w, post_log w)"

lemma frame_on_tiger: "(\<And>db. snd (stmt db) = db) \<Longrightarrow> frame view (on_tiger (unguarded stmt))"
  unfolding frame_def
proof
  fix w :: "'g world" assume read: "\<And>db. snd (stmt db) = db"
  obtain r w' where run: "on_tiger (unguarded stmt) w = (r, w')" by (metis surj_pair)
  show "view (snd (on_tiger (unguarded stmt) w)) = view w"
    using unguarded_db(1) [OF run] on_tiger_log [OF run] read by (auto simp: run view_def)
qed

lemma frame_map_response: "frame p m \<Longrightarrow> frame p (map_response f m)"
  unfolding map_response_def by (intro frame_bind frame_ret)

lemma frame_try: "frame p m \<Longrightarrow> (\<And>e. frame p (h e)) \<Longrightarrow> frame p (try_except m c h)"
  unfolding frame_def try_except_def by (auto split: prod.split sum.split) (metis snd_conv)+

lemma frame_get_review: "frame view (get_review parse_uuid diff s)"
proof -
  have "frame view (zoom github (\<lambda>g w. w\<lparr>github := g\<rparr>) m)" for m :: "('a, pystr) io"
    by (simp add: frame_def zoom_def view_def split: prod.split)
  moreover have "snd (review_row_sql i db) = db" "snd (findings_sql i db) = db" for i db
    by (simp_all add: review_row_sql_def findings_sql_def)
  ultimately show ?thesis unfolding get_review_def
    by (auto intro!: frame_bind frame_ret frame_raise frame_try frame_on_tiger split: option.split)
qed

text \<open>C36. The API does nothing without the token and nothing on a read: unless a non-empty ASCII token is configured
  and the \<open>Authorization\<close> header is exactly \<open>Bearer\<close> and that token, a request gets an exception and leaves the world as
  it is; and a request to list or show reviews, repositories or the approval queue changes neither the database nor
  what was posted to GitHub.\<close>

theorem api_requires_token:
  "case api_app env parse_uuid num43 post diff authorization req w of (r, w') \<Rightarrow>
     ((\<exists>t. env = Some t \<and> t \<noteq> [] \<and> is_ascii t \<and> authorization = Some (bearer @ t)) \<or> (\<exists>e. r = Inl e \<and> w' = w)) \<and>
     (is_read req \<longrightarrow> world_db w' = world_db w \<and> post_log w' = post_log w)"
proof (cases "require_auth env authorization")
  case (Inl e)
  then show ?thesis by (simp add: api_app_def of_result_def [abs_def] bind_io_def)
next
  case (Inr u)
  define m where "m = (case req of
       ListReviews \<Rightarrow> map_response Reviews list_reviews
     | GetReview s \<Rightarrow> map_response Review (get_review parse_uuid diff s)
     | ListRepos \<Rightarrow> map_response Repos list_repos
     | ListPending \<Rightarrow> map_response Pending list_pending_items
     | Approve i nt \<Rightarrow> map_response Resolved (approve num43 post i nt)
     | Reject i nt \<Rightarrow> map_response Resolved (reject i nt))"
  have run: "api_app env parse_uuid num43 post diff authorization req w = m w"
    by (simp add: api_app_def m_def Inr of_result_def [abs_def] bind_io_def)
  have "frame view m" if "is_read req"
    using that unfolding m_def
    by (cases req) (auto simp: is_read_def list_reviews_def list_repos_def list_pending_items_def hq_list_pending_def
        list_reviews_sql_def list_repos_sql_def list_pending_sql_def intro!: frame_map_response frame_get_review frame_on_tiger)
  then have "is_read req \<Longrightarrow> view (snd (m w)) = view w" unfolding frame_def by blast
  then show ?thesis using Inr require_auth_exact [of env authorization] by (cases "m w") (auto simp: run view_def)
qed

theorem api_requires_token_witness:
  "let w = \<lparr>tiger = truth_conn \<lparr>clock = 0, slept = [], dep = \<lparr>script = [], store = empty_db\<rparr>\<rparr>, post_log = [], github = ()\<rparr>;
       app = api_app (Some (lit ''t0'')) (\<lambda>_. Some 0) id (\<lambda>_ _ _ _. ret 1) None
   in (case app (Some (lit ''t0'')) (Approve 0 None) w of (r, w') \<Rightarrow> \<exists>e. r = Inl e \<and> w' = w) \<and>
      (case app (Some (bearer @ lit ''t0'')) ListRepos w of (r, w') \<Rightarrow> world_db w' = world_db w \<and> post_log w' = post_log w)"
  using api_requires_token [where env = "Some (lit ''t0'')" and parse_uuid = "\<lambda>_. Some 0" and ?num43.0 = id and post = "\<lambda>_ _ _ _. ret 1" and diff = None
      and authorization = "Some (lit ''t0'')" and req = "Approve 0 None"
      and w = "\<lparr>tiger = truth_conn \<lparr>clock = 0, slept = [], dep = \<lparr>script = [], store = empty_db\<rparr>\<rparr>, post_log = [], github = ()\<rparr>"]
    api_requires_token [where env = "Some (lit ''t0'')" and parse_uuid = "\<lambda>_. Some 0" and ?num43.0 = id and post = "\<lambda>_ _ _ _. ret 1" and diff = None
      and authorization = "Some (bearer @ lit ''t0'')" and req = ListRepos
      and w = "\<lparr>tiger = truth_conn \<lparr>clock = 0, slept = [], dep = \<lparr>script = [], store = empty_db\<rparr>\<rparr>, post_log = [], github = ()\<rparr>"]
  by (simp add: Let_def bearer_def lit_def is_read_def case_prod_beta)

end
