(* ===== verification/Lifecycle.thy ===== *)
theory Lifecycle
  imports ReadApi Webhook GitHubClient Evaluation
begin

text \<open>
  The processes around the handlers: \<open>JobQueue.connect\<close>, the two \<open>build_default_app\<close> with their lifespans
  (\<open>webhook_receiver/app.py\<close>, \<open>api/app.py\<close>), \<open>GitHubAppClient.from_env\<close>, the worker's \<open>shutdown\<close> and the
  live half of \<open>evaluation/regression_gate.py\<close>. The ingress process holds its queue and pool only once its
  lifespan has opened them: \<open>ingress_connected\<close> is the state in which its deferred services are the ones of
  \<open>Webhook\<close>, shown over the locale \<open>lens\<close>.
\<close>

section \<open>Opening the job queue\<close>

definition REDIS_CONNECT_TIMEOUT :: rat where "REDIS_CONNECT_TIMEOUT = 5"
definition REDIS_COMMAND_TIMEOUT :: rat where "REDIS_COMMAND_TIMEOUT = 5"

text \<open>A client is its settings, read from the URL by \<open>RedisSettings.from_dsn\<close>, and its timeouts; a
  \<open>JobQueue\<close> is a client and a breaker.\<close>

record 's redis_client =
  rc_settings :: 's
  rc_connect_timeout :: rat
  rc_socket_timeout :: rat

record 's job_queue =
  jo_redis :: "'s redis_client"
  jo_breaker :: jq_breaker

definition job_queue_init :: "'s redis_client \<Rightarrow> jq_breaker option \<Rightarrow> 's job_queue" where
  "job_queue_init client breaker = \<lparr>jo_redis = client,
     jo_breaker = (case breaker of None \<Rightarrow> jq_make JQ_FAILURE_THRESHOLD JQ_RESET_AFTER | Some b \<Rightarrow> b)\<rparr>"

definition ping_stmt :: "(redis, bool) stmt" where
  "ping_stmt r = (Inr True, r)"

definition jq_connect :: "(pystr \<Rightarrow> exn + 's) \<Rightarrow> pystr \<Rightarrow> (redis remote rt, 's job_queue) io" where
  "jq_connect from_dsn url =
     bind_io (of_result (from_dsn url)) (\<lambda>settings.
       let client = \<lparr>rc_settings = settings, rc_connect_timeout = REDIS_CONNECT_TIMEOUT,
                     rc_socket_timeout = REDIS_COMMAND_TIMEOUT\<rparr>
       in then_io (with_retry (await_op (remote_op ping_stmt)) JQ_ATTEMPTS JQ_BASE_DELAY)
            (ret (job_queue_init client None)))"

section \<open>The ingress process\<close>

text \<open>\<open>ip_queue\<close> and \<open>ip_pool\<close> are the dictionaries \<open>connected\<close> and \<open>pools\<close>; the servers they connect to
  are there all along.\<close>

record 's ingress_process =
  ip_queue :: "'s job_queue option"
  ip_pool :: bool
  ip_redis :: "redis remote rt"
  ip_tiger :: "tiger_db conn"

definition queue_not_connected :: exn where
  "queue_not_connected = HTTPException 503 (lit ''job queue not connected yet'')"

definition database_not_connected :: exn where
  "database_not_connected = HTTPException 503 (lit ''database not connected yet'')"

definition deferred_queue :: "(rq, 'a) io \<Rightarrow> ('s ingress_process, 'a) io" where
  "deferred_queue m w = (case ip_queue w of
     None \<Rightarrow> (Inl queue_not_connected, w)
   | Some q \<Rightarrow> (case m (jo_breaker q, ip_redis w) of
       (r, (b, d)) \<Rightarrow> (r, w\<lparr>ip_queue := Some (q\<lparr>jo_breaker := b\<rparr>), ip_redis := d\<rparr>)))"

definition deferred_store :: "(tiger_db conn, 'a) io \<Rightarrow> ('s ingress_process, 'a) io" where
  "deferred_store m w = (if ip_pool w then zoom ip_tiger (\<lambda>c w. w\<lparr>ip_tiger := c\<rparr>) m w
     else (Inl database_not_connected, w))"

definition deferred_services :: "arq \<Rightarrow> 's ingress_process services" where
  "deferred_services arq =
     \<lparr>sv_mark_seen = (\<lambda>d. deferred_queue (mark_seen d)), sv_unclaim = (\<lambda>d. deferred_queue (unclaim d)),
      sv_enqueue_review = (\<lambda>j. deferred_queue (enqueue_review arq j)),
      sv_enqueue_index_repo = (\<lambda>j. deferred_queue (enqueue_index_repo arq j)),
      sv_enqueue_reindex_repo = (\<lambda>j. deferred_queue (enqueue_reindex_repo arq j)),
      sv_mark_pending = (\<lambda>repo. deferred_store (mark_pending repo))\<rparr>"

text \<open>\<open>create_app\<close> runs without a status store too.\<close>

definition with_status_store :: "(pystr \<Rightarrow> ('w, unit) io) option \<Rightarrow> 'w services \<Rightarrow> 'w services" where
  "with_status_store status_store sv = sv\<lparr>sv_mark_pending := (case status_store of
     None \<Rightarrow> (\<lambda>repo. ret ()) | Some f \<Rightarrow> f)\<rparr>"

text \<open>The lifespan. \<open>open_pool\<close> is \<open>asyncpg.create_pool\<close>, the closing calls are those of the two clients.\<close>

definition lifespan_open :: "(pystr \<Rightarrow> exn + 's) \<Rightarrow> pystr \<Rightarrow> (tiger_db conn, unit) io \<Rightarrow> ('s ingress_process, unit) io" where
  "lifespan_open from_dsn url open_pool =
     bind_io (zoom ip_redis (\<lambda>d w. w\<lparr>ip_redis := d\<rparr>) (jq_connect from_dsn url)) (\<lambda>q.
       then_io (\<lambda>w. (Inr (), w\<lparr>ip_queue := Some q\<rparr>))
         (then_io (zoom ip_tiger (\<lambda>c w. w\<lparr>ip_tiger := c\<rparr>) open_pool)
            (\<lambda>w. (Inr (), w\<lparr>ip_pool := True\<rparr>))))"

definition lifespan :: "(pystr \<Rightarrow> exn + 's) \<Rightarrow> pystr \<Rightarrow> (tiger_db conn, unit) io \<Rightarrow> (redis remote rt, unit) io
    \<Rightarrow> (tiger_db conn, unit) io \<Rightarrow> ('s ingress_process, 'a) io \<Rightarrow> ('s ingress_process, 'a) io" where
  "lifespan from_dsn url open_pool close_queue close_pool serve =
     then_io (lifespan_open from_dsn url open_pool)
       (try_finally serve
          (then_io (zoom ip_redis (\<lambda>d w. w\<lparr>ip_redis := d\<rparr>) close_queue)
             (zoom ip_tiger (\<lambda>c w. w\<lparr>ip_tiger := c\<rparr>) close_pool)))"

text \<open>The requests a process answers, one after the other: body, signature, delivery id, event.\<close>

type_synonym webhook = "pystr \<times> pystr option \<times> pystr option \<times> pystr option"

primrec serve_webhooks :: "(pystr \<Rightarrow> pystr \<Rightarrow> pystr) \<Rightarrow> parsers \<Rightarrow> 'w services \<Rightarrow> pystr \<Rightarrow> webhook list
    \<Rightarrow> ('w, (exn + response) list) io" where
  "serve_webhooks hmac ps sv secret [] = ret []"
| "serve_webhooks hmac ps sv secret (q # qs) = (\<lambda>w. case q of (body, sg, d, evt) \<Rightarrow>
     (case receive_webhook hmac ps sv secret body sg d evt w of
        (r, w') \<Rightarrow> bind_io (serve_webhooks hmac ps sv secret qs) (\<lambda>rs. ret (r # rs)) w'))"

section \<open>A state inside a state\<close>

text \<open>\<open>get\<close> and \<open>put\<close> reach a part of a state when \<open>ok\<close> holds of it. An effect is lifted when it does what
  another one does on that part, and the rest is left alone.\<close>

locale lens =
  fixes get :: "'w \<Rightarrow> 'v" and put :: "'v \<Rightarrow> 'w \<Rightarrow> 'w" and ok :: "'w \<Rightarrow> bool"
  assumes get_put: "ok w \<Longrightarrow> get (put v w) = v"
    and put_put: "ok w \<Longrightarrow> put v (put u w) = put v w"
    and put_get: "ok w \<Longrightarrow> put (get w) w = w"
    and ok_put: "ok w \<Longrightarrow> ok (put v w)"
begin

definition lifted :: "('v, 'a) io \<Rightarrow> ('w, 'a) io \<Rightarrow> bool" where
  "lifted m m' \<longleftrightarrow> (\<forall>w. ok w \<longrightarrow> m' w = (case m (get w) of (r, v) \<Rightarrow> (r, put v w)))"

lemma liftedD: "lifted m m' \<Longrightarrow> ok w \<Longrightarrow> m (get w) = (r, v) \<Longrightarrow> m' w = (r, put v w)"
  by (simp add: lifted_def)

lemma lifted_ret: "lifted (ret a) (ret a)" and lifted_raise: "lifted (raise e) (raise e)"
  and lifted_of_result: "lifted (of_result r) (of_result r)"
  by (simp_all add: lifted_def ret_def raise_def of_result_def put_get)

lemma lifted_after:
  assumes "lifted m m'" "ok w" "m (get w) = (r, v)" "lifted n n'"
  shows "n' (put v w) = (case n v of (s, u) \<Rightarrow> (s, put u w))"
  using assms by (simp add: lifted_def ok_put get_put put_put split: prod.split)

lemma lifted_bind:
  assumes m: "lifted m m'" and f: "\<And>a. lifted (f a) (f' a)"
  shows "lifted (bind_io m f) (bind_io m' f')"
  unfolding lifted_def
proof (intro allI impI)
  fix w assume w: "ok w"
  obtain r v where r: "m (get w) = (r, v)" by (metis surj_pair)
  show "bind_io m' f' w = (case bind_io m f (get w) of (r, v) \<Rightarrow> (r, put v w))"
    using liftedD [OF m w r] lifted_after [OF m w r f]
    by (cases r) (simp_all add: bind_io_def r)
qed

lemma lifted_then: "lifted m m' \<Longrightarrow> lifted k k' \<Longrightarrow> lifted (then_io m k) (then_io m' k')"
  unfolding then_io_def by (rule lifted_bind)

lemma lifted_try:
  assumes m: "lifted m m'" and h: "\<And>e. lifted (h e) (h' e)"
  shows "lifted (try_except m c h) (try_except m' c h')"
  unfolding lifted_def
proof (intro allI impI)
  fix w assume w: "ok w"
  obtain r v where r: "m (get w) = (r, v)" by (metis surj_pair)
  show "try_except m' c h' w = (case try_except m c h (get w) of (r, v) \<Rightarrow> (r, put v w))"
    using liftedD [OF m w r] lifted_after [OF m w r h]
    by (cases r) (simp_all add: try_except_def r)
qed

lemma lifted_for: "(\<And>x. lifted (f x) (f' x)) \<Longrightarrow> lifted (for_io xs f) (for_io xs f')"
  by (induction xs) (simp_all add: lifted_ret lifted_then)

lemmas lifted_intros = lifted_ret lifted_raise lifted_of_result lifted_bind lifted_then lifted_try lifted_for

definition lifted_services :: "'v services \<Rightarrow> 'w services \<Rightarrow> bool" where
  "lifted_services sv sv' \<longleftrightarrow>
     (\<forall>d. lifted (sv_mark_seen sv d) (sv_mark_seen sv' d)) \<and> (\<forall>d. lifted (sv_unclaim sv d) (sv_unclaim sv' d)) \<and>
     (\<forall>j. lifted (sv_enqueue_review sv j) (sv_enqueue_review sv' j)) \<and>
     (\<forall>j. lifted (sv_enqueue_index_repo sv j) (sv_enqueue_index_repo sv' j)) \<and>
     (\<forall>j. lifted (sv_enqueue_reindex_repo sv j) (sv_enqueue_reindex_repo sv' j)) \<and>
     (\<forall>repo. lifted (sv_mark_pending sv repo) (sv_mark_pending sv' repo))"

lemma lifted_op: "lifted_services sv sv' \<Longrightarrow> lifted (run_op sv op) (run_op sv' op)"
  by (cases op) (auto simp: lifted_services_def intro!: lifted_intros)

lemma lifted_enqueue_all: "lifted_services sv sv' \<Longrightarrow> lifted (enqueue_all sv d ops) (enqueue_all sv' d ops)"
  unfolding enqueue_all_def
  by (intro lifted_intros lifted_op) (auto simp: lifted_services_def)

lemma lifted_receive:
  assumes "lifted_services sv sv'"
  shows "lifted (receive_webhook hmac ps sv secret body sg d evt) (receive_webhook hmac ps sv' secret body sg d evt)"
proof -
  have claim: "lifted (sv_mark_seen sv d) (sv_mark_seen sv' d)" for d
    using assms by (simp add: lifted_services_def)
  show ?thesis unfolding receive_webhook_def
    by (rule lifted_bind [OF lifted_of_result])
      (auto intro!: lifted_intros lifted_enqueue_all [OF assms] claim split: option.split)
qed

lemma lifted_serve:
  assumes "lifted_services sv sv'"
  shows "lifted (serve_webhooks hmac ps sv secret qs) (serve_webhooks hmac ps sv' secret qs)"
proof (induction qs)
  case Nil
  show ?case by (simp add: lifted_ret)
next
  case (Cons q qs)
  obtain body sg d evt where q: "q = (body, sg, d, evt)" by (metis surj_pair)
  show ?case unfolding lifted_def
  proof (intro allI impI)
    fix w assume w: "ok w"
    obtain r v where r: "receive_webhook hmac ps sv secret body sg d evt (get w) = (r, v)" by (metis surj_pair)
    have rest: "lifted (bind_io (serve_webhooks hmac ps sv secret qs) (\<lambda>rs. ret (r # rs)))
        (bind_io (serve_webhooks hmac ps sv' secret qs) (\<lambda>rs. ret (r # rs)))"
      by (intro lifted_bind Cons.IH lifted_ret)
    show "serve_webhooks hmac ps sv' secret (q # qs) w =
        (case serve_webhooks hmac ps sv secret (q # qs) (get w) of (rs, v) \<Rightarrow> (rs, put v w))"
      using liftedD [OF lifted_receive [OF assms] w r] lifted_after [OF lifted_receive [OF assms] w r rest]
      by (simp add: q r)
  qed
qed

end

text \<open>A connected process is one whose lifespan has opened the queue and the pool.\<close>

definition ingress_connected :: "'s ingress_process \<Rightarrow> bool" where
  "ingress_connected w \<longleftrightarrow> ip_queue w \<noteq> None \<and> ip_pool w"

definition ingress_part :: "'s ingress_process \<Rightarrow> ingress_world" where
  "ingress_part w = ((jo_breaker (the (ip_queue w)), ip_redis w), ip_tiger w)"

definition put_ingress :: "ingress_world \<Rightarrow> 's ingress_process \<Rightarrow> 's ingress_process" where
  "put_ingress v w = w\<lparr>ip_queue := map_option (jo_breaker_update (\<lambda>_. fst (fst v))) (ip_queue w),
     ip_redis := snd (fst v), ip_tiger := snd v\<rparr>"

interpretation ingress_process: lens ingress_part put_ingress ingress_connected
  by unfold_locales (auto simp: ingress_part_def put_ingress_def ingress_connected_def)

lemma deferred_queue_lifted: "ingress_process.lifted (on_queue m) (deferred_queue m)"
  by (auto simp: ingress_process.lifted_def on_queue_def deferred_queue_def zoom_def ingress_part_def put_ingress_def
      ingress_connected_def split: prod.split)

lemma deferred_store_lifted: "ingress_process.lifted (on_status m) (deferred_store m)"
  by (auto simp: ingress_process.lifted_def on_status_def deferred_store_def zoom_def ingress_part_def put_ingress_def
      ingress_connected_def split: prod.split)

lemma deferred_services_lifted: "ingress_process.lifted_services (ingress_services arq) (deferred_services arq)"
  by (simp add: ingress_process.lifted_services_def ingress_services_def deferred_services_def
      deferred_queue_lifted deferred_store_lifted)

text \<open>Opening the process leaves the data of Redis alone; the queue starts with a closed breaker.\<close>

lemma ping_frame:
  "with_retry (await_op (remote_op ping_stmt)) JQ_ATTEMPTS JQ_BASE_DELAY w = (r, w') \<Longrightarrow> store (dep w') = store (dep w)"
  using with_retry_rule(1) [where P = "\<lambda>s. s = store (dep w)" and Q = "\<lambda>_ _. True"] by (fastforce simp: ping_stmt_def)

lemma lifespan_open_connects:
  assumes "lifespan_open from_dsn url open_pool w = (Inr (), w')"
  shows "ingress_connected w' \<and> jo_breaker (the (ip_queue w')) = jq_make JQ_FAILURE_THRESHOLD JQ_RESET_AFTER \<and>
    store (dep (ip_redis w')) = store (dep (ip_redis w))"
proof -
  obtain settings d where "from_dsn url = Inr settings"
    and d: "with_retry (await_op (remote_op ping_stmt)) JQ_ATTEMPTS JQ_BASE_DELAY (ip_redis w) = (Inr d, ip_redis w')"
    and w': "ip_queue w' \<noteq> None" "jo_breaker (the (ip_queue w')) = jq_make JQ_FAILURE_THRESHOLD JQ_RESET_AFTER" "ip_pool w'"
    using assms
    by (auto simp: lifespan_open_def jq_connect_def job_queue_init_def bind_io_def then_io_def of_result_def zoom_def
        ret_def Let_def split: sum.splits prod.splits)
  show ?thesis using w' ping_frame [OF d] by (simp add: ingress_connected_def)
qed

text \<open>Before its lifespan, a process refuses every webhook that asks for work, and touches nothing.\<close>

lemma deferred_before_open:
  "ip_queue w = None \<Longrightarrow> deferred_queue m w = (Inl queue_not_connected, w)"
  by (simp add: deferred_queue_def)

lemma ingress_before_open:
  assumes "ip_queue w = None"
  shows "snd (receive_webhook hmac ps (deferred_services arq) secret body sg d evt w) = w \<and>
    fst (receive_webhook hmac ps (deferred_services arq) secret body sg d evt w) \<noteq> Inr accepted"
  using assms
  by (auto simp: receive_webhook_def deferred_services_def deferred_before_open accepted_def ok_response_def lit_def
      bind_io_def of_result_def raise_def ret_def try_except_def queue_not_connected_def
      split: sum.split option.split)

section \<open>The GitHub client and the worker\<close>

record app_credentials =
  ac_app_id :: pystr
  ac_private_key_pem :: pystr

text \<open>\<open>backend\<close> is the directory two levels above the module; the files are those \<open>read_text\<close> knows.\<close>

definition is_absolute :: "pystr \<Rightarrow> bool" where
  "is_absolute p \<longleftrightarrow> py_startswith p (lit ''/'')"

definition env_item :: "(pystr \<Rightarrow> pystr option) \<Rightarrow> pystr \<Rightarrow> exn + pystr" where
  "env_item env k = (case env k of None \<Rightarrow> Inl (KeyError k) | Some v \<Rightarrow> Inr v)"

definition from_env :: "(pystr \<Rightarrow> exn + pystr) \<Rightarrow> pystr \<Rightarrow> (pystr \<Rightarrow> pystr option) \<Rightarrow> exn + app_credentials" where
  "from_env read_text backend env = (case env_item env (lit ''GITHUB_PRIVATE_KEY_PATH'') of Inl e \<Rightarrow> Inl e
     | Inr p \<Rightarrow>
       (let key_path = (if \<not> is_absolute p then backend @ lit ''/'' @ p else p) in
        case env_item env (lit ''GITHUB_APP_ID'') of Inl e \<Rightarrow> Inl e
        | Inr app \<Rightarrow> (case read_text key_path of Inl e \<Rightarrow> Inl e
          | Inr pem \<Rightarrow> Inr \<lparr>ac_app_id = app, ac_private_key_pem = pem\<rparr>)))"

definition gh_aclose :: "bool \<Rightarrow> ('w, unit) io \<Rightarrow> ('w, unit) io" where
  "gh_aclose owns_http close_http = (if owns_http then close_http else ret ())"

text \<open>The worker's context holds a client once \<open>startup\<close> has stored it.\<close>

definition close_if :: "('w, unit) io option \<Rightarrow> ('w, unit) io" where
  "close_if c = (case c of None \<Rightarrow> ret () | Some close \<Rightarrow> close)"

definition shutdown :: "('w, unit) io option \<Rightarrow> ('w, unit) io option \<Rightarrow> ('w, unit) io option \<Rightarrow> ('w, unit) io" where
  "shutdown gh rd pl = then_io (close_if gh) (then_io (close_if rd) (close_if pl))"

section \<open>The API process\<close>

record cors_config =
  cc_origins :: "pystr list"
  cc_credentials :: bool
  cc_methods :: "pystr list"
  cc_headers :: "pystr list"

text \<open>What \<open>_add_cors\<close> hands to the middleware.\<close>

definition add_cors :: "pystr option \<Rightarrow> cors_config" where
  "add_cors env = \<lparr>cc_origins = cors_origins env, cc_credentials = False, cc_methods = [lit ''GET'', lit ''POST''],
     cc_headers = [lit ''Authorization'', lit ''Content-Type'']\<rparr>"

text \<open>\<open>build_default_app\<close> hands the approvals router \<open>lambda: TruthStore(app.state.pool)\<close>: an approval that asks for
  the truth store gets a new one, whose guard has a new breaker. The other endpoints use no guard.\<close>

definition new_truth_store :: "'g world \<Rightarrow> 'g world" where
  "new_truth_store w = w\<lparr>tiger := truth_conn (snd (tiger w))\<rparr>"

definition default_api :: "pystr option \<Rightarrow> (pystr \<Rightarrow> uuid option) \<Rightarrow> (rat \<Rightarrow> rat) \<Rightarrow> (pystr \<Rightarrow> int \<Rightarrow> pystr \<Rightarrow> pystr \<Rightarrow> ('g, int) io)
    \<Rightarrow> (pystr \<Rightarrow> int \<Rightarrow> ('g, pystr) io) \<Rightarrow> pystr option \<Rightarrow> api_request \<Rightarrow> ('g world, api_response) io" where
  "default_api env parse_uuid num43 post diff authorization req w =
     api_app env parse_uuid num43 post (Some diff) authorization req
       (case req of Approve i nt \<Rightarrow> new_truth_store w | _ \<Rightarrow> w)"

definition api_lifespan :: "('w, unit) io \<Rightarrow> exn + app_credentials \<Rightarrow> ('w, unit) io \<Rightarrow> ('w, unit) io
    \<Rightarrow> (app_credentials \<Rightarrow> ('w, 'a) io) \<Rightarrow> ('w, 'a) io" where
  "api_lifespan open_pool client aclose close_pool serve =
     then_io open_pool (bind_io (of_result client) (\<lambda>gh. try_finally (serve gh) (then_io aclose close_pool)))"

text \<open>So what approvals have seen of the database is forgotten: in this process the breaker of the truth store
  never opens, whatever fails. The application of \<open>create_api_app\<close> keeps one store, whose breaker opens.\<close>

lemma default_api_forgets:
  "default_api env parse_uuid num43 post diff authorization (Approve i nt) (w\<lparr>tiger := (b, snd (tiger w))\<rparr>) =
   default_api env parse_uuid num43 post diff authorization (Approve i nt) w"
  by (simp add: default_api_def new_truth_store_def)

section \<open>Clients and pools\<close>

record llm_client =
  lc_api_key :: pystr
  lc_timeout :: rat
  lc_max_retries :: nat

definition LLM_MAX_RETRIES :: nat where "LLM_MAX_RETRIES = 3"

definition create_llm_client :: "pystr \<Rightarrow> llm_client" where
  "create_llm_client api_key =
     \<lparr>lc_api_key = api_key, lc_timeout = LLM_TIMEOUT_SECONDS, lc_max_retries = LLM_MAX_RETRIES\<rparr>"

text \<open>The guard around a chat call has one attempt and the timeout the client gives to each of its requests. A call
  whose first request has timed out has already lasted longer, so the client's retries are always cut off.\<close>

lemma timed_out_request_is_not_retried:
  assumes "lc_timeout (create_llm_client api_key) < dur (llm q (dep w))"
    and "case bo of None \<Rightarrow> True | Some b \<Rightarrow> before_call (clock w) b = Inr ()"
  shows "fst (guarded_parse llm q (bo, w)) =
      Inl (OperationTimeout (lit ''openai.chat.completions.parse'') LLM_TIMEOUT_SECONDS) \<and>
    clock (snd (snd (guarded_parse llm q (bo, w)))) = clock w + LLM_TIMEOUT_SECONDS"
proof -
  have cut: "with_timeout (llm q) LLM_TIMEOUT_SECONDS (lit ''openai.chat.completions.parse'') w =
      (Inl (OperationTimeout (lit ''openai.chat.completions.parse'') LLM_TIMEOUT_SECONDS),
       w\<lparr>clock := clock w + LLM_TIMEOUT_SECONDS, dep := cut_dep (llm q (dep w))\<rparr>)"
    using assms(1) by (simp add: create_llm_client_def with_timeout_def Let_def)
  show ?thesis using assms(2)
    by (cases bo) (simp_all add: guarded_parse_def guard_call_def guard_attempt_def chat_guard_def guard_defaults_def
        retry_async_def retry_loop.simps cut)
qed

text \<open>The options of the pools, one per \<open>create_pool\<close>.\<close>

record pool_options =
  po_command_timeout :: "rat option"
  po_min_size :: nat
  po_max_size :: nat
  po_vector :: bool

definition worker_pool :: pool_options where
  "worker_pool = \<lparr>po_command_timeout = Some DB_COMMAND_TIMEOUT_SECONDS, po_min_size = 1, po_max_size = 5, po_vector = True\<rparr>"

definition truth_pool :: pool_options where
  "truth_pool = \<lparr>po_command_timeout = Some DB_COMMAND_TIMEOUT_SECONDS, po_min_size = 1, po_max_size = 5, po_vector = False\<rparr>"

definition events_pool :: pool_options where
  "events_pool = \<lparr>po_command_timeout = Some 10, po_min_size = 1, po_max_size = 5, po_vector = False\<rparr>"

definition api_pool :: pool_options where
  "api_pool = \<lparr>po_command_timeout = Some 10, po_min_size = 1, po_max_size = 5, po_vector = False\<rparr>"

definition ingress_pool :: pool_options where
  "ingress_pool = \<lparr>po_command_timeout = None, po_min_size = 1, po_max_size = 5, po_vector = False\<rparr>"

text \<open>Every pool but the one of the ingress bounds its commands, all by the same time.\<close>

lemma pool_timeouts:
  "list_all (\<lambda>p. po_command_timeout p = Some 10) [worker_pool, truth_pool, events_pool, api_pool] \<and>
   po_command_timeout ingress_pool = None"
  by (simp add: worker_pool_def truth_pool_def events_pool_def api_pool_def ingress_pool_def DB_COMMAND_TIMEOUT_SECONDS_def)

section \<open>The live regression gate\<close>

text \<open>\<open>hexes\<close> are the random suffixes of the cases' repositories, \<open>cases\<close> is what \<open>load_golden_cases\<close> gives;
  \<open>open_pool\<close> and \<open>close_pool\<close> are the pool's, \<open>gl_file\<close> is \<open>baseline.json\<close>.\<close>

record ('e, 'c) gate_live =
  gl_agents :: "('e, 'c) agent_world"
  gl_file :: "pystr option"

definition on_agents :: "(('e, 'c) agent_world, 'a) io \<Rightarrow> (('e, 'c) gate_live, 'a) io" where
  "on_agents m = zoom gl_agents (\<lambda>a w. w\<lparr>gl_agents := a\<rparr>) m"

definition run_live_suite :: "exn + golden_case list \<Rightarrow> (('e, 'c) agent_world, unit) io \<Rightarrow> (('e, 'c) agent_world, unit) io
    \<Rightarrow> (golden_case list \<Rightarrow> (('e, 'c) agent_world, case_score list) io) \<Rightarrow> (('e, 'c) agent_world, case_score list \<times> pystr list) io" where
  "run_live_suite cases open_pool close_pool suite_of =
     bind_io (of_result cases) (\<lambda>cs.
       then_io open_pool
         (bind_io (try_finally (suite_of cs) close_pool) (\<lambda>suite. ret (suite, map gc_id cs))))"

definition load_baseline :: "(pystr \<Rightarrow> exn + baseline) \<Rightarrow> (('e, 'c) gate_live, baseline) io" where
  "load_baseline parse w = (case gl_file w of
     None \<Rightarrow> (Inl (FileNotFoundError (lit ''baseline.json'')), w) | Some text \<Rightarrow> (parse text, w))"

definition write_baseline :: "(baseline \<Rightarrow> pystr) \<Rightarrow> baseline \<Rightarrow> (('e, 'c) gate_live, unit) io" where
  "write_baseline dump b w = (Inr (), w\<lparr>gl_file := Some (dump b @ [10])\<rparr>)"

definition live_gate :: "pystr option \<Rightarrow> pystr option \<Rightarrow> bool \<Rightarrow> exn + golden_case list \<Rightarrow> (('e, 'c) agent_world, unit) io
    \<Rightarrow> (('e, 'c) agent_world, unit) io \<Rightarrow> (golden_case list \<Rightarrow> (('e, 'c) agent_world, case_score list) io)
    \<Rightarrow> (pystr \<Rightarrow> exn + baseline) \<Rightarrow> (baseline \<Rightarrow> pystr) \<Rightarrow> pystr \<Rightarrow> (('e, 'c) gate_live, nat) io" where
  "live_gate db_url api_key update cases open_pool close_pool suite_of parse dump now =
     gate_main db_url api_key update (on_agents (run_live_suite cases open_pool close_pool suite_of))
       (load_baseline parse) (write_baseline dump) (ret now)"

text \<open>A baseline recorded by \<open>--update-baseline\<close> lets a later run with the same scores pass.\<close>

lemma updated_baseline_passes:
  assumes json: "\<And>b. parse (dump b @ [10]) = Inr b" and creds: "has_live_creds db_url api_key"
    and update: "live_gate db_url api_key True cases open_pool close_pool suite_of parse dump now w = (Inr n, w1)"
    and same: "run_live_suite cases open_pool close_pool suite_of (gl_agents w) = (Inr (suite, ids), a)"
      "run_live_suite cases2 open_pool close_pool suite_of (gl_agents w1) = (Inr (suite, ids2), a2)"
  shows "fst (live_gate db_url api_key False cases2 open_pool close_pool suite_of parse dump now2 w1) = Inr 0"
proof -
  have "gl_file w1 = Some (dump (baseline_from_suite now suite ids) @ [10])"
    using update creds same(1)
    by (auto simp: live_gate_def gate_main_def on_agents_def write_baseline_def bind_io_def then_io_def zoom_def ret_def)
  then show ?thesis using creds same(2) json updated_passes
    by (simp add: live_gate_def gate_main_def on_agents_def load_baseline_def bind_io_def zoom_def ret_def)
qed

text \<open>The pool is closed whatever the suite does, and never opened without cases.\<close>

lemma live_suite_closes:
  assumes "open_pool w = (Inr (), w1)" "suite_of cs w1 = (r, w2)" "close_pool w2 = (Inr (), w3)"
  shows "snd (run_live_suite (Inr cs) open_pool close_pool suite_of w) = w3 \<and>
    run_live_suite (Inl e) open_pool close_pool suite_of w = (Inl e, w)"
  using assms by (cases r) (simp_all add: run_live_suite_def bind_io_def then_io_def of_result_def try_finally_def ret_def)

section \<open>Properties\<close>

definition deferred_sample :: "'s \<Rightarrow> 's ingress_process" where
  "deferred_sample s = \<lparr>ip_queue = None, ip_pool = False, ip_redis = snd (fst (sample_ingress [])), ip_tiger = snd (sample_ingress [])\<rparr>"

text \<open>C14. The production ingress is the one the theorems on webhooks speak of: once its lifespan has opened the queue and
  the pool, it answers any sequence of webhooks, under any faults, as the handler over a \<open>JobQueue\<close> with a closed
  breaker and the status store does, and leaves Redis and the database in the same state; before that, it answers no
  webhook with \<open>accepted\<close> and touches neither.\<close>

theorem default_ingress_refines:
  assumes "lifespan_open from_dsn url open_pool w0 = (Inr (), w)"
    and "serve_webhooks hmac ps (ingress_services arq) secret qs
      ((jq_make JQ_FAILURE_THRESHOLD JQ_RESET_AFTER, ip_redis w), ip_tiger w) = (r, v)"
  shows "\<exists>w'. serve_webhooks hmac ps (deferred_services arq) secret qs w = (r, w') \<and> ingress_connected w' \<and>
    ingress_part w' = v \<and> store (dep (ip_redis w)) = store (dep (ip_redis w0)) \<and>
    (ip_queue w0 = None \<longrightarrow>
       snd (receive_webhook hmac ps (deferred_services arq) secret body sg d evt w0) = w0 \<and>
       fst (receive_webhook hmac ps (deferred_services arq) secret body sg d evt w0) \<noteq> Inr accepted)"
proof -
  note start = lifespan_open_connects [OF assms(1)]
  then have part: "ingress_part w = ((jq_make JQ_FAILURE_THRESHOLD JQ_RESET_AFTER, ip_redis w), ip_tiger w)"
    and c: "ingress_connected w" by (simp_all add: ingress_part_def)
  have "serve_webhooks hmac ps (deferred_services arq) secret qs w = (r, put_ingress v w)"
    using ingress_process.liftedD [OF ingress_process.lifted_serve [OF deferred_services_lifted] c] part assms(2) by simp
  with start c show ?thesis
    by (intro exI [of _ "put_ingress v w"])
      (simp add: ingress_process.ok_put ingress_process.get_put ingress_before_open)
qed

definition sample_ping_world :: "unit ingress_process" where
  "sample_ping_world = snd (lifespan_open (\<lambda>_. Inr ()) (lit ''redis://q'') (ret ()) (deferred_sample ()))"

abbreviation sample_webhook :: webhook where
  "sample_webhook \<equiv> (lit ''b'', Some (lit ''sha256=ab12''), Some (lit ''d''), Some (lit ''pull_request''))"

lemma sample_open:
  "fst (lifespan_open (\<lambda>_. Inr ()) (lit ''redis://q'') (ret ()) (deferred_sample ())) = Inr ()"
  "fst (serve_webhooks sample_hmac sample_parsers (ingress_services counting_arq) (lit ''s'') [sample_webhook]
     ((jq_make JQ_FAILURE_THRESHOLD JQ_RESET_AFTER, ip_redis sample_ping_world), ip_tiger sample_ping_world)) = Inr [Inr accepted]"
  by code_simp+

theorem default_ingress_refines_witness:
  "fst (serve_webhooks sample_hmac sample_parsers (deferred_services counting_arq) (lit ''s'') [sample_webhook]
      sample_ping_world) = Inr [Inr accepted]"
proof -
  have opened: "lifespan_open (\<lambda>_. Inr ()) (lit ''redis://q'') (ret ()) (deferred_sample ()) = (Inr (), sample_ping_world)"
    using sample_open(1) unfolding sample_ping_world_def by (metis prod.collapse)
  obtain v where v: "serve_webhooks sample_hmac sample_parsers (ingress_services counting_arq) (lit ''s'') [sample_webhook]
     ((jq_make JQ_FAILURE_THRESHOLD JQ_RESET_AFTER, ip_redis sample_ping_world), ip_tiger sample_ping_world) =
     (Inr [Inr accepted], v)"
    using sample_open(2) by (metis prod.collapse)
  from default_ingress_refines [OF opened v] show ?thesis by (metis fst_conv)
qed

end
