(* ===== verification/Spec2Isabelle.thy ===== *)
theory Spec2Isabelle
  imports Conformance InjectionGuard Service Indexing Lifecycle
begin

text \<open>
  A verification development of the AI pull-request review service under \<open>src/backend\<close>.

  THE PROGRAM. GitHub sends webhooks to \<open>webhook_receiver/app.py\<close>. Its handler checks the signature, claims the
  delivery id in Redis and queues jobs: a review for a pull request, an index or re-index for an
  installation or a push. The worker \<open>job_queue/arq_worker.py\<close> takes a review job, creates the review row,
  fetches the diff and runs the graph of \<open>orchestrator/graph.py\<close> behind \<open>langgraph_engine.py\<close>, with its
  checkpoints in Redis (\<open>redis_checkpointer.py\<close>): four specialists (\<open>agents/\<close>) read the diff beside context
  retrieved from the index (\<open>memory/\<close>), and the aggregate step (\<open>orchestrator/nodes.py\<close>) merges their findings,
  scores them and either posts a review to GitHub or queues it for a human. Humans resolve the queue over the
  API (\<open>api/hitl.py\<close>, \<open>hitl/queue.py\<close>). The index is written by \<open>ingestion/\<close>. Every call that leaves the
  process runs behind a guard of \<open>reliability/\<close>. Events and costs go to one table (\<open>observability/\<close>,
  \<open>economics/\<close>). \<open>evaluation/\<close> scores the specialists on golden cases.

  CONVENTIONS. An asynchronous function that runs in a world \<open>'w\<close> is a function of type \<open>('w, 'a) io\<close>, from a
  world to an exception or a value and the next world; exceptions are the datatype \<open>exn\<close>. A dependency under
  guard is a clock, the log of its sleeps and its own state (\<open>rt\<close>); a store that can fail is a script of faults
  and the stored data (\<open>remote\<close>): each request consumes one fault, which says how long it takes, whether an
  exception comes back, and whether the statement took effect before. A statement is a function on the data. Text
  is a list of code points, floats are rationals with the rounding \<open>fl\<close> of binary64 after each operation, Python
  integers are \<open>int\<close>. Columns with a scale round by parameters (\<open>num43\<close>, \<open>num106\<close>).

  THEORIES, in the order of their dependencies.
  \<^item> \<open>Prelude\<close>, \<open>PyString\<close>, \<open>PyFloat\<close>, \<open>PyEffects\<close>: insertion-ordered dictionaries, Python strings, binary64, effects
    with their invariants (\<open>keeps\<close>) and frames (\<open>frame\<close>).
  \<^item> \<open>Reliability\<close>: \<open>reliability/timeout.py\<close>, \<open>retry.py\<close>, \<open>circuit_breaker.py\<close>, \<open>guard.py\<close>, \<open>idempotency.py\<close>.
    What a guarded call does is stated over the list of its attempts; the breaker fails fast after its threshold; a
    call is bounded in time. The retry loop recurses on the attempts left, so it needs no fuel.
    \<open>Conformance\<close>: \<open>conformance.py\<close> on the three breakers of the code, and their agreement on every sequence of calls.
  \<^item> \<open>FaultModel\<close>, \<open>Database\<close>: faults and retried statements, the tables of the migrations and their keys (\<open>wf_db\<close>).
    An idempotent statement behind a guard takes effect at most once in effect, exactly once when it returns.
  \<^item> \<open>Contracts\<close>: \<open>agents/contracts.py\<close>. \<open>TruthStore\<close>: \<open>integrations/truth_store.py\<close>. \<open>HitlQueue\<close>: \<open>hitl/queue.py\<close>.
    \<open>Observability\<close>: \<open>observability/\<close>, \<open>economics/\<close>.
  \<^item> \<open>Aggregator\<close>, \<open>AggregateStep\<close>: \<open>orchestrator/nodes.py\<close>: deduplication, score, gate, rendering; then the step over
    its collaborators. The locale \<open>gate_world\<close> states the contract of the collaborators and proves that the
    gate acts once per delivery; the program's collaborators interpret it.
  \<^item> \<open>HitlApi\<close>: \<open>api/hitl.py\<close>, the two handlers and their interleavings as a step relation with its invariant.
  \<^item> \<open>Auth\<close>, \<open>JobQueue\<close>, \<open>RepoStatus\<close>, \<open>Webhook\<close>: \<open>auth/\<close>, \<open>webhook_receiver/signature.py\<close>, \<open>job_queue/queue.py\<close>,
    \<open>ingestion/repo_status.py\<close>, \<open>webhook_receiver/app.py\<close> and \<open>api/schemas.py\<close>.
  \<^item> \<open>GitHubClient\<close>: \<open>integrations/github_client.py\<close>, its own transport with breaker and retry, tokens, API calls.
  \<^item> \<open>InjectionGuard\<close>: \<open>security/injection_guard.py\<close>; the regular expressions of the denylist are a datatype with
    an executable matcher.
  \<^item> \<open>ContextRetriever\<close>, \<open>BaseAgent\<close>: \<open>memory/context_retriever.py\<close>; \<open>prompts/registry.py\<close>, \<open>agents/base_agent.py\<close>,
    \<open>agents/llm_client.py\<close>, \<open>agents/specialists/\<close>. The locale \<open>agent_env\<close> is what an agent relies on of its sink,
    budget, retriever and model; the production wiring interprets it.
  \<^item> \<open>Checkpointer\<close>, \<open>ReviewGraph\<close>: \<open>orchestrator/redis_checkpointer.py\<close>; \<open>state.py\<close>, \<open>graph.py\<close>,
    \<open>langgraph_engine.py\<close> and \<open>run_review\<close> of the worker.
  \<^item> \<open>Pipeline\<close>: \<open>startup\<close> of the worker and the whole review job on one world, over any sequence of attempts.
    \<open>Liveness\<close>: total correctness of effects, and that an attempt whose services answer returns and settles the review.
  \<^item> \<open>Consistency\<close>, \<open>Service\<close>: the database under all its writers. \<open>db_write\<close> is the relation of the program's statements;
    \<open>typed_db\<close>, what readers expect of stored values, is its invariant, and \<open>history_kept\<close> what no write undoes. Each
    handler and job only makes such writes (\<open>only_writes\<close>), so both hold over every run of the deployment (\<open>service_step\<close>).
  \<^item> \<open>Chunker\<close>, \<open>Indexing\<close>: \<open>ingestion/chunker.py\<close>; \<open>source_fetcher.py\<close>, \<open>indexer.py\<close> and the two index jobs.
  \<^item> \<open>Evaluation\<close>: \<open>evaluation/\<close>. \<open>ReadApi\<close>: \<open>api/reviews.py\<close>, \<open>api/repos.py\<close>, \<open>create_api_app\<close>.
  \<^item> \<open>Lifecycle\<close>: the processes: \<open>JobQueue.connect\<close>, both \<open>build_default_app\<close> with their lifespans, \<open>from_env\<close>, the worker's
    \<open>shutdown\<close>, the live regression gate. The deferred services of the ingress process are those of \<open>Webhook\<close> once it is
    connected, by the locale \<open>lens\<close> of a state inside a state.
  \<^item> The section after this text joins webhook, queue and pipeline: what follows from an accepted pull request.

  BOUNDS AND FUEL. Recursion is structural or has a measure (\<open>window_loop\<close>, the retry loops count attempts), except the
  SCAN loop of \<open>adelete_thread\<close>, which only ends because of what Redis promises of its cursors: \<open>delete_loop\<close> is a
  \<open>partial_function\<close>, and \<open>adelete_thread_returns\<close> shows that it returns. There is no fuel. The constants of the code (timeouts, attempts, thresholds, limits) are definitions of the same name.

  PARAMETERS. Code that is not in the repository is an argument: the language model and embeddings endpoint, the HTTP
  transport, Redis and PostgreSQL failures, SHA-256 and HMAC, JSON and YAML parsing, pickle, the SCAN command
  with its documented guarantee, tar extraction and the file tree, the distance of vectors and the rank of a text search, the wall clock, random tags and uuids. LangGraph
  runs nodes in some schedule: a theorem about the job holds for all of them.

  NOT MODELLED. What opens a connection inside a library (\<open>asyncpg.create_pool\<close>, \<open>AsyncOpenAI\<close>), HTTP routing and the CORS
  middleware of FastAPI, the names in \<open>WorkerSettings\<close>, the command line; Protocol classes,
  which have no code; the frontend, tests, migrations and the prompt texts. Concurrency is modelled where the code depends
  on it (approvals, lost replies, resumed attempts); elsewhere operations run one after the other.
\<close>

section \<open>From the webhook to the review\<close>

text \<open>Posts and queued human reviews so far.\<close>

definition actions :: "'g world \<Rightarrow> nat" where
  "actions w = length (post_log w) + length (queued_db (world_db w))"

definition posts_only :: "pystr \<Rightarrow> int \<Rightarrow> 'g world \<Rightarrow> 'g world \<Rightarrow> bool" where
  "posts_only repo n w w' \<longleftrightarrow> (\<exists>new. post_log w' = post_log w @ new \<and> list_all (\<lambda>(r, m, body, evt). r = repo \<and> m = n) new)"

lemma posts_only_refl [simp]: "post_log w' = post_log w \<Longrightarrow> posts_only repo n w w'"
  by (auto simp: posts_only_def)

lemma posts_only_trans: "posts_only repo n a b \<Longrightarrow> posts_only repo n b c \<Longrightarrow> posts_only repo n a c"
  by (auto simp: posts_only_def)

lemma idle_actions: "idle w w' \<Longrightarrow> actions w' = actions w \<and> posts_only repo n w w'"
  by (simp add: idle_def actions_def w_queued_def)

lemma deed_actions: "deed t repo n d w w' \<Longrightarrow> actions w' = Suc (actions w) \<and> posts_only repo n w w'"
  by (auto simp: deed_def actions_def tiger_gate.acted_def w_queued_def posts_only_def Let_def split: if_splits)

text \<open>One attempt acts at most once, exactly once when it is the first of its delivery to return, and leaves the
  delivery open only when it has not acted or failed after acting.\<close>

lemma attempt_actions:
  assumes "sound_deps deps" "own_checkpoint a" "w_ok w"
    and "run_review (attempt_worker diff deps a) (Inr (at_job a)) w = (r, w')"
  defines "d \<equiv> rj_delivery (at_job a)"
  shows "w_ok w' \<and> posts_only (rj_repo (at_job a)) (rj_pr (at_job a)) w w' \<and>
    (if done_with d w then actions w' = actions w \<and> done_with d w'
     else case r of
       Inl e \<Rightarrow> actions w' = actions w \<and> \<not> done_with d w' \<or> actions w' = Suc (actions w)
     | Inr x \<Rightarrow> actions w' = Suc (actions w) \<and> done_with d w')"
proof -
  note out = attempt_careful [OF assms(1-4)]
  have C: "w_ok w'" "done_with d w \<longrightarrow> done_with d w'"
    "idle w w' \<or> \<not> done_with d w \<and> deed (gd_threshold deps) (rj_repo (at_job a)) (rj_pr (at_job a)) d w w'"
    using out by (simp_all add: attempt_outcome_def careful_def d_def)
  have R: "done_with d w' \<and> deed (gd_threshold deps) (rj_repo (at_job a)) (rj_pr (at_job a)) d w w'"
    if "\<not> done_with d w" "r = Inr x" for x
    using out that by (simp add: attempt_outcome_def d_def)
  have I: "done_with d w' = done_with d w" if "idle w w'" using that by (simp add: idle_def)
  show ?thesis using C I R idle_actions [of w w'] deed_actions [of _ "rj_repo (at_job a)" "rj_pr (at_job a)" d w w']
    by (auto split: sum.split)
qed

text \<open>The attempts before the first that returns.\<close>

definition failures :: "(exn + 'a) list \<Rightarrow> nat" where
  "failures rs = length (takeWhile isl rs)"

definition for_pull :: "pystr \<Rightarrow> pystr \<Rightarrow> int \<Rightarrow> attempt \<Rightarrow> bool" where
  "for_pull d repo n a \<longleftrightarrow> own_checkpoint a \<and> rj_delivery (at_job a) = d \<and> rj_repo (at_job a) = repo \<and> rj_pr (at_job a) = n"

lemma attempts_actions:
  assumes deps: "sound_deps deps"
  shows "run_attempts diff deps as w = (rs, w') \<Longrightarrow> w_ok w \<Longrightarrow> list_all (for_pull d repo n) as \<Longrightarrow>
    posts_only repo n w w' \<and>
    (if done_with d w then actions w' = actions w
     else of_bool (failures rs < length rs) \<le> actions w' - actions w \<and> actions w \<le> actions w' \<and>
       actions w' - actions w \<le> failures rs + of_bool (failures rs < length rs))"
proof (induction as arbitrary: w rs)
  case (Cons a as)
  obtain r w1 where r: "run_review (attempt_worker diff deps a) (Inr (at_job a)) w = (r, w1)" by (metis surj_pair)
  obtain rs1 where rs: "run_attempts diff deps as w1 = (rs1, w')" "rs = r # rs1"
    using Cons.prems(1) r by (auto split: prod.splits)
  have a: "own_checkpoint a" "rj_delivery (at_job a) = d" "rj_repo (at_job a) = repo" "rj_pr (at_job a) = n"
    using Cons.prems(3) by (simp_all add: for_pull_def [of d repo n a])
  have all: "list_all (for_pull d repo n) as" using Cons.prems(3) by simp
  note one = attempt_actions [OF deps a(1) Cons.prems(2) r, unfolded a(2-4)]
  then have posts: "posts_only repo n w w1" and ok1: "w_ok w1" by simp_all
  note rest = Cons.IH [OF rs(1) ok1 all]
  have fails: "failures rs = (if isl r then Suc (failures rs1) else 0)" by (simp add: rs(2) failures_def)
  show ?case using one rest posts_only_trans [OF posts] fails unfolding rs(2)
    by (cases r) (auto split: if_splits)
qed (simp add: failures_def)

text \<open>What an accepted pull request puts on the queue: one job or more, all of this pull request.\<close>

definition new_jobs :: "ingress_world \<Rightarrow> ingress_world \<Rightarrow> job list" where
  "new_jobs q q' = drop (length (queued_jobs q)) (queued_jobs q')"

lemma accepted_pull:
  assumes "arq_appends arq"
    and "receive_webhook hmac ps (ingress_services arq) secret body sg (Some d) (Some (lit ''pull_request'')) q = (Inr accepted, q')"
  shows "\<exists>p. parse_pr ps body = Inr p \<and> verify_signature hmac body secret sg = Inr True \<and>
    set (new_jobs q q') = {RunReview \<lparr>rj_delivery = d, rj_repo = pp_repo p, rj_pr = pp_number p, rj_action = pp_action p\<rparr>}"
proof -
  obtain js ops where js: "queued_jobs q' = queued_jobs q @ js" "set js = op_job ` set ops"
    and ops: "build_enqueue_ops ps (lit ''pull_request'') d body = Inr (Some ops)"
    and sig: "verify_signature hmac body secret sg = Inr True"
    using arq_spec.receive_arq [OF arq_spec.intro [OF assms(1)] assms(2)] by blast
  from ops obtain p where p: "parse_pr ps body = Inr p"
    "ops = [ReviewOp \<lparr>rj_delivery = d, rj_repo = pp_repo p, rj_pr = pp_number p, rj_action = pp_action p\<rparr>]"
    by (auto simp: build_enqueue_ops_def split: sum.splits)
  with js sig show ?thesis by (simp add: new_jobs_def)
qed


definition delivered_job :: review_job where
  "delivered_job = \<lparr>rj_delivery = lit ''d'', rj_repo = lit ''o/r'', rj_pr = 7, rj_action = lit ''opened''\<rparr>"

definition delivered_attempt :: attempt where
  "delivered_attempt = \<lparr>at_job = delivered_job, at_found = None, at_ops = [Run_aggregate]\<rparr>"

lemma delivered:
  "fst (sample_receive (lit ''pull_request'') []) = Inr accepted"
  "new_jobs (sample_ingress []) (snd (sample_receive (lit ''pull_request'') [])) = [RunReview delivered_job]"
  "isl (fst (run_review (attempt_worker sample_diff_of (sample_gate_deps ag) delivered_attempt) (Inr delivered_job) sample_job_world)) = False"
  by code_simp+


end
